(* ===== verification/Prelude.thy ===== *)
theory Prelude
  imports Main "HOL-Library.Word" "HOL-Library.Multiset"
begin

text \<open>
  The prelude of the development: the machine types of the sources, the layout of machine
  words as little-endian byte sequences (what \<^verbatim>\<open>reinterpret_cast\<close> of an integer to
  \<^verbatim>\<open>uint8_t *\<close> shows on the platforms the sources target), sign extension from a narrow
  two's-complement field, and the facts on lists the components share.
\<close>

unbundle bit_operations_syntax

named_theorems byte_simps \<open>reading and writing words as bytes\<close>

named_theorems buffer_simps \<open>effect of the buffer operations\<close>

named_theorems cursor_simps \<open>one step of a cursor\<close>

section \<open>Machine types\<close>

type_synonym u8 = "8 word"

type_synonym u16 = "16 word"

type_synonym u32 = "32 word"

type_synonym u64 = "64 word"

section \<open>Words as little-endian bytes\<close>

definition le_bytes :: "nat \<Rightarrow> 'a::len word \<Rightarrow> u8 list" where
  "le_bytes n w = map (\<lambda>i. ucast (drop_bit (8 * i) w)) [0..<n]"

fun le_word :: "u8 list \<Rightarrow> 'a::len word" where
  "le_word [] = 0"
| "le_word (b # bs) = ucast b OR push_bit 8 (le_word bs)"

lemma length_le_bytes [simp]: "length (le_bytes n w) = n"
  by (simp add: le_bytes_def)

lemma bit_le_word:
  "bit (le_word bs :: 'a::len word) i \<longleftrightarrow>
     i < LENGTH('a) \<and> i div 8 < length bs \<and> bit (bs ! (i div 8)) (i mod 8)"
proof (induction bs arbitrary: i)
  case Nil
  then show ?case by simp
next
  case (Cons b bs)
  show ?case
  proof (cases "i < 8")
    case True
    then show ?thesis
      by (auto simp: bit_simps)
  next
    case False
    then obtain j where j: "i = j + 8" by (metis add.commute le_Suc_ex not_less)
    have "bit b i = False" using bit_imp_le_length [of b i] False by auto
    moreover have "(j + 8) div 8 = Suc (j div 8)" by simp
    ultimately show ?thesis
      using Cons.IH [of j] j by (auto simp: bit_simps)
  qed
qed

lemma nth_le_bytes [simp]: "i < n \<Longrightarrow> le_bytes n w ! i = ucast (drop_bit (8 * i) w)"
  by (simp add: le_bytes_def)

lemma le_word_le_bytes:
  fixes w :: "'a::len word"
  shows "le_word (le_bytes n w) = take_bit (8 * n) w"
proof (rule bit_word_eqI)
  fix i assume i: "i < LENGTH('a)"
  have *: "8 * (i div 8) + i mod 8 = i" by simp
  have "i div 8 < n \<longleftrightarrow> i < 8 * n" by (simp add: div_less_iff_less_mult mult.commute)
  then show "bit (le_word (le_bytes n w) :: 'a word) i = bit (take_bit (8 * n) w) i"
    using i * by (auto simp: bit_le_word bit_simps)
qed
lemma le_word_rev_stream:
  fixes w :: "'a::len word"
  assumes "n = LENGTH('a) div 8" "8 dvd LENGTH('a)"
  shows "le_word (rev (take n (rev (le_bytes n w) @ s))) = w"
  using assms by (simp add: le_word_le_bytes take_bit_word_eq_self)

lemma le_bytes_u8 [byte_simps]: "le_bytes (Suc 0) (w :: u8) = [w]"
  by (simp add: le_bytes_def)

lemma le_bytes_u16 [byte_simps]: "le_bytes 2 (w :: u16) = [ucast w, ucast (drop_bit 8 w)]"
  by (simp add: le_bytes_def numeral_2_eq_2)

lemma word_xor_eq_0: "(a :: 'a::len word) XOR b = 0 \<longleftrightarrow> a = b"
  by (auto simp: bit_eq_iff bit_simps)

section \<open>Sign extension\<close>

text \<open>A number that fits a signed field of \<^term>\<open>n + 1\<close> bits repeats its sign bit above the field.\<close>

lemma bit_signed_range:
  fixes d :: "'a::len word"
  assumes "- (2 ^ n) \<le> sint d" "sint d < 2 ^ n" "n \<le> i" "i < LENGTH('a)"
  shows "bit d i = (sint d < 0)"
proof -
  have e: "signed_take_bit n (sint d) = sint d"
    using assms(1,2) by (simp add: signed_take_bit_int_eq_self)
  have "bit (sint d) i = bit (sint d) n"
    using bit_signed_take_bit_iff [of n "sint d" i] assms(3) by (simp add: e min_def)
  moreover have "(sint d < 0) = bit (sint d) n"
    using signed_take_bit_negative_iff [of n "sint d"] by (simp add: e)
  moreover have "bit (sint d) i = bit d i"
    using assms(4) by (auto simp: bit_sint_iff min_def)
  ultimately show ?thesis by simp
qed

lemma uint_field:
  fixes d :: "'a::len word"
  assumes "m \<le> LENGTH('a)"
  shows "uint (take_bit m d) = sint d mod 2 ^ m"
proof -
  have "take_bit m (uint d) = take_bit m (sint d)"
  proof (rule bit_eqI)
    fix i
    show "bit (take_bit m (uint d)) i = bit (take_bit m (sint d)) i"
      using assms by (cases "i = LENGTH('a) - 1") (auto simp: bit_simps min_def)
  qed
  then show ?thesis
    by (simp add: unsigned_take_bit_eq flip: take_bit_eq_mod)
qed

lemma sint_field:
  fixes d :: "'a::len word"
  assumes "m < LENGTH('a)"
  shows "sint (take_bit m d) = sint d mod 2 ^ m"
proof -
  have "sint (take_bit m d) = uint (take_bit m d)"
  proof (rule bit_eqI)
    fix i
    show "bit (sint (take_bit m d)) i = bit (uint (take_bit m d)) i"
      using assms by (auto simp: bit_simps min_def)
  qed
  then show ?thesis
    using assms by (simp add: uint_field)
qed

lemma field_negative_iff:
  fixes d :: "'a::len word"
  assumes "- (2 ^ n) < sint d" "sint d < 2 ^ n" "Suc n < LENGTH('a)"
  shows "2 ^ n < sint (take_bit (Suc n) d) \<longleftrightarrow> sint d < 0"
    and "2 ^ n - 1 < sint (take_bit (Suc n) d) \<longleftrightarrow> sint d < 0"
proof -
  have e: "sint (take_bit (Suc n) d) = sint d mod 2 ^ Suc n"
    by (rule sint_field) (rule assms(3))
  have "sint d mod 2 ^ Suc n = (if sint d < 0 then sint d + 2 ^ Suc n else sint d)"
  proof (cases "sint d < 0")
    case True
    then have "(sint d + 2 ^ Suc n) mod 2 ^ Suc n = sint d + 2 ^ Suc n"
      using assms by (intro mod_pos_pos_trivial) auto
    then show ?thesis using True by simp
  qed (use assms in auto)
  then show "2 ^ n < sint (take_bit (Suc n) d) \<longleftrightarrow> sint d < 0"
    "2 ^ n - 1 < sint (take_bit (Suc n) d) \<longleftrightarrow> sint d < 0"
    using assms unfolding e by auto
qed

text \<open>Filling the bits above a field with ones, from any position inside the copies of the sign
  bit, restores a negative number; a nonnegative number is the field itself.\<close>

lemma sign_extend_field:
  fixes d :: "'a::len word"
  assumes "- (2 ^ n) \<le> sint d" "sint d < 2 ^ n" "n \<le> k" "k \<le> Suc n"
  shows "(if sint d < 0 then NOT (mask k) OR take_bit (Suc n) d else take_bit (Suc n) d) = d"
proof (rule bit_word_eqI)
  fix i assume "i < LENGTH('a)"
  then show "bit (if sint d < 0 then NOT (mask k) OR take_bit (Suc n) d else take_bit (Suc n) d) i = bit d i"
    using bit_signed_range [OF assms(1,2), of i] assms(3,4)
    by (cases "n \<le> i") (auto simp: bit_simps not_less)
qed

section \<open>Lists\<close>

lemma length_dropWhile_less [termination_simp]:
  "length (dropWhile P xs) < Suc (length xs)"
  "length (dropWhile P xs) < Suc (Suc (length xs))"
  using length_dropWhile_le [of P xs] by linarith+

end
