(* ===== verification/Double.thy ===== *)
theory Double
  imports Prelude
begin

text \<open>
  The C++ type \<^verbatim>\<open>double\<close> as the sources use it: IEEE-754 binary64 values kept as their bit
  patterns, comparison, \<^verbatim>\<open>std::min\<close> and \<^verbatim>\<open>std::max\<close>, addition in round-to-nearest-even.
  A finite double is an integer number of units of \<open>2\<^sup>-\<^sup>1\<^sup>0\<^sup>7\<^sup>4\<close>, so sums are exact integers
  that are rounded once.  This is the semantics of the language, not code of the repository.
\<close>

type_synonym double = u64

section \<open>Fields and classes of values\<close>

definition fp_sign :: "double \<Rightarrow> bool" where
  "fp_sign x = bit x 63"

definition fp_mag :: "double \<Rightarrow> int" where
  "fp_mag x = uint (take_bit 63 x)"

definition fp_inf_mag :: int where
  "fp_inf_mag = 2047 * 2 ^ 52"

definition fp_nan :: "double \<Rightarrow> bool" where
  "fp_nan x \<longleftrightarrow> fp_inf_mag < fp_mag x"

definition fp_inf :: "double \<Rightarrow> bool" where
  "fp_inf x \<longleftrightarrow> fp_mag x = fp_inf_mag"

definition fp_qnan :: double where
  "fp_qnan = 0x7FF8000000000000"

definition fp_make :: "bool \<Rightarrow> int \<Rightarrow> double" where
  "fp_make s m = (if s then 0x8000000000000000 else 0) OR word_of_int m"

definition fp_neg :: "double \<Rightarrow> double" where
  "fp_neg x = x XOR 0x8000000000000000"

definition fp_abs :: "double \<Rightarrow> double" where
  "fp_abs x = take_bit 63 x"

section \<open>Order\<close>

text \<open>The magnitude bits of a double are ordered like the double, so the signed magnitude is an
  order key; both zeros have key 0.\<close>

definition fp_key :: "double \<Rightarrow> int" where
  "fp_key x = (if fp_sign x then - fp_mag x else fp_mag x)"

definition fp_lt :: "double \<Rightarrow> double \<Rightarrow> bool" where
  "fp_lt a b \<longleftrightarrow> \<not> fp_nan a \<and> \<not> fp_nan b \<and> fp_key a < fp_key b"

text \<open>\<^verbatim>\<open>std::min(a, b)\<close> is \<^verbatim>\<open>b < a ? b : a\<close> and \<^verbatim>\<open>std::max(a, b)\<close> is \<^verbatim>\<open>a < b ? b : a\<close>.\<close>

definition fp_min :: "double \<Rightarrow> double \<Rightarrow> double" where
  "fp_min a b = (if fp_lt b a then b else a)"

definition fp_max :: "double \<Rightarrow> double \<Rightarrow> double" where
  "fp_max a b = (if fp_lt a b then b else a)"

section \<open>Addition\<close>

function bitlen :: "int \<Rightarrow> nat" where
  "bitlen n = (if n \<le> 0 then 0 else Suc (bitlen (n div 2)))"
  by pat_completeness auto

termination bitlen
  by (relation "measure nat") auto

declare bitlen.simps [simp del]

text \<open>The integer a finite magnitude stands for, in units of \<open>2\<^sup>-\<^sup>1\<^sup>0\<^sup>7\<^sup>4\<close>.\<close>

definition fp_units :: "int \<Rightarrow> int" where
  "fp_units m = (let e = m div 2 ^ 52; f = m mod 2 ^ 52 in
     if e = 0 then f else (2 ^ 52 + f) * 2 ^ nat (e - 1))"

definition fp_int :: "double \<Rightarrow> int" where
  "fp_int x = (if fp_sign x then - fp_units (fp_mag x) else fp_units (fp_mag x))"

text \<open>Rounding to the nearest magnitude, ties to even.  With \<open>k\<close> dropped bits the encoding of
  \<open>q * 2 ^ k\<close> is \<open>k * 2 ^ 52 + q\<close>, also when rounding carried \<open>q\<close> up to \<open>2 ^ 53\<close>.\<close>

definition fp_round :: "int \<Rightarrow> int" where
  "fp_round u = (let k = bitlen u - 53; q = u div 2 ^ k; r = u mod 2 ^ k;
     up = (2 ^ k < 2 * r \<or> 2 * r = 2 ^ k \<and> odd q)
   in min (int k * 2 ^ 52 + (if up then q + 1 else q)) fp_inf_mag)"

definition fp_add :: "double \<Rightarrow> double \<Rightarrow> double" where
  "fp_add a b =
    (if fp_nan a \<or> fp_nan b then fp_qnan
     else if fp_inf a then (if fp_inf b \<and> fp_sign a \<noteq> fp_sign b then fp_qnan else a)
     else if fp_inf b then b
     else let n = fp_int a + fp_int b in
       if n = 0 then fp_make (fp_sign a \<and> fp_sign b) 0
       else fp_make (n < 0) (fp_round \<bar>n\<bar>))"

definition fp_sub :: "double \<Rightarrow> double \<Rightarrow> double" where
  "fp_sub a b = fp_add a (fp_neg b)"

section \<open>Facts\<close>

lemma fp_lt_irrefl [simp]: "\<not> fp_lt a a"
  by (simp add: fp_lt_def)

lemma fp_lt_trans: "fp_lt a b \<Longrightarrow> fp_lt b c \<Longrightarrow> fp_lt a c"
  by (simp add: fp_lt_def)

lemma fp_add_commute_mag: "\<not> (fp_nan a \<or> fp_nan b) \<Longrightarrow> \<not> (fp_inf a \<and> fp_inf b) \<Longrightarrow> fp_add a b = fp_add b a"
  by (auto simp: fp_add_def add.commute Let_def conj_commute)

lemma fp_min_nan [simp]: "\<not> fp_nan a \<Longrightarrow> \<not> fp_nan b \<Longrightarrow> \<not> fp_nan (fp_min a b)"
  by (simp add: fp_min_def)

lemma fp_max_nan [simp]: "\<not> fp_nan a \<Longrightarrow> \<not> fp_nan b \<Longrightarrow> \<not> fp_nan (fp_max a b)"
  by (simp add: fp_max_def)

lemma fp_key_min: "\<not> fp_nan a \<Longrightarrow> \<not> fp_nan b \<Longrightarrow> fp_key (fp_min a b) = min (fp_key a) (fp_key b)"
  by (auto simp: fp_min_def fp_lt_def)

lemma fp_key_max: "\<not> fp_nan a \<Longrightarrow> \<not> fp_nan b \<Longrightarrow> fp_key (fp_max a b) = max (fp_key a) (fp_key b)"
  by (auto simp: fp_max_def fp_lt_def)

end
