(* ===== verification/Measurement.thy ===== *)
theory Measurement
  imports Double
begin

text \<open>
  The data every component handles: \<^verbatim>\<open>meas.h\<close>, \<^verbatim>\<open>meas.cpp\<close>, \<^verbatim>\<open>flags.h\<close>, \<^verbatim>\<open>query.h\<close>,
  \<^verbatim>\<open>status.h\<close>, \<^verbatim>\<open>status.cpp\<close> and \<^verbatim>\<open>utils/in_interval.h\<close>: a measurement and the predicates that
  select it, queries, the status of an append, the first and last value of a series.
\<close>

section \<open>Times, ids, flags, values\<close>

type_synonym Time = u64

type_synonym Id = u32

type_synonym Flag = u32

type_synonym Value = double

definition MIN_TIME :: Time where
  "MIN_TIME = 0"

definition MAX_TIME :: Time where
  "MAX_TIME = 0xFFFFFFFFFFFFFFFF"

definition MAX_ID :: Id where
  "MAX_ID = 0xFFFFFFFF"

text \<open>\<^verbatim>\<open>std::numeric_limits<double>::min()\<close> is the smallest positive normal double.\<close>

definition MIN_VALUE :: Value where
  "MIN_VALUE = 0x0010000000000000"

definition MAX_VALUE :: Value where
  "MAX_VALUE = 0x7FEFFFFFFFFFFFFF"

definition NO_DATA :: Flag where
  "NO_DATA = 0xFFFFFFFF"

definition STATS :: Flag where
  "STATS = 0x80000000"

section \<open>Intervals\<close>

definition inInterval :: "'a::ord \<Rightarrow> 'a \<Rightarrow> 'a \<Rightarrow> bool" where
  "inInterval from to value \<longleftrightarrow> from \<le> value \<and> value \<le> to"

definition intervalsIntersection :: "'a::ord \<Rightarrow> 'a \<Rightarrow> 'a \<Rightarrow> 'a \<Rightarrow> bool" where
  "intervalsIntersection from1 to1 from2 to2 \<longleftrightarrow>
     inInterval from1 to1 from2 \<or> inInterval from1 to1 to2 \<or>
     inInterval from2 to2 from1 \<or> inInterval from2 to2 to1"

section \<open>Measurements\<close>

record Meas =
  m_id :: Id
  m_time :: Time
  m_value :: Value
  m_flag :: Flag

definition Meas_empty :: Meas where
  "Meas_empty = \<lparr>m_id = 0, m_time = 0, m_value = 0, m_flag = 0\<rparr>"

definition Meas_of_id :: "Id \<Rightarrow> Meas" where
  "Meas_of_id i = Meas_empty\<lparr>m_id := i\<rparr>"

definition inFlag :: "Meas \<Rightarrow> Flag \<Rightarrow> bool" where
  "inFlag m msk \<longleftrightarrow> (msk AND m_flag m) = msk"

definition inIds :: "Meas \<Rightarrow> Id list \<Rightarrow> bool" where
  "inIds m ids \<longleftrightarrow> length ids = 0 \<or> m_id m \<in> set ids"

definition inQuery :: "Meas \<Rightarrow> Id list \<Rightarrow> Flag \<Rightarrow> bool" where
  "inQuery m ids f \<longleftrightarrow> inFlag m f \<and> inIds m ids"

definition inQueryInterval :: "Meas \<Rightarrow> Id list \<Rightarrow> Flag \<Rightarrow> Time \<Rightarrow> Time \<Rightarrow> bool" where
  "inQueryInterval m ids f from to \<longleftrightarrow> inQuery m ids f \<and> inInterval from to (m_time m)"

definition addFlag :: "Meas \<Rightarrow> Flag \<Rightarrow> Meas" where
  "addFlag m f = m\<lparr>m_flag := m_flag m OR f\<rparr>"

definition areSame :: "Value \<Rightarrow> Value \<Rightarrow> Value \<Rightarrow> bool" where
  "areSame a b EPSILON = fp_lt (fp_abs (fp_sub a b)) EPSILON"

section \<open>First and last value of a series\<close>

record MeasMinMax =
  mm_min :: Meas
  mm_max :: Meas

definition MeasMinMax_empty :: MeasMinMax where
  "MeasMinMax_empty = \<lparr>mm_min = Meas_empty, mm_max = Meas_empty\<rparr>"

definition updateMax :: "MeasMinMax \<Rightarrow> Meas \<Rightarrow> MeasMinMax" where
  "updateMax mm m = (if m_time (mm_max mm) < m_time m then mm\<lparr>mm_max := m\<rparr> else mm)"

definition updateMin :: "MeasMinMax \<Rightarrow> Meas \<Rightarrow> MeasMinMax" where
  "updateMin mm m = (if m_time m < m_time (mm_min mm) then mm\<lparr>mm_min := m\<rparr> else mm)"

section \<open>Queries\<close>

record QueryParam =
  q_ids :: "Id list"
  q_flag :: Flag

record QueryInterval = QueryParam +
  q_from :: Time
  q_to :: Time
  q_step :: Time

record QueryTimePoint = QueryParam +
  q_time_point :: Time

section \<open>Status of an append\<close>

datatype APPEND_ERROR = APPEND_OK | bad_alloc | bad_shard | wal_file_limit

record Status =
  st_writed :: u64
  st_ignored :: u64
  st_error :: APPEND_ERROR

definition Status_empty :: Status where
  "Status_empty = \<lparr>st_writed = 0, st_ignored = 0, st_error = APPEND_OK\<rparr>"

definition Status_writed :: "u64 \<Rightarrow> Status" where
  "Status_writed wr = \<lparr>st_writed = wr, st_ignored = 0, st_error = APPEND_OK\<rparr>"

text \<open>The error constructor does not set \<^verbatim>\<open>writed\<close>: \<open>junk\<close> is what the memory held.\<close>

definition Status_error :: "u64 \<Rightarrow> u64 \<Rightarrow> APPEND_ERROR \<Rightarrow> Status" where
  "Status_error junk ig err = \<lparr>st_writed = junk, st_ignored = ig, st_error = err\<rparr>"

definition Status_plus :: "Status \<Rightarrow> Status \<Rightarrow> Status" where
  "Status_plus a b = Status_empty\<lparr>st_writed := st_writed a + st_writed b,
                                  st_ignored := st_ignored a + st_ignored b\<rparr>"

definition Status_eq :: "Status \<Rightarrow> Status \<Rightarrow> bool" where
  "Status_eq a b \<longleftrightarrow> st_ignored a = st_ignored b \<and> st_writed a = st_writed b"

fun APPEND_ERROR_to_string :: "APPEND_ERROR \<Rightarrow> string" where
  "APPEND_ERROR_to_string APPEND_OK = ''OK''"
| "APPEND_ERROR_to_string bad_alloc = ''memory allocation error''"
| "APPEND_ERROR_to_string bad_shard = ''shard not found''"
| "APPEND_ERROR_to_string wal_file_limit = ''wall file is full''"

section \<open>Facts\<close>

lemma MAX_TIME_top [simp]: "t \<le> MAX_TIME"
proof -
  have "MAX_TIME = - 1" by (simp add: MAX_TIME_def)
  then show ?thesis by (rule ssubst) (rule word_order.extremum)
qed

lemma MIN_TIME_bot [simp]: "MIN_TIME \<le> t"
  by (simp add: MIN_TIME_def)

lemma intervalsIntersection_iff:
  fixes a b c d :: "'a::linorder"
  assumes "a \<le> b" "c \<le> d"
  shows "intervalsIntersection a b c d \<longleftrightarrow> (\<exists>x. inInterval a b x \<and> inInterval c d x)"
  using assms unfolding intervalsIntersection_def inInterval_def
  by (meson linear order.trans order_refl)

lemma inFlag_iff_bits: "inFlag m f \<longleftrightarrow> (\<forall>i<32. bit f i \<longrightarrow> bit (m_flag m) i)"
  unfolding inFlag_def by (auto simp: bit_eq_iff bit_simps)

lemma inFlag_addFlag: "inFlag (addFlag m f) f"
  unfolding inFlag_def addFlag_def by (auto simp: bit_eq_iff bit_simps)

lemma Status_plus_assoc: "Status_plus (Status_plus a b) c = Status_plus a (Status_plus b c)"
  by (simp add: Status_plus_def Status_empty_def add.assoc)

lemma fold_updateMax_time:
  "m_time (mm_max (fold (\<lambda>m mm. updateMax mm m) ms mm0)) = Max (insert (m_time (mm_max mm0)) (m_time ` set ms))"
proof (induction ms arbitrary: mm0)
  case (Cons m ms)
  have "Max (insert (m_time (mm_max (updateMax mm0 m))) (m_time ` set ms)) =
        Max (insert (m_time (mm_max mm0)) (m_time ` set (m # ms)))"
    by (cases "ms = []") (auto simp: updateMax_def max_def)
  then show ?case using Cons.IH [of "updateMax mm0 m"] by simp
qed simp

lemma updateMin_from_empty: "updateMin (mm\<lparr>mm_min := Meas_empty\<rparr>) m = mm\<lparr>mm_min := Meas_empty\<rparr>"
  by (simp add: updateMin_def Meas_empty_def)

end
