(* ===== verification/Manifest.thy ===== *)
theory Manifest
  imports Measurement
begin

text \<open>
  The manifest of a storage, \<^verbatim>\<open>storage/manifest.cpp\<close>: three tables of a database with the pages, the
  write-ahead files and the parameters.  A table is the list of its rows in the order of their
  \<^verbatim>\<open>AUTOINCREMENT\<close> ids, and the statements have their SQL meaning on it: \<^verbatim>\<open>insert\<close> appends a row, \<^verbatim>\<open>delete\<close>
  removes the rows that match, a \<^verbatim>\<open>SELECT\<close> walks the rows in the order of the ids (the one by \<^verbatim>\<open>measId\<close>, and
  the one of the pages, leave the order to the database, which scans by row id).  The files below
  the storage are given by the predicate \<open>exists\<close>; errors of the database are not modelled.
\<close>

record WalFileDescription =
  wd_fname :: string
  wd_id :: Id

record Manifest =
  mf_pages :: "string list"
  mf_wal :: "WalFileDescription list"
  mf_params :: "(string \<times> string) list"

definition Manifest_tables :: Manifest where
  "Manifest_tables = \<lparr>mf_pages = [], mf_wal = [], mf_params = []\<rparr>"

definition page_list :: "Manifest \<Rightarrow> string list" where
  "page_list m = mf_pages m"

definition page_append :: "string \<Rightarrow> Manifest \<Rightarrow> Manifest" where
  "page_append rec m = m\<lparr>mf_pages := mf_pages m @ [rec]\<rparr>"

definition page_rm :: "string \<Rightarrow> Manifest \<Rightarrow> Manifest" where
  "page_rm rec m = m\<lparr>mf_pages := filter (\<lambda>f. f \<noteq> rec) (mf_pages m)\<rparr>"

definition wal_list :: "Manifest \<Rightarrow> WalFileDescription list" where
  "wal_list m = mf_wal m"

definition wal_list_id :: "Id \<Rightarrow> Manifest \<Rightarrow> WalFileDescription list" where
  "wal_list_id i m = filter (\<lambda>d. wd_id d = i) (mf_wal m)"

definition wal_append :: "string \<Rightarrow> Id \<Rightarrow> Manifest \<Rightarrow> Manifest" where
  "wal_append rec i m = m\<lparr>mf_wal := mf_wal m @ [\<lparr>wd_fname = rec, wd_id = i\<rparr>]\<rparr>"

definition wal_rm :: "string \<Rightarrow> Manifest \<Rightarrow> Manifest" where
  "wal_rm rec m = m\<lparr>mf_wal := filter (\<lambda>d. wd_fname d \<noteq> rec) (mf_wal m)\<rparr>"

text \<open>\<^verbatim>\<open>clear_field_values\<close> is called with \<^verbatim>\<open>WAL_JS_KEY\<close> or \<^verbatim>\<open>PAGE_JS_KEY\<close>.\<close>

definition clear_wal :: "Manifest \<Rightarrow> Manifest" where
  "clear_wal m = m\<lparr>mf_wal := []\<rparr>"

definition clear_pages :: "Manifest \<Rightarrow> Manifest" where
  "clear_pages m = m\<lparr>mf_pages := []\<rparr>"

text \<open>\<^verbatim>\<open>insert or replace\<close> with the id of the row of the same name, which keeps its place.\<close>

fun param_replace :: "string \<Rightarrow> string \<Rightarrow> (string \<times> string) list \<Rightarrow> (string \<times> string) list" where
  "param_replace k v [] = [(k, v)]"
| "param_replace k v ((j, w) # ps) = (if j = k then (k, v) # ps else (j, w) # param_replace k v ps)"

definition set_format :: "string \<Rightarrow> Manifest \<Rightarrow> Manifest" where
  "set_format version m = m\<lparr>mf_params := param_replace ''format'' version (mf_params m)\<rparr>"

text \<open>The loop keeps the value of the last row.\<close>

definition get_format :: "Manifest \<Rightarrow> string" where
  "get_format m = fold (\<lambda>(k, v) result. if k = ''format'' then v else result) (mf_params m) []"

definition restore :: "(string \<Rightarrow> bool) \<Rightarrow> Manifest \<Rightarrow> Manifest" where
  "restore exists m = (
     let wals = filter (\<lambda>d. exists (wd_fname d)) (wal_list m);
         m1 = (if length wals \<noteq> length (wal_list m)
               then fold (\<lambda>d. wal_append (wd_fname d) (wd_id d)) wals (clear_wal m) else m);
         pages = filter exists (page_list m1)
     in if length pages \<noteq> length (page_list m1) then fold page_append pages (clear_pages m1) else m1)"

definition Manifest_new :: "(string \<Rightarrow> bool) \<Rightarrow> bool \<Rightarrow> Manifest option \<Rightarrow> Manifest" where
  "Manifest_new exists path_exists db = (
     let m = (case db of None \<Rightarrow> Manifest_tables | Some m \<Rightarrow> m) in if path_exists then restore exists m else m)"

section \<open>Facts\<close>

lemma fold_wal_append: "fold (\<lambda>d. wal_append (wd_fname d) (wd_id d)) ds m = m\<lparr>mf_wal := mf_wal m @ ds\<rparr>"
  by (induction ds arbitrary: m) (simp_all add: wal_append_def)

lemma fold_page_append: "fold page_append fs m = m\<lparr>mf_pages := mf_pages m @ fs\<rparr>"
  by (induction fs arbitrary: m) (simp_all add: page_append_def)

lemma filter_same_length: "length (filter P xs) = length xs \<Longrightarrow> filter P xs = xs"
  by (metis filter_id_conv length_filter_less linorder_less_linear not_less_iff_gr_or_eq)

lemma restore_filters:
  "restore exists m = m\<lparr>mf_wal := filter (\<lambda>d. exists (wd_fname d)) (mf_wal m), mf_pages := filter exists (mf_pages m)\<rparr>"
  using filter_same_length [of "\<lambda>d. exists (wd_fname d)" "mf_wal m"] filter_same_length [of exists "mf_pages m"]
  by (auto simp: restore_def Let_def fold_wal_append fold_page_append wal_list_def page_list_def clear_wal_def clear_pages_def)

lemma get_format_fold: "fold (\<lambda>(k, v) result. if k = f then v else result) (param_replace f v ps) r = v"
  if "distinct (map fst ps)" for f v ps r
  using that
proof (induction ps arbitrary: r)
  case (Cons p ps)
  have skip: "f \<notin> fst ` set qs \<Longrightarrow> fold (\<lambda>(k, v) result. if k = f then v else result) qs s = s" for qs :: "(string \<times> string) list" and s
    by (induction qs arbitrary: s) auto
  show ?case using Cons skip by (cases p) auto
qed simp

lemma param_replace_keys:
  "map fst (param_replace k v ps) = (if k \<in> fst ` set ps then map fst ps else map fst ps @ [k])"
  by (induction ps) (auto simp: rev_image_eqI)

lemma set_formats_distinct: "distinct (map fst (mf_params m)) \<Longrightarrow> distinct (map fst (mf_params (fold set_format vs m)))"
  by (induction vs arbitrary: m) (auto simp: set_format_def param_replace_keys)


end
