(* ===== verification/ByteBuffer.thy ===== *)
theory ByteBuffer
  imports Measurement "HOL-Library.Monad_Syntax"
begin

text \<open>
  \<^verbatim>\<open>compression/bytebuffer.h\<close> and \<^verbatim>\<open>compression/bytebuffer.cpp\<close>: a byte range with a position that
  moves from the end of the range to its begin; writes and reads take the bytes just below
  it.  The checks of \<^verbatim>\<open>move_pos\<close> exist in debug builds only, so an access outside the range is
  undefined behaviour: it is the value \<^term>\<open>None\<close> here.

  The abstraction of a buffer is the sequence of bytes below the top, in the order a
  reader meets them: \<open>bb_written\<close> is what was written so far and \<open>bb_stream\<close> is what a
  reader at the current position still sees.
\<close>

section \<open>The buffer and its operations\<close>

record ByteBuffer =
  bb_data :: "u8 list"
  bb_cap :: u32
  bb_pos :: u32

definition reset_pos :: "ByteBuffer \<Rightarrow> ByteBuffer" where
  "reset_pos b = b\<lparr>bb_pos := bb_cap b - 1\<rparr>"

definition set_pos :: "ByteBuffer \<Rightarrow> u32 \<Rightarrow> ByteBuffer" where
  "set_pos b bw_pos = b\<lparr>bb_pos := bw_pos\<rparr>"

definition ByteBuffer_new :: "u8 list \<Rightarrow> ByteBuffer" where
  "ByteBuffer_new r = reset_pos \<lparr>bb_data = r, bb_cap = of_nat (length r), bb_pos = 0\<rparr>"

definition bb_free_size :: "ByteBuffer \<Rightarrow> nat" where
  "bb_free_size b = unat (bb_pos b)"

definition bb_is_full :: "ByteBuffer \<Rightarrow> bool" where
  "bb_is_full b \<longleftrightarrow> bb_pos b = 0"

definition move_pos :: "ByteBuffer \<Rightarrow> nat \<Rightarrow> ByteBuffer" where
  "move_pos b n = b\<lparr>bb_pos := bb_pos b - of_nat n\<rparr>"

text \<open>The \<open>n\<close> bytes at the position lie inside the range.\<close>

definition bb_inside :: "ByteBuffer \<Rightarrow> nat \<Rightarrow> bool" where
  "bb_inside b n \<longleftrightarrow> unat (bb_pos b) + n \<le> length (bb_data b)"

definition bb_write :: "ByteBuffer \<Rightarrow> 'a::len word \<Rightarrow> ByteBuffer option" where
  "bb_write b0 v = (let n = LENGTH('a) div 8; b = move_pos b0 n; p = unat (bb_pos b) in
     if bb_inside b n
     then Some (b\<lparr>bb_data := take p (bb_data b) @ le_bytes n v @ drop (p + n) (bb_data b)\<rparr>)
     else None)"

definition bb_read :: "ByteBuffer \<Rightarrow> ('a::len word \<times> ByteBuffer) option" where
  "bb_read b0 = (let n = LENGTH('a) div 8; b = move_pos b0 n; p = unat (bb_pos b) in
     if bb_inside b n then Some (le_word (take n (drop p (bb_data b))), b) else None)"

definition used_space :: "ByteBuffer \<Rightarrow> u64" where
  "used_space b = ucast (bb_cap b) - ucast (bb_pos b)"

section \<open>Invariant and abstraction\<close>

definition bb_ok :: "ByteBuffer \<Rightarrow> bool" where
  "bb_ok b \<longleftrightarrow> length (bb_data b) < 2 ^ 32 \<and> bb_cap b = of_nat (length (bb_data b)) \<and>
     unat (bb_pos b) < length (bb_data b)"

definition bb_stream :: "ByteBuffer \<Rightarrow> u8 list" where
  "bb_stream b = rev (take (unat (bb_pos b)) (bb_data b))"

definition bb_written :: "ByteBuffer \<Rightarrow> u8 list" where
  "bb_written b = rev (drop (unat (bb_pos b)) (take (length (bb_data b) - 1) (bb_data b)))"

text \<open>\<open>bb_appended b bs b'\<close>: the buffer \<open>b'\<close> is \<open>b\<close> after writing the bytes \<open>bs\<close>.\<close>

definition bb_appended :: "ByteBuffer \<Rightarrow> u8 list \<Rightarrow> ByteBuffer \<Rightarrow> bool" where
  "bb_appended b bs b' \<longleftrightarrow> bb_ok b' \<and> length (bb_data b') = length (bb_data b) \<and>
     bb_cap b' = bb_cap b \<and> bb_written b' = bb_written b @ bs \<and>
     unat (bb_pos b) = unat (bb_pos b') + length bs"

lemma bb_appended_refl [simp]: "bb_ok b \<Longrightarrow> bb_appended b [] b"
  by (simp add: bb_appended_def)

lemma bb_appended_trans [trans]:
  "bb_appended b xs b1 \<Longrightarrow> bb_appended b1 ys b2 \<Longrightarrow> bb_appended b (xs @ ys) b2"
  by (simp add: bb_appended_def)

lemma bb_appended_okD: "bb_appended b xs b' \<Longrightarrow> bb_ok b'"
  by (simp add: bb_appended_def)

lemma bb_appended_free: "bb_appended b xs b' \<Longrightarrow> bb_free_size b = bb_free_size b' + length xs"
  by (simp add: bb_appended_def bb_free_size_def)

lemma unat_of_nat_u32: "n < 2 ^ 32 \<Longrightarrow> unat (of_nat n :: u32) = n"
  by (simp add: unat_of_nat take_bit_eq_mod)

lemma unat_pos_minus: "n \<le> unat (p :: u32) \<Longrightarrow> unat (p - of_nat n) = unat p - n"
proof -
  assume n: "n \<le> unat p"
  then have "unat (of_nat n :: u32) = n"
    using unsigned_less [of p, where 'a = nat] by (simp add: unat_of_nat take_bit_eq_mod)
  then show ?thesis
    using n by (simp add: unat_sub_if')
qed

lemma bb_write_appends:
  fixes w :: "'a::len word"
  assumes ok: "bb_ok b" and n: "n = LENGTH('a) div 8" "n \<le> bb_free_size b"
  shows "\<exists>b'. bb_write b w = Some b' \<and> bb_appended b (rev (le_bytes n w)) b'"
proof -
  define p where "p = unat (bb_pos b) - n"
  define d where "d = bb_data b"
  have pos: "unat (bb_pos b - of_nat n) = p" "unat (bb_pos b) = p + n"
    using n by (simp_all add: unat_pos_minus bb_free_size_def p_def)
  have len: "p + n < length d" "length d < 2 ^ 32" "bb_cap b = of_nat (length d)"
    using ok pos by (simp_all add: bb_ok_def d_def)
  define b' where "b' = b\<lparr>bb_pos := bb_pos b - of_nat n,
     bb_data := take p d @ le_bytes n w @ drop (p + n) d\<rparr>"
  have "bb_write b w = Some b'"
    using pos len n(1) by (simp add: bb_write_def Let_def bb_inside_def move_pos_def b'_def d_def)
  moreover have "length (bb_data b') = length d"
    using len by (simp add: b'_def)
  moreover have "bb_written b' = bb_written b @ rev (le_bytes n w)"
    using len pos by (simp add: bb_written_def b'_def d_def [symmetric] min_def take_drop)
  ultimately show ?thesis
    using len pos by (auto simp: bb_appended_def bb_ok_def b'_def d_def)
qed

lemma bb_write_u8:
  "bb_ok b \<Longrightarrow> 1 \<le> bb_free_size b \<Longrightarrow> \<exists>b'. bb_write b (w :: u8) = Some b' \<and> bb_appended b [w] b'"
  using bb_write_appends [of b 1 w] by (simp add: byte_simps)

lemma bb_read_stream:
  assumes "n = LENGTH('a) div 8" "n \<le> length (bb_stream b)" "unat (bb_pos b) \<le> length (bb_data b)"
  shows "(bb_read b :: ('a::len word \<times> ByteBuffer) option) =
    Some (le_word (rev (take n (bb_stream b))), move_pos b n)"
    and "bb_stream (move_pos b n) = drop n (bb_stream b)"
    and "bb_data (move_pos b n) = bb_data b"
    and "unat (bb_pos (move_pos b n)) \<le> length (bb_data b)"
proof -
  define p where "p = unat (bb_pos b) - n"
  have pos: "unat (bb_pos b - of_nat n) = p" "unat (bb_pos b) = p + n"
    using assms by (simp_all add: unat_pos_minus bb_stream_def p_def)
  then show "(bb_read b :: ('a word \<times> ByteBuffer) option) =
    Some (le_word (rev (take n (bb_stream b))), move_pos b n)"
    using assms by (simp add: bb_read_def Let_def bb_inside_def move_pos_def bb_stream_def take_rev drop_take)
  show "bb_stream (move_pos b n) = drop n (bb_stream b)" "bb_data (move_pos b n) = bb_data b"
    "unat (bb_pos (move_pos b n)) \<le> length (bb_data b)"
    using assms(3) pos by (simp_all add: bb_stream_def move_pos_def drop_rev min_def)
qed

text \<open>\<open>bb_at b d s\<close>: the buffer over the bytes \<open>d\<close> is at a position where a reader sees \<open>s\<close>.\<close>

definition bb_at :: "ByteBuffer \<Rightarrow> u8 list \<Rightarrow> u8 list \<Rightarrow> bool" where
  "bb_at b d s \<longleftrightarrow> bb_data b = d \<and> unat (bb_pos b) \<le> length d \<and> bb_stream b = s"

lemma bb_read_word:
  fixes w :: "'a::len word"
  assumes "bb_at b d (rev (le_bytes n w) @ s)" "n = LENGTH('a) div 8" "8 dvd LENGTH('a)"
  shows "bb_read b = Some (w, move_pos b n) \<and> bb_at (move_pos b n) d s"
proof -
  have at: "bb_data b = d" "unat (bb_pos b) \<le> length d" "bb_stream b = rev (le_bytes n w) @ s"
    using assms(1) by (simp_all add: bb_at_def)
  note rd = bb_read_stream [of n b, where 'a = 'a, OF assms(2)]
  have "bb_read b = Some (w, move_pos b n)"
    using rd(1) at le_word_rev_stream [OF assms(2,3), of w s] by simp
  moreover have "bb_at (move_pos b n) d s"
    using rd(2-4) at by (simp add: bb_at_def)
  ultimately show ?thesis ..
qed

lemmas bb_read_u8 = bb_read_word [where 'a = 8 and n = 1, simplified, unfolded byte_simps, simplified]

lemma bb_read_u16:
  "bb_at b d (rev (le_bytes 2 w) @ s) \<Longrightarrow>
    bb_read b = Some (w :: u16, move_pos b 2) \<and> bb_at (move_pos b 2) d s"
  by (rule bb_read_word) simp_all

lemma bb_read_u64:
  "bb_at b d (rev (le_bytes 8 w) @ s) \<Longrightarrow>
    bb_read b = Some (w :: u64, move_pos b 8) \<and> bb_at (move_pos b 8) d s"
  by (rule bb_read_word) simp_all

text \<open>A reader that starts at the top meets everything that was written.\<close>

lemma bb_at_written:
  assumes "bb_ok b"
  shows "bb_at (reset_pos b) (bb_data b) (bb_written b @ bb_stream b)"
proof -
  define k where "k = length (bb_data b) - 1"
  have k: "k < 2 ^ 32" "unat (bb_pos b) \<le> k" "Suc k = length (bb_data b)"
    using assms by (auto simp: bb_ok_def k_def)
  have "bb_cap b - 1 = of_nat k"
    using assms by (simp add: bb_ok_def flip: k(3))
  then have p: "unat (bb_cap b - 1) = k"
    using k(1) by (simp add: unat_of_nat take_bit_eq_mod)
  have "take k (bb_data b) = take (unat (bb_pos b)) (bb_data b) @ drop (unat (bb_pos b)) (take k (bb_data b))"
    using k by (metis append_take_drop_id min.absorb1 take_take)
  then have "rev (take k (bb_data b)) = bb_written b @ bb_stream b"
    by (simp add: bb_written_def bb_stream_def k_def flip: rev_append)
  then show ?thesis
    using p k by (simp add: bb_at_def reset_pos_def bb_stream_def)
qed

text \<open>A reader placed where the writer was meets the bytes written since.\<close>

lemma bb_at_appended:
  assumes ok: "bb_ok b" and app: "bb_appended b bs b'"
  shows "bb_at (set_pos b' (bb_pos b)) (bb_data b') (bs @ bb_stream b')"
proof -
  define d n p q where "d = bb_data b'" and "n = length d - 1" and "p = unat (bb_pos b)" and "q = unat (bb_pos b')"
  have len: "length (bb_data b) = length d" and pq: "p = q + length bs" and p: "p \<le> n" "n < length d"
    using ok app by (auto simp: bb_appended_def bb_ok_def d_def n_def p_def q_def)
  have "rev (drop q (take n d)) = rev (drop p (take n (bb_data b))) @ bs"
    using app len by (simp add: bb_appended_def bb_written_def d_def n_def p_def q_def)
  then have "drop q (take n d) = rev bs @ drop p (take n (bb_data b))"
    by (metis rev_append rev_rev_ident)
  then have "take (length bs) (drop q (take n d)) = rev bs" by simp
  moreover have "take (length bs) (drop q (take n d)) = drop q (take p d)"
    using pq p by (simp add: take_drop min_def add.commute)
  ultimately have "rev (drop q (take p d)) = bs" by simp
  moreover have "take p d = take q d @ drop q (take p d)"
    using pq by (metis append_take_drop_id le_add1 min.absorb1 take_take)
  ultimately have "rev (take p d) = bs @ rev (take q d)" by (metis rev_append)
  then show ?thesis
    using p by (simp add: bb_at_def bb_stream_def set_pos_def d_def p_def q_def)
qed

end
