(* ===== verification/Delta.thy ===== *)
theory Delta
  imports ByteBuffer
begin

text \<open>
  \<^verbatim>\<open>compression/delta.h\<close>, \<^verbatim>\<open>compression/delta.cpp\<close> and \<^verbatim>\<open>utils/bitoperations.h\<close>: times are stored as
  the change of the step between two values, in one, two, three or nine bytes.
\<close>

section \<open>Bit fields of the encoding\<close>

definition bit_get :: "u8 \<Rightarrow> nat \<Rightarrow> u8" where
  "bit_get v num = drop_bit num v AND 1"

definition bit_check :: "u8 \<Rightarrow> nat \<Rightarrow> bool" where
  "bit_check v num \<longleftrightarrow> bit_get v num = 1"

definition delta_1b_mask :: u8 where "delta_1b_mask = 0x80"

definition delta_1b_mask_inv :: u8 where "delta_1b_mask_inv = 0x3F"

definition delta_2b_mask :: u16 where "delta_2b_mask = 0xC000"

definition delta_2b_mask_inv :: u16 where "delta_2b_mask_inv = 0x1FFF"

definition delta_3b_mask :: u32 where "delta_3b_mask = 0xE00000"

definition delta_3b_mask_inv :: u32 where "delta_3b_mask_inv = 0xFFFFF"

definition get_delta_1b :: "u64 \<Rightarrow> u8" where
  "get_delta_1b D = delta_1b_mask OR (delta_1b_mask_inv AND ucast D)"

definition get_delta_2b :: "u64 \<Rightarrow> u16" where
  "get_delta_2b D = delta_2b_mask OR (delta_2b_mask_inv AND ucast D)"

definition get_delta_3b :: "u64 \<Rightarrow> u32" where
  "get_delta_3b D = delta_3b_mask OR (delta_3b_mask_inv AND ucast D)"

text \<open>The union \<^verbatim>\<open>conv_32\<close>: the low 16 bits and the 8 bits above them.\<close>

definition conv_32_lo :: "u32 \<Rightarrow> u16" where
  "conv_32_lo big = ucast big"

definition conv_32_hi :: "u32 \<Rightarrow> u8" where
  "conv_32_hi big = ucast (drop_bit 16 big)"

definition conv_32_big :: "u8 \<Rightarrow> u16 \<Rightarrow> u32" where
  "conv_32_big hi lo = push_bit 16 (ucast hi) OR ucast lo"

section \<open>Compressor\<close>

record DeltaCompressor =
  dc_is_first :: bool
  dc_first :: Time
  dc_prev_delta :: u64
  dc_prev_time :: Time

definition DeltaCompressor_new :: DeltaCompressor where
  "DeltaCompressor_new = \<lparr>dc_is_first = True, dc_first = 0, dc_prev_delta = 0, dc_prev_time = 0\<rparr>"

definition DeltaCompressor_append ::
  "DeltaCompressor \<Rightarrow> Time \<Rightarrow> ByteBuffer \<Rightarrow> (bool \<times> DeltaCompressor \<times> ByteBuffer) option" where
  "DeltaCompressor_append c t bw =
    (if dc_is_first c
     then Some (True, c\<lparr>dc_first := t, dc_is_first := False, dc_prev_time := t, dc_prev_delta := 0\<rparr>, bw)
     else
       let D = (t - dc_prev_time c) - dc_prev_delta c;
           c' = c\<lparr>dc_prev_delta := D, dc_prev_time := t\<rparr> in
       if -32 < sint D \<and> sint D < 32 then
         if bb_free_size bw < 1 then Some (False, c, bw)
         else do { bw1 \<leftarrow> bb_write bw (get_delta_1b D); Some (True, c', bw1) }
       else if -4096 < sint D \<and> sint D < 4096 then
         if bb_free_size bw < 2 then Some (False, c, bw)
         else do { bw1 \<leftarrow> bb_write bw (get_delta_2b D); Some (True, c', bw1) }
       else if -524288 < sint D \<and> sint D < 524287 then
         if bb_free_size bw < 3 then Some (False, c, bw)
         else do {
           bw1 \<leftarrow> bb_write bw (conv_32_hi (get_delta_3b D));
           bw2 \<leftarrow> bb_write bw1 (conv_32_lo (get_delta_3b D));
           Some (True, c', bw2) }
       else
         if bb_free_size bw < 9 then Some (False, c, bw)
         else do {
           bw1 \<leftarrow> bb_write bw (0 :: u8);
           bw2 \<leftarrow> bb_write bw1 D;
           Some (True, c', bw2) })"

section \<open>Decompressor\<close>

record DeltaDeCompressor =
  dd_prev_delta :: u64
  dd_prev_time :: Time

definition DeltaDeCompressor_new :: "Time \<Rightarrow> DeltaDeCompressor" where
  "DeltaDeCompressor_new first = \<lparr>dd_prev_delta = 0, dd_prev_time = first\<rparr>"

text \<open>The value \<^verbatim>\<open>result\<close> of \<^verbatim>\<open>read\<close>.  A first byte no compressor writes leaves it 0, since
  \<^verbatim>\<open>ENSURE\<close> is compiled out.\<close>

definition delta_read_result :: "ByteBuffer \<Rightarrow> (u64 \<times> ByteBuffer) option" where
  "delta_read_result bw = do {
     (first_byte :: u8, bw1) \<leftarrow> bb_read bw;
     if (first_byte AND delta_1b_mask) = delta_1b_mask \<and> \<not> bit_check first_byte 6 then
       let result = ucast (first_byte AND delta_1b_mask_inv) in
       Some (if 32 < sint result then (-64) OR result else result, bw1)
     else if (first_byte AND ucast (drop_bit 8 delta_2b_mask)) = ucast (drop_bit 8 delta_2b_mask) \<and>
             \<not> bit_check first_byte 5 then do {
       (second :: u8, bw2) \<leftarrow> bb_read bw1;
       let first_unmasked = first_byte AND ucast (drop_bit 8 delta_2b_mask_inv);
           result = push_bit 8 (ucast first_unmasked) OR ucast second
       in Some (if 4096 < sint result then (-4096) OR result else result, bw2) }
     else if (first_byte AND ucast (drop_bit 16 delta_3b_mask)) = ucast (drop_bit 16 delta_3b_mask) then do {
       (second :: u16, bw2) \<leftarrow> bb_read bw1;
       let first_unmasked = first_byte AND ucast (drop_bit 16 delta_3b_mask_inv);
           result = ucast (conv_32_big first_unmasked second)
       in Some (if 524287 < sint result then (-524287) OR result else result, bw2) }
     else if first_byte = 0 then bb_read bw1
     else Some (0, bw1) }"

definition DeltaDeCompressor_read ::
  "DeltaDeCompressor \<Rightarrow> ByteBuffer \<Rightarrow> (Time \<times> DeltaDeCompressor \<times> ByteBuffer) option" where
  "DeltaDeCompressor_read d bw = do {
     (result, bw1) \<leftarrow> delta_read_result bw;
     let ret = dd_prev_time d + result + dd_prev_delta d in
     Some (ret, d\<lparr>dd_prev_delta := result, dd_prev_time := ret\<rparr>, bw1) }"

section \<open>The bytes of a step\<close>

text \<open>The classes of steps, the bytes of a step in the order a reader meets them, and what the
  decompressor makes of a step.\<close>

definition delta_3b_range :: "u64 \<Rightarrow> bool" where
  "delta_3b_range D \<longleftrightarrow> \<not> (-4096 < sint D \<and> sint D < 4096) \<and> -524288 < sint D \<and> sint D < 524287"

definition delta_bytes :: "u64 \<Rightarrow> u8 list" where
  "delta_bytes D =
    (if -32 < sint D \<and> sint D < 32 then rev (le_bytes 1 (get_delta_1b D))
     else if -4096 < sint D \<and> sint D < 4096 then rev (le_bytes 2 (get_delta_2b D))
     else if -524288 < sint D \<and> sint D < 524287 then
       rev (le_bytes 1 (conv_32_hi (get_delta_3b D))) @ rev (le_bytes 2 (conv_32_lo (get_delta_3b D)))
     else rev (le_bytes 1 (0 :: u8)) @ rev (le_bytes 8 D))"

definition delta_decoded :: "u64 \<Rightarrow> u64" where
  "delta_decoded D = (if delta_3b_range D \<and> sint D < 0 then D OR 1 else D)"

lemma delta_masks:
  "delta_1b_mask = push_bit 7 (mask 1)" "delta_1b_mask_inv = mask 6"
  "delta_2b_mask = push_bit 14 (mask 2)" "delta_2b_mask_inv = mask 13"
  "delta_3b_mask = push_bit 21 (mask 3)" "delta_3b_mask_inv = mask 20"
  by (simp_all add: delta_1b_mask_def delta_1b_mask_inv_def delta_2b_mask_def delta_2b_mask_inv_def
      delta_3b_mask_def delta_3b_mask_inv_def mask_eq_exp_minus_1 push_bit_eq_mult)

lemma delta_mask_bits:
  "bit delta_1b_mask i \<longleftrightarrow> i = 7" "bit delta_1b_mask_inv i \<longleftrightarrow> i < 6"
  "bit delta_2b_mask i \<longleftrightarrow> i = 14 \<or> i = 15" "bit delta_2b_mask_inv i \<longleftrightarrow> i < 13"
  "bit delta_3b_mask i \<longleftrightarrow> i = 21 \<or> i = 22 \<or> i = 23" "bit delta_3b_mask_inv i \<longleftrightarrow> i < 20"
  unfolding delta_masks bit_push_bit_iff bit_mask_iff by auto

lemma bit_check_iff [simp]: "bit_check v n = bit v n"
  by (simp add: bit_check_def bit_get_def and_one_eq odd_iff_mod_2_eq_one [symmetric] bit_iff_odd_drop_bit)

lemma sign_masks:
  "(-64 :: u64) = NOT (mask 6)" "(-4096 :: u64) = NOT (mask 12)"
  "(-524287 :: u64) = NOT (mask 19) OR 1"
  by (simp_all add: mask_eq_exp_minus_1)

lemma delta_fields:
  "ucast (get_delta_1b D AND delta_1b_mask_inv) = take_bit 6 D"
  "push_bit 8 (ucast (ucast (drop_bit 8 (get_delta_2b D)) AND (ucast (drop_bit 8 delta_2b_mask_inv) :: u8)))
     OR ucast (ucast (get_delta_2b D) :: u8) = take_bit 13 D"
  "ucast (conv_32_big (conv_32_hi (get_delta_3b D) AND ucast (drop_bit 16 delta_3b_mask_inv))
     (conv_32_lo (get_delta_3b D))) = take_bit 20 D"
  by (rule bit_word_eqI; auto simp: bit_simps get_delta_1b_def get_delta_2b_def get_delta_3b_def
      conv_32_big_def conv_32_hi_def conv_32_lo_def delta_mask_bits)+

lemmas delta_bits = get_delta_1b_def get_delta_2b_def get_delta_3b_def
  conv_32_big_def conv_32_hi_def conv_32_lo_def delta_mask_bits

lemma delta_tags:
  "get_delta_1b D AND delta_1b_mask = delta_1b_mask" "\<not> bit (get_delta_1b D) 6"
  "bit (ucast (drop_bit 8 (get_delta_2b D)) :: u8) 6"
  "\<not> bit (ucast (drop_bit 8 (get_delta_2b D)) :: u8) 5"
  "(ucast (drop_bit 8 (get_delta_2b D)) :: u8) AND ucast (drop_bit 8 delta_2b_mask) = ucast (drop_bit 8 delta_2b_mask)"
  "bit (conv_32_hi (get_delta_3b D)) 6" "bit (conv_32_hi (get_delta_3b D)) 5"
  "conv_32_hi (get_delta_3b D) AND ucast (drop_bit 16 delta_3b_mask) = ucast (drop_bit 16 delta_3b_mask)"
  by (auto simp: bit_simps delta_bits intro!: bit_word_eqI)

lemma delta_zero_tag:
  "delta_1b_mask \<noteq> 0" "(ucast (drop_bit 8 delta_2b_mask) :: u8) \<noteq> 0"
  "(ucast (drop_bit 16 delta_3b_mask) :: u8) \<noteq> 0"
  by (simp_all add: delta_1b_mask_def delta_2b_mask_def delta_3b_mask_def drop_bit_eq_div)

lemma delta_extend_1b:
  assumes "-32 < sint D" "sint D < 32"
  shows "(if 32 < sint (take_bit 6 D) then (-64) OR take_bit 6 D else take_bit 6 D) = (D :: u64)"
  using field_negative_iff(1) [of 5 D] sign_extend_field [of 5 D 6] assms
  by (cases "sint D < 0") (simp_all add: sign_masks)

lemma delta_extend_2b:
  assumes "-4096 < sint D" "sint D < 4096"
  shows "(if 4096 < sint (take_bit 13 D) then (-4096) OR take_bit 13 D else take_bit 13 D) = (D :: u64)"
  using field_negative_iff(1) [of 12 D] sign_extend_field [of 12 D 12] assms
  by (cases "sint D < 0") (simp_all add: sign_masks)

lemma delta_extend_3b:
  assumes "delta_3b_range D"
  shows "(if 524287 < sint (take_bit 20 D) then (-524287) OR take_bit 20 D else take_bit 20 D) = delta_decoded D"
proof -
  have r: "- (2 ^ 19) < sint D" "sint D < 2 ^ 19"
    using assms by (auto simp: delta_3b_range_def)
  have e: "(NOT (mask 19) OR 1) OR take_bit 20 D = (NOT (mask 19) OR take_bit 20 D) OR 1"
    by (simp only: or.assoc or.commute or.left_commute)
  show ?thesis
    using field_negative_iff(2) [of 19 D] sign_extend_field [of 19 D 19] r assms
    by (cases "sint D < 0") (simp_all add: sign_masks delta_decoded_def e)
qed

lemma delta_cases [case_names one two three nine]:
  obtains "-32 < sint D" "sint D < 32"
  | "\<not> (-32 < sint D \<and> sint D < 32)" "-4096 < sint D" "sint D < 4096"
  | "\<not> (-32 < sint D \<and> sint D < 32)" "\<not> (-4096 < sint D \<and> sint D < 4096)" "-524288 < sint D" "sint D < 524287"
  | "\<not> (-32 < sint D \<and> sint D < 32)" "\<not> (-4096 < sint D \<and> sint D < 4096)" "\<not> (-524288 < sint D \<and> sint D < 524287)"
  by blast

lemma delta_read_result_bytes:
  assumes "bb_at b d (delta_bytes D @ s)"
  shows "\<exists>b'. delta_read_result b = Some (delta_decoded D, b') \<and> bb_at b' d s"
proof (cases D rule: delta_cases)
  case one
  then have "bb_at b d (get_delta_1b D # s)" "delta_decoded D = D"
    using assms by (auto simp: delta_bytes_def byte_simps delta_decoded_def delta_3b_range_def)
  with bb_read_u8 [OF this(1)] show ?thesis
    using delta_extend_1b [OF one] by (simp add: delta_read_result_def delta_tags delta_fields Let_def)
next
  case two
  then have "bb_at b d (ucast (drop_bit 8 (get_delta_2b D)) # ucast (get_delta_2b D) # s)" "delta_decoded D = D"
    using assms by (auto simp: delta_bytes_def byte_simps delta_decoded_def delta_3b_range_def split: if_splits)
  with bb_read_u8 [OF this(1)] show ?thesis
    using delta_extend_2b [OF two(2,3)] bb_read_u8 [of "move_pos b (Suc 0)" d]
    by (auto simp: delta_read_result_def delta_tags delta_fields Let_def)
next
  case three
  then have "bb_at b d (conv_32_hi (get_delta_3b D) # rev (le_bytes 2 (conv_32_lo (get_delta_3b D))) @ s)"
    using assms by (auto simp: delta_bytes_def le_bytes_u8 split: if_splits)
  note u8 = bb_read_u8 [OF this]
  have "delta_3b_range D" using three by (simp add: delta_3b_range_def)
  with u8 show ?thesis
    using delta_extend_3b [of D] bb_read_u16 [of "move_pos b (Suc 0)" d "conv_32_lo (get_delta_3b D)" s]
    by (auto simp: delta_read_result_def delta_tags delta_fields Let_def split: if_splits)
next
  case nine
  then have "bb_at b d (0 # rev (le_bytes 8 D) @ s)" "delta_decoded D = D"
    using assms by (auto simp: delta_bytes_def le_bytes_u8 delta_decoded_def delta_3b_range_def split: if_splits)
  with bb_read_u8 [OF this(1)] show ?thesis
    using bb_read_u64 [of "move_pos b (Suc 0)" d D s]
    by (simp add: delta_read_result_def delta_zero_tag)
qed

definition delta_step :: "DeltaCompressor \<Rightarrow> Time \<Rightarrow> u64" where
  "delta_step c t = (t - dc_prev_time c) - dc_prev_delta c"

lemma DeltaCompressor_append_fits:
  assumes "bb_ok bw" "\<not> dc_is_first c" "length (delta_bytes (delta_step c t)) \<le> bb_free_size bw"
  shows "\<exists>bw'. DeltaCompressor_append c t bw =
      Some (True, c\<lparr>dc_prev_delta := delta_step c t, dc_prev_time := t\<rparr>, bw') \<and>
    bb_appended bw (delta_bytes (delta_step c t)) bw'"
proof (cases "delta_step c t" rule: delta_cases)
  case one
  with assms show ?thesis
    using bb_write_u8 [of bw "get_delta_1b (delta_step c t)"]
    by (auto simp: DeltaCompressor_append_def delta_step_def [symmetric] delta_bytes_def le_bytes_u8)
next
  case two
  with assms show ?thesis
    using bb_write_appends [of bw 2 "get_delta_2b (delta_step c t)"]
    by (auto simp: DeltaCompressor_append_def delta_step_def [symmetric] delta_bytes_def)
next
  case three
  with assms have "3 \<le> bb_free_size bw" by (simp add: delta_bytes_def)
  then obtain b1 where b1: "bb_write bw (conv_32_hi (get_delta_3b (delta_step c t))) = Some b1"
    "bb_appended bw [conv_32_hi (get_delta_3b (delta_step c t))] b1"
    using bb_write_u8 [OF assms(1)] by auto
  with \<open>3 \<le> bb_free_size bw\<close> obtain b2 where "bb_write b1 (conv_32_lo (get_delta_3b (delta_step c t))) = Some b2"
    "bb_appended b1 (rev (le_bytes 2 (conv_32_lo (get_delta_3b (delta_step c t))))) b2"
    using bb_write_appends [of b1 2 "conv_32_lo (get_delta_3b (delta_step c t))"]
      bb_appended_okD [OF b1(2)] bb_appended_free [OF b1(2)] by auto
  with three b1 \<open>3 \<le> bb_free_size bw\<close> show ?thesis
    using bb_appended_trans [OF b1(2)] assms(2)
    by (auto simp: DeltaCompressor_append_def delta_step_def [symmetric] delta_bytes_def le_bytes_u8)
next
  case nine
  with assms have "9 \<le> bb_free_size bw" by (simp add: delta_bytes_def)
  then obtain b1 where b1: "bb_write bw (0 :: u8) = Some b1" "bb_appended bw [0] b1"
    using bb_write_u8 [OF assms(1)] by auto
  with \<open>9 \<le> bb_free_size bw\<close> obtain b2 where "bb_write b1 (delta_step c t) = Some b2"
    "bb_appended b1 (rev (le_bytes 8 (delta_step c t))) b2"
    using bb_write_appends [of b1 8 "delta_step c t"]
      bb_appended_okD [OF b1(2)] bb_appended_free [OF b1(2)] by auto
  with nine b1 \<open>9 \<le> bb_free_size bw\<close> show ?thesis
    using bb_appended_trans [OF b1(2)] assms(2)
    by (auto simp: DeltaCompressor_append_def delta_step_def [symmetric] delta_bytes_def le_bytes_u8)
qed

lemma DeltaCompressor_append_full:
  assumes "\<not> dc_is_first c" "bb_free_size bw < length (delta_bytes (delta_step c t))"
  shows "DeltaCompressor_append c t bw = Some (False, c, bw)"
  using assms
  by (cases "delta_step c t" rule: delta_cases)
    (auto simp: DeltaCompressor_append_def delta_step_def [symmetric] delta_bytes_def Let_def)

lemma DeltaCompressor_append_first:
  "dc_is_first c \<Longrightarrow> DeltaCompressor_append c t bw =
    Some (True, \<lparr>dc_is_first = False, dc_first = t, dc_prev_delta = 0, dc_prev_time = t\<rparr>, bw)"
  by (simp add: DeltaCompressor_append_def)

lemma length_delta_bytes: "length (delta_bytes D) \<in> {1, 2, 3, 9}"
  by (auto simp: delta_bytes_def)

section \<open>Properties\<close>

lemma word_or_one: "even (D :: u64) \<Longrightarrow> D OR 1 = D + 1"
proof -
  assume "even D"
  then have "\<not> bit D n \<or> \<not> bit (1 :: u64) n" for n by (cases n) (auto simp: bit_0 bit_1_iff)
  then show ?thesis using disjunctive_add [of D 1] by simp
qed

lemma delta_decoded_cases:
  "delta_decoded D = (if delta_3b_range D \<and> sint D < 0 \<and> even D then D + 1 else D)"
proof -
  have "odd D \<Longrightarrow> D OR 1 = D"
    by (rule bit_word_eqI) (auto simp: bit_simps even_iff_mod_2_eq_zero bit_0)
  then show ?thesis by (auto simp: delta_decoded_def word_or_one)
qed

lemma delta_append_read:
  assumes ok: "bb_ok bw" and first: "\<not> dc_is_first c" and room: "length (delta_bytes (delta_step c t)) \<le> bb_free_size bw"
  shows "\<exists>bw' d b. DeltaCompressor_append c t bw = Some (True, c\<lparr>dc_prev_delta := delta_step c t, dc_prev_time := t\<rparr>, bw') \<and>
    DeltaDeCompressor_read \<lparr>dd_prev_delta = dc_prev_delta c, dd_prev_time = dc_prev_time c\<rparr> (set_pos bw' (bb_pos bw)) =
      Some (dc_prev_time c + delta_decoded (delta_step c t) + dc_prev_delta c, d, b)"
proof -
  obtain bw' where bw': "DeltaCompressor_append c t bw =
      Some (True, c\<lparr>dc_prev_delta := delta_step c t, dc_prev_time := t\<rparr>, bw')"
    "bb_appended bw (delta_bytes (delta_step c t)) bw'"
    using DeltaCompressor_append_fits [OF ok first room] by blast
  from delta_read_result_bytes [OF bb_at_appended [OF ok bw'(2)]] bw'(1) show ?thesis
    by (auto simp: DeltaDeCompressor_read_def Let_def)
qed

text \<open>C23: a time that is appended after the first one, with nine bytes of room, is stored, and a
  decompressor in the state of the compressor, placed at the position the compressor had, reads
  the same time back, for every 64-bit time, unless the change of the step is even and lies
  between -524287 and -4096; then it reads the time plus one.\<close>

theorem delta_time_read_back:
  assumes "bb_ok bw" "\<not> dc_is_first c" "9 \<le> bb_free_size bw"
  shows "\<exists>c' bw' d b. DeltaCompressor_append c t bw = Some (True, c', bw') \<and>
    DeltaDeCompressor_read \<lparr>dd_prev_delta = dc_prev_delta c, dd_prev_time = dc_prev_time c\<rparr> (set_pos bw' (bb_pos bw)) =
      Some (if -524288 < sint (delta_step c t) \<and> sint (delta_step c t) \<le> -4096 \<and> even (delta_step c t)
            then t + 1 else t, d, b)"
proof -
  have "length (delta_bytes (delta_step c t)) \<le> bb_free_size bw"
    using length_delta_bytes [of "delta_step c t"] assms(3) by auto
  from delta_append_read [OF assms(1,2) this] show ?thesis
    by (auto simp: delta_decoded_cases delta_3b_range_def) (auto simp: delta_step_def)
qed

theorem delta_time_read_back_witness:
  "\<exists>c' bw' d b. DeltaCompressor_append \<lparr>dc_is_first = False, dc_first = 0, dc_prev_delta = 10000, dc_prev_time = 10000\<rparr> 11000
      (ByteBuffer_new (replicate 20 0)) = Some (True, c', bw') \<and>
    DeltaDeCompressor_read \<lparr>dd_prev_delta = 10000, dd_prev_time = 10000\<rparr> (set_pos bw' (bb_pos (ByteBuffer_new (replicate 20 0)))) =
      Some (11001, d, b)"
  using delta_time_read_back [of "ByteBuffer_new (replicate 20 0)"
      "\<lparr>dc_is_first = False, dc_first = 0, dc_prev_delta = 10000, dc_prev_time = 10000\<rparr>" 11000]
  by (simp add: ByteBuffer_new_def reset_pos_def bb_ok_def bb_free_size_def delta_step_def)

end
