(* ===== verification/Xor.thy ===== *)
theory Xor
  imports ByteBuffer
begin

text \<open>
  \<^verbatim>\<open>compression/xor.h\<close>, \<^verbatim>\<open>compression/xor.cpp\<close> and \<^verbatim>\<open>utils/cz.h\<close>: values are stored as the
  significant bytes of the exclusive or with the previous value.
\<close>

section \<open>Leading and trailing zeros\<close>

text \<open>\<^verbatim>\<open>__builtin_ctzll\<close> and \<^verbatim>\<open>__builtin_clzll\<close>; the sources call them on nonzero words only.\<close>

definition ctz :: "u64 \<Rightarrow> nat" where
  "ctz x = length (takeWhile (\<lambda>i. \<not> bit x i) [0..<64])"

definition clz :: "u64 \<Rightarrow> nat" where
  "clz x = length (takeWhile (\<lambda>i. \<not> bit x (63 - i)) [0..<64])"

section \<open>Compressor\<close>

definition u64_buffer_size :: nat where
  "u64_buffer_size = 8"

record XorCompressor =
  xc_is_first :: bool
  xc_first :: u64
  xc_prev_value :: u64

definition XorCompressor_new :: XorCompressor where
  "XorCompressor_new = \<lparr>xc_is_first = True, xc_first = 0, xc_prev_value = 0\<rparr>"

text \<open>The loop \<^verbatim>\<open>for (i = 0; i < count_of_bytes; ++i) bw->write(buff[i])\<close>; reading \<open>buff\<close> past its
  eight bytes is undefined.\<close>

fun xor_write_bytes :: "u8 list \<Rightarrow> nat list \<Rightarrow> ByteBuffer \<Rightarrow> ByteBuffer option" where
  "xor_write_bytes buff [] bw = Some bw"
| "xor_write_bytes buff (i # is) bw =
    (if i < u64_buffer_size then do { bw1 \<leftarrow> bb_write bw (buff ! i); xor_write_bytes buff is bw1 } else None)"

definition count_of_bytes :: "u64 \<Rightarrow> nat" where
  "count_of_bytes xor_val = (64 - clz xor_val - ctz xor_val) div 8 + 1"

definition XorCompressor_append ::
  "XorCompressor \<Rightarrow> Value \<Rightarrow> ByteBuffer \<Rightarrow> (bool \<times> XorCompressor \<times> ByteBuffer) option" where
  "XorCompressor_append c flat bw =
    (if xc_is_first c
     then Some (True, c\<lparr>xc_first := flat, xc_is_first := False, xc_prev_value := flat\<rparr>, bw)
     else
       let xor_val = xc_prev_value c XOR flat in
       if xor_val = 0 then
         if bb_free_size bw < 1 then Some (False, c, bw)
         else do { bw1 \<leftarrow> bb_write bw (0 :: u8); Some (True, c, bw1) }
       else
         let tail = ctz xor_val; cnt = count_of_bytes xor_val in
         if bb_free_size bw < cnt + 2 then Some (False, c, bw)
         else do {
           bw1 \<leftarrow> bb_write bw (of_nat cnt :: u8);
           bw2 \<leftarrow> bb_write bw1 (of_nat tail :: u8);
           bw3 \<leftarrow> xor_write_bytes (le_bytes 8 (drop_bit tail xor_val)) [0..<cnt] bw2;
           Some (True, c\<lparr>xc_prev_value := flat\<rparr>, bw3) })"

section \<open>Decompressor\<close>

record XorDeCompressor =
  xd_prev_value :: u64

definition XorDeCompressor_new :: "Value \<Rightarrow> XorDeCompressor" where
  "XorDeCompressor_new first = \<lparr>xd_prev_value = first\<rparr>"

fun xor_read_bytes :: "u8 list \<Rightarrow> nat list \<Rightarrow> ByteBuffer \<Rightarrow> (u8 list \<times> ByteBuffer) option" where
  "xor_read_bytes buff [] bw = Some (buff, bw)"
| "xor_read_bytes buff (i # is) bw =
    (if i < u64_buffer_size
     then do { (x :: u8, bw1) \<leftarrow> bb_read bw; xor_read_bytes (buff[i := x]) is bw1 } else None)"

text \<open>Shifting a 64-bit word by 64 or more is undefined as well.\<close>

definition XorDeCompressor_read ::
  "XorDeCompressor \<Rightarrow> ByteBuffer \<Rightarrow> (Value \<times> XorDeCompressor \<times> ByteBuffer) option" where
  "XorDeCompressor_read d bw = do {
     (flag_byte :: u8, bw1) \<leftarrow> bb_read bw;
     if flag_byte = 0 then Some (xd_prev_value d, d, bw1)
     else do {
       (move_count :: u8, bw2) \<leftarrow> bb_read bw1;
       (buff, bw3) \<leftarrow> xor_read_bytes (replicate u64_buffer_size 0) [0..<unat flag_byte] bw2;
       if unat move_count < 64 then
         let moved = push_bit (unat move_count) (le_word buff :: u64);
             ret = moved XOR xd_prev_value d
         in Some (ret, d\<lparr>xd_prev_value := ret\<rparr>, bw3)
       else None } }"

section \<open>Zeros at both ends\<close>

lemma takeWhile_upt:
  assumes "k = length (takeWhile P [0..<n])"
  shows "i < k \<Longrightarrow> P i" "k < n \<Longrightarrow> \<not> P k" "k \<le> n"
proof -
  show "k \<le> n" using assms length_takeWhile_le [of P "[0..<n]"] by simp
  then show "i < k \<Longrightarrow> P i"
    using assms takeWhile_nth [of i P "[0..<n]"] nth_mem [of i "takeWhile P [0..<n]"]
    by (auto dest: set_takeWhileD)
  show "k < n \<Longrightarrow> \<not> P k"
    using assms nth_length_takeWhile [of P "[0..<n]"] by simp
qed

lemma ctz_zeros: "i < ctz x \<Longrightarrow> \<not> bit x i"
  using takeWhile_upt(1) [OF ctz_def] .

lemma clz_zeros: "63 - clz x < i \<Longrightarrow> \<not> bit x i"
proof
  assume i: "63 - clz x < i" and b: "bit x i"
  then have "i < 64" using bit_imp_le_length [of x i] by simp
  then show False
    using i b takeWhile_upt(1) [OF clz_def, of "63 - i"] by simp
qed

lemma ctz_bit: "x \<noteq> 0 \<Longrightarrow> ctz x < 64 \<and> bit x (ctz x)"
proof -
  assume "x \<noteq> 0"
  then obtain i where "i < 64" "bit x i" by (auto simp: bit_eq_iff)
  then have "ctz x < 64" using ctz_zeros [of i x] by (meson not_less order.strict_trans1)
  then show ?thesis using takeWhile_upt(2) [OF ctz_def, of x] by simp
qed

lemma clz_bit: "x \<noteq> 0 \<Longrightarrow> clz x < 64 \<and> bit x (63 - clz x)"
proof -
  assume "x \<noteq> 0"
  then obtain i where "i < 64" "bit x i" by (auto simp: bit_eq_iff)
  then have "clz x < 64" using takeWhile_upt(1) [OF clz_def, of "63 - i" x] by force
  then show ?thesis using takeWhile_upt(2) [OF clz_def, of x] by simp
qed

lemma clz_ctz_le: "x \<noteq> 0 \<Longrightarrow> clz x + ctz x \<le> 63"
  using ctz_bit [of x] clz_bit [of x] clz_zeros [of x "ctz x"] by linarith

text \<open>The difference of two values fits the eight-byte buffer unless both its first and its last
  bit are set.\<close>

definition xor_fits :: "u64 \<Rightarrow> bool" where
  "xor_fits x \<longleftrightarrow> \<not> (bit x 0 \<and> bit x 63)"

lemma xor_fits_iff: "x \<noteq> 0 \<Longrightarrow> xor_fits x \<longleftrightarrow> count_of_bytes x \<le> 8"
proof -
  assume x: "x \<noteq> 0"
  have "ctz x = 0 \<longleftrightarrow> bit x 0"
    using ctz_bit [OF x] ctz_zeros [of 0 x] by auto
  moreover have "clz x = 0 \<longleftrightarrow> bit x 63"
    using clz_bit [OF x] clz_zeros [of x 63] by (cases "clz x = 0") auto
  ultimately have "xor_fits x \<longleftrightarrow> \<not> (ctz x = 0 \<and> clz x = 0)"
    by (auto simp: xor_fits_def)
  also have "\<dots> \<longleftrightarrow> count_of_bytes x \<le> 8"
    using clz_ctz_le [OF x] unfolding count_of_bytes_def by auto
  finally show ?thesis .
qed

lemma count_of_bytes_le: "count_of_bytes x \<le> 9"
  unfolding count_of_bytes_def by simp

lemma push_drop_ctz: "push_bit (ctz x) (drop_bit (ctz x) x) = x"
proof (rule bit_word_eqI)
  fix i assume "i < LENGTH(64)"
  then show "bit (push_bit (ctz x) (drop_bit (ctz x) x)) i = bit x i"
    using ctz_zeros [of i x] by (cases "i < ctz x") (auto simp: bit_simps not_less)
qed

lemma take_count_drop_ctz:
  assumes "x \<noteq> 0"
  shows "take_bit (8 * count_of_bytes x) (drop_bit (ctz x) x) = drop_bit (ctz x) x"
proof (rule bit_word_eqI)
  fix i assume "i < LENGTH(64)"
  have "64 - clz x - ctz x < 8 * count_of_bytes x"
    unfolding count_of_bytes_def by simp
  then have "8 * count_of_bytes x \<le> i \<Longrightarrow> 63 - clz x < ctz x + i"
    using clz_ctz_le [OF assms] by linarith
  then show "bit (take_bit (8 * count_of_bytes x) (drop_bit (ctz x) x)) i = bit (drop_bit (ctz x) x) i"
    using clz_zeros [of x "ctz x + i"]
    by (cases "i < 8 * count_of_bytes x") (auto simp: bit_simps not_less add.commute)
qed

section \<open>The bytes of a difference\<close>

definition xor_bytes :: "u64 \<Rightarrow> u8 list" where
  "xor_bytes x = (if x = 0 then [0]
     else of_nat (count_of_bytes x) # of_nat (ctz x) # le_bytes (count_of_bytes x) (drop_bit (ctz x) x))"

lemma length_xor_bytes: "length (xor_bytes x) = (if x = 0 then 1 else count_of_bytes x + 2)"
  by (simp add: xor_bytes_def)

lemma take_le_bytes: "m \<le> n \<Longrightarrow> take m (le_bytes n w) = le_bytes m w"
  by (simp add: le_bytes_def take_map)

lemma xor_write_bytes_appends:
  assumes "bb_ok bw" "length buff = 8" "n \<le> 8" "m \<le> n" "n - m \<le> bb_free_size bw"
  shows "\<exists>bw'. xor_write_bytes buff [m..<n] bw = Some bw' \<and> bb_appended bw (drop m (take n buff)) bw'"
  using assms
proof (induction "n - m" arbitrary: m bw)
  case 0
  then show ?case by simp
next
  case (Suc k)
  then have m: "m < n" "1 \<le> bb_free_size bw" "k = n - Suc m" by linarith+
  obtain b1 where b1: "bb_write bw (buff ! m) = Some b1" "bb_appended bw [buff ! m] b1"
    using bb_write_u8 [of bw "buff ! m"] Suc.prems m by auto
  then obtain b2 where "xor_write_bytes buff [Suc m..<n] b1 = Some b2"
    "bb_appended b1 (drop (Suc m) (take n buff)) b2"
    using Suc.hyps(1) [of "Suc m" b1] Suc.hyps(2) Suc.prems m
      bb_appended_okD [OF b1(2)] bb_appended_free [OF b1(2)] by auto
  moreover have "drop m (take n buff) = [buff ! m] @ drop (Suc m) (take n buff)"
    using m Suc.prems by (simp flip: Cons_nth_drop_Suc)
  ultimately show ?case
    using b1 m Suc.prems bb_appended_trans [OF b1(2)]
    by (auto simp: upt_conv_Cons u64_buffer_size_def)
qed

lemma xor_read_bytes_stream:
  assumes "bb_at bw d (drop m xs @ s)" "length xs = n" "n \<le> 8" "m \<le> n"
  shows "\<exists>bw'. xor_read_bytes (take m xs @ replicate (8 - m) 0) [m..<n] bw =
      Some (xs @ replicate (8 - n) 0, bw') \<and> bb_at bw' d s"
  using assms
proof (induction "n - m" arbitrary: m bw)
  case 0
  then show ?case by simp
next
  case (Suc k)
  then have m: "m < n" by simp
  then have "bb_at bw d (xs ! m # drop (Suc m) xs @ s)"
    using Suc.prems by (metis Cons_nth_drop_Suc append_Cons)
  note rd = bb_read_u8 [OF this]
  have "replicate (8 - m) 0 = (0 :: u8) # replicate (8 - Suc m) 0"
    using m Suc.prems by (metis Suc_diff_Suc order_less_le_trans replicate_Suc)
  then have "(take m xs @ replicate (8 - m) 0)[m := xs ! m] = take (Suc m) xs @ replicate (8 - Suc m) 0"
    using m Suc.prems by (simp add: list_update_append take_Suc_conv_app_nth)
  then show ?case
    using Suc.hyps(1) [of "Suc m" "move_pos bw (Suc 0)"] Suc.hyps(2) Suc.prems m rd
    by (auto simp: upt_conv_Cons u64_buffer_size_def)
qed

lemma le_word_padded: "n \<le> 8 \<Longrightarrow> le_word (le_bytes n (w :: u64) @ replicate (8 - n) 0) = take_bit (8 * n) w"
proof (rule bit_word_eqI)
  fix i assume n: "n \<le> 8" and i: "i < LENGTH(64)"
  have "i div 8 < n \<longleftrightarrow> i < 8 * n" by (simp add: div_less_iff_less_mult mult.commute)
  moreover have "i div 8 < 8" using i by simp
  moreover have "8 * (i div 8) + i mod 8 = i" by simp
  ultimately show "bit (le_word (le_bytes n w @ replicate (8 - n) 0) :: u64) i = bit (take_bit (8 * n) w) i"
    using n i by (auto simp: bit_le_word bit_simps nth_append)
qed

lemma XorCompressor_append_fits:
  assumes "bb_ok bw" "\<not> xc_is_first c" "xor_fits (xc_prev_value c XOR v)"
    "length (xor_bytes (xc_prev_value c XOR v)) \<le> bb_free_size bw"
  shows "\<exists>bw'. XorCompressor_append c v bw = Some (True, c\<lparr>xc_prev_value := v\<rparr>, bw') \<and>
    bb_appended bw (xor_bytes (xc_prev_value c XOR v)) bw'"
proof (cases "xc_prev_value c XOR v = 0")
  case True
  then have "c\<lparr>xc_prev_value := v\<rparr> = c" by (auto simp: word_xor_eq_0)
  with True assms show ?thesis
    using bb_write_u8 [of bw 0] by (auto simp: XorCompressor_append_def xor_bytes_def)
next
  case False
  define x where "x = xc_prev_value c XOR v"
  have x: "x \<noteq> 0" "count_of_bytes x \<le> 8" "count_of_bytes x + 2 \<le> bb_free_size bw"
    using False assms(3,4) xor_fits_iff [of x] by (simp_all add: x_def length_xor_bytes)
  obtain b1 where b1: "bb_write bw (of_nat (count_of_bytes x) :: u8) = Some b1"
    "bb_appended bw [of_nat (count_of_bytes x)] b1"
    using bb_write_u8 [OF assms(1)] x(3) by (metis add_leD2 one_le_numeral order.trans)
  obtain b2 where b2: "bb_write b1 (of_nat (ctz x) :: u8) = Some b2" "bb_appended b1 [of_nat (ctz x)] b2"
    using bb_write_u8 [OF bb_appended_okD [OF b1(2)], of "of_nat (ctz x)"] bb_appended_free [OF b1(2)] x(3) by auto
  obtain b3 where b3: "xor_write_bytes (le_bytes 8 (drop_bit (ctz x) x)) [0..<count_of_bytes x] b2 = Some b3"
    "bb_appended b2 (le_bytes (count_of_bytes x) (drop_bit (ctz x) x)) b3"
    using xor_write_bytes_appends [OF bb_appended_okD [OF b2(2)], of "le_bytes 8 (drop_bit (ctz x) x)" "count_of_bytes x" 0]
      bb_appended_free [OF b1(2)] bb_appended_free [OF b2(2)] x(2,3) by (auto simp: take_le_bytes)
  have "bb_appended bw (xor_bytes x) b3"
    using bb_appended_trans [OF b1(2) bb_appended_trans [OF b2(2) b3(2)]] x(1) by (simp add: xor_bytes_def)
  then show ?thesis
    using x b1(1) b2(1) b3(1) assms(2) by (simp add: XorCompressor_append_def x_def [symmetric] Let_def)
qed

lemma XorCompressor_append_full:
  assumes "\<not> xc_is_first c" "bb_free_size bw < length (xor_bytes (xc_prev_value c XOR v))"
  shows "XorCompressor_append c v bw = Some (False, c, bw)"
  using assms by (auto simp: XorCompressor_append_def length_xor_bytes Let_def split: if_splits)

lemma XorCompressor_append_first:
  "xc_is_first c \<Longrightarrow> XorCompressor_append c v bw =
    Some (True, \<lparr>xc_is_first = False, xc_first = v, xc_prev_value = v\<rparr>, bw)"
  by (simp add: XorCompressor_append_def)

lemma XorDeCompressor_read_bytes:
  assumes "bb_at b d (xor_bytes x @ s)" "xor_fits x"
  shows "\<exists>b'. XorDeCompressor_read c b =
      Some (x XOR xd_prev_value c, c\<lparr>xd_prev_value := x XOR xd_prev_value c\<rparr>, b') \<and> bb_at b' d s"
proof (cases "x = 0")
  case True
  then show ?thesis
    using assms bb_read_u8 [of b d 0 s] by (simp add: XorDeCompressor_read_def xor_bytes_def)
next
  case False
  then have cnt: "count_of_bytes x \<le> 8" "0 < count_of_bytes x" and tail: "ctz x < 64"
    using assms(2) xor_fits_iff [of x] ctz_bit [of x] by (simp_all add: count_of_bytes_def)
  then have u: "unat (of_nat (count_of_bytes x) :: u8) = count_of_bytes x" "unat (of_nat (ctz x) :: u8) = ctz x"
    by (simp_all add: unat_of_nat take_bit_eq_mod)
  define mv where "mv = le_bytes (count_of_bytes x) (drop_bit (ctz x) x)"
  have at: "bb_at b d (of_nat (count_of_bytes x) # of_nat (ctz x) # mv @ s)"
    using assms(1) False by (simp add: xor_bytes_def mv_def)
  obtain b3 where b3: "xor_read_bytes (replicate 8 0) [0..<count_of_bytes x] (move_pos (move_pos b 1) 1) =
      Some (mv @ replicate (8 - count_of_bytes x) 0, b3)" "bb_at b3 d s"
    using xor_read_bytes_stream [of "move_pos (move_pos b 1) 1" d 0 mv s "count_of_bytes x"] cnt(1)
      bb_read_u8 [OF at] bb_read_u8 [of "move_pos b 1" d "of_nat (ctz x)" "mv @ s"] by (auto simp: mv_def)
  have "push_bit (ctz x) (le_word (mv @ replicate (8 - count_of_bytes x) 0)) = x"
    using cnt(1) by (simp add: mv_def le_word_padded take_count_drop_ctz [OF False] push_drop_ctz)
  moreover have "(of_nat (count_of_bytes x) :: u8) \<noteq> 0"
    using u(1) cnt(2) by (metis unat_0 less_irrefl)
  ultimately show ?thesis
    using bb_read_u8 [OF at] bb_read_u8 [of "move_pos b 1" d "of_nat (ctz x)" "mv @ s"] b3 u tail
    by (simp add: XorDeCompressor_read_def u64_buffer_size_def Let_def)
qed

lemma xor_write_bytes_outside: "i \<in> set is \<Longrightarrow> 8 \<le> i \<Longrightarrow> xor_write_bytes buff is bw = None"
  by (induction "is" arbitrary: bw) (auto simp: u64_buffer_size_def split: option.split bind_split)

lemma xor_write_bytes_9: "xor_write_bytes buff [0..<9] bw = None"
  by (rule xor_write_bytes_outside [of 8]) simp_all

section \<open>Properties\<close>

text \<open>C24: a value that is appended after the first one, with eleven bytes of room, is stored and read
  back bit for bit, for every pair of 64-bit patterns that do not differ in both their first and
  their last bit; if they do, the compressor reads past its eight-byte buffer and the append has
  no defined result.\<close>

theorem xor_value_read_back:
  assumes "bb_ok bw" "\<not> xc_is_first c" "11 \<le> bb_free_size bw"
  shows "if bit (xc_prev_value c XOR v) 0 \<and> bit (xc_prev_value c XOR v) 63
    then XorCompressor_append c v bw = None
    else \<exists>c' bw' d b. XorCompressor_append c v bw = Some (True, c', bw') \<and> xc_prev_value c' = v \<and>
      XorDeCompressor_read \<lparr>xd_prev_value = xc_prev_value c\<rparr> (set_pos bw' (bb_pos bw)) = Some (v, d, b)"
proof (cases "xor_fits (xc_prev_value c XOR v)")
  case True
  have "length (xor_bytes (xc_prev_value c XOR v)) \<le> bb_free_size bw"
    using assms(3) count_of_bytes_le [of "xc_prev_value c XOR v"] by (simp add: length_xor_bytes)
  then obtain bw' where bw': "XorCompressor_append c v bw = Some (True, c\<lparr>xc_prev_value := v\<rparr>, bw')"
    "bb_appended bw (xor_bytes (xc_prev_value c XOR v)) bw'"
    using XorCompressor_append_fits [OF assms(1,2) True] by blast
  have "(xc_prev_value c XOR v) XOR xc_prev_value c = v"
    by (rule bit_word_eqI) (auto simp: bit_simps)
  then show ?thesis
    using XorDeCompressor_read_bytes [OF bb_at_appended [OF assms(1) bw'(2)] True, of "\<lparr>xd_prev_value = xc_prev_value c\<rparr>"]
      bw'(1) True by (auto simp: xor_fits_def)
next
  case False
  define x where "x = xc_prev_value c XOR v"
  have x: "x \<noteq> 0" "bit x 0" "bit x 63" using False by (auto simp: x_def xor_fits_def)
  then have "count_of_bytes x = 9" using xor_fits_iff [OF x(1)] count_of_bytes_le [of x] False by (simp add: x_def)
  then have "XorCompressor_append c v bw = None"
    using assms x by (simp add: XorCompressor_append_def x_def [symmetric] Let_def xor_write_bytes_9 bind_eq_None_conv)
  then show ?thesis using x by (simp add: x_def)
qed

theorem xor_value_read_back_witness:
  "XorCompressor_append \<lparr>xc_is_first = False, xc_first = 0, xc_prev_value = 0\<rparr> 0x8000000000000001
      (ByteBuffer_new (replicate 20 0)) = None \<and>
   (\<exists>c' bw' d b. XorCompressor_append \<lparr>xc_is_first = False, xc_first = 0, xc_prev_value = 0\<rparr> 0x4008000000000000
      (ByteBuffer_new (replicate 20 0)) = Some (True, c', bw') \<and> xc_prev_value c' = 0x4008000000000000 \<and>
      XorDeCompressor_read \<lparr>xd_prev_value = 0\<rparr> (set_pos bw' (bb_pos (ByteBuffer_new (replicate 20 0)))) =
        Some (0x4008000000000000, d, b))"
  using xor_value_read_back [of "ByteBuffer_new (replicate 20 0)"
      "\<lparr>xc_is_first = False, xc_first = 0, xc_prev_value = 0\<rparr>" "0x8000000000000001"]
    xor_value_read_back [of "ByteBuffer_new (replicate 20 0)"
      "\<lparr>xc_is_first = False, xc_first = 0, xc_prev_value = 0\<rparr>" "0x4008000000000000"]
  by (simp add: ByteBuffer_new_def reset_pos_def bb_ok_def bb_free_size_def)

end
