(* ===== verification/FlagCodec.thy ===== *)
theory FlagCodec
  imports ByteBuffer
begin

text \<open>
  \<^verbatim>\<open>compression/flag.h\<close> and \<^verbatim>\<open>compression/flag.cpp\<close>: flags are stored in the variable-length
  format LEB128, seven bits per byte, low bits first.
\<close>

section \<open>Compressor\<close>

record FlagCompressor =
  fl_first :: Flag
  fl_is_first :: bool

definition FlagCompressor_new :: FlagCompressor where
  "FlagCompressor_new = \<lparr>fl_first = 0, fl_is_first = True\<rparr>"

text \<open>The loop \<^verbatim>\<open>do ... while (x)\<close>.  The room is checked before every byte, so a failing append
  may leave the first bytes of the flag in the buffer.\<close>

function (sequential) leb128_write :: "u32 \<Rightarrow> ByteBuffer \<Rightarrow> (bool \<times> ByteBuffer) option" where
  "leb128_write x bw =
    (if bb_free_size bw < 1 then Some (False, bw)
     else
       let x' = drop_bit 7 x;
           sub_res = (if x' \<noteq> 0 then (x AND 0x7F) OR 0x80 else x AND 0x7F)
       in do {
         bw1 \<leftarrow> bb_write bw (ucast sub_res :: u8);
         if x' \<noteq> 0 then leb128_write x' bw1 else Some (True, bw1) })"
  by pat_completeness auto

lemma unat_drop_bit_less: "drop_bit 7 (x :: u32) \<noteq> 0 \<Longrightarrow> unat (drop_bit 7 x) < unat x"
proof -
  assume "drop_bit 7 x \<noteq> 0"
  then have "0 < unat (drop_bit 7 x)" by (simp add: unat_gt_0)
  moreover have "unat (drop_bit 7 x) = unat x div 2 ^ 7"
    using unat_drop_bit_eq [of 7 x] unfolding drop_bit_eq_div [where 'a = nat] .
  ultimately show ?thesis by simp
qed

termination leb128_write
  by (relation "measure (\<lambda>(x, _). unat x)") (auto simp: unat_drop_bit_less)

declare leb128_write.simps [simp del]

definition FlagCompressor_append ::
  "FlagCompressor \<Rightarrow> Flag \<Rightarrow> ByteBuffer \<Rightarrow> (bool \<times> FlagCompressor \<times> ByteBuffer) option" where
  "FlagCompressor_append c v bw =
    (if fl_is_first c then Some (True, c\<lparr>fl_first := v, fl_is_first := False\<rparr>, bw)
     else do { (ok, bw1) \<leftarrow> leb128_write v bw; Some (ok, c, bw1) })"

section \<open>Decompressor\<close>

text \<open>The loop of \<^verbatim>\<open>read\<close> with its locals \<^verbatim>\<open>bytes\<close> and \<^verbatim>\<open>result\<close>.  The shift is done in 64 bits; a
  shift by 64 or more is undefined.\<close>

function (sequential) leb128_read :: "nat \<Rightarrow> u32 \<Rightarrow> ByteBuffer \<Rightarrow> (u32 \<times> ByteBuffer) option" where
  "leb128_read bytes res bw =
    (if 64 \<le> 7 * bytes then None
     else do {
       (readed :: u8, bw1) \<leftarrow> bb_read bw;
       let res' = ucast (ucast res OR push_bit (7 * bytes) (ucast readed AND 0x7F :: u64)) in
       if (readed AND 0x80) = 0 then Some (res', bw1) else leb128_read (Suc bytes) res' bw1 })"
  by pat_completeness auto

termination leb128_read
  by (relation "measure (\<lambda>(bytes, _, _). 10 - bytes)") auto

declare leb128_read.simps [simp del]

definition FlagDeCompressor_read :: "ByteBuffer \<Rightarrow> (Flag \<times> ByteBuffer) option" where
  "FlagDeCompressor_read bw = leb128_read 0 0 bw"

section \<open>The bytes of a flag\<close>

function (sequential) leb128_bytes :: "u32 \<Rightarrow> u8 list" where
  "leb128_bytes x =
    (if drop_bit 7 x \<noteq> 0 then ucast ((x AND 0x7F) OR 0x80) # leb128_bytes (drop_bit 7 x)
     else [ucast (x AND 0x7F)])"
  by pat_completeness auto

termination leb128_bytes
  by (relation "measure unat") (auto simp: unat_drop_bit_less)

declare leb128_bytes.simps [simp del]

lemma leb128_write_appends:
  assumes "bb_ok bw"
  shows "\<exists>bw'. leb128_write x bw = Some (length (leb128_bytes x) \<le> bb_free_size bw, bw') \<and>
    bb_appended bw (take (bb_free_size bw) (leb128_bytes x)) bw'"
  using assms
proof (induction x arbitrary: bw rule: leb128_bytes.induct)
  case (1 x)
  show ?case
  proof (cases "bb_free_size bw < 1")
    case True
    then show ?thesis
      using "1.prems" leb128_bytes.simps [of x] by (auto simp: leb128_write.simps)
  next
    case False
    define y :: u8 where "y = hd (leb128_bytes x)"
    obtain n where n: "bb_free_size bw = Suc n" using False by (cases "bb_free_size bw") auto
    obtain b1 where b1: "bb_write bw y = Some b1" "bb_appended bw [y] b1"
      using bb_write_u8 [OF "1.prems", of y] n by auto
    then have f1: "bb_free_size b1 = n" "bb_ok b1"
      using bb_appended_free bb_appended_okD n by fastforce+
    show ?thesis
    proof (cases "drop_bit 7 x = 0")
      case True
      then show ?thesis
        using b1 n by (simp add: leb128_write.simps [of x] leb128_bytes.simps [of x] y_def)
    next
      case go: False
      obtain b2 where b2: "leb128_write (drop_bit 7 x) b1 = Some (length (leb128_bytes (drop_bit 7 x)) \<le> n, b2)"
        "bb_appended b1 (take n (leb128_bytes (drop_bit 7 x))) b2"
        using "1.IH" [OF go f1(2)] f1(1) by auto
      show ?thesis
        using b1 b2 n go bb_appended_trans [OF b1(2) b2(2)]
        by (simp add: leb128_write.simps [of x] leb128_bytes.simps [of x] y_def)
    qed
  qed
qed

lemma bit_0x80: "bit (128 :: int) i \<longleftrightarrow> i = 7"
proof -
  have "(128 :: int) = push_bit 7 1" by simp
  then show ?thesis by (simp only: bit_push_bit_iff bit_1_iff) auto
qed

lemma bit_0x7F: "bit (127 :: int) i \<longleftrightarrow> i < 7"
proof -
  have "(127 :: int) = mask 7" by (simp add: mask_eq_exp_minus_1)
  then show ?thesis by (simp only: bit_mask_iff) simp
qed

lemma leb128_last: "(ucast (x AND 0x7F :: u32) AND 0x80 :: u8) = 0"
  by (rule bit_word_eqI) (auto simp: bit_simps bit_0x80 bit_0x7F)

lemma leb128_more: "(ucast ((x AND 0x7F) OR 0x80 :: u32) AND 0x80 :: u8) \<noteq> 0"
proof
  assume "(ucast ((x AND 0x7F) OR 0x80 :: u32) AND 0x80 :: u8) = 0"
  then have "\<not> bit (ucast ((x AND 0x7F) OR 0x80 :: u32) AND 0x80 :: u8) 7" by simp
  then show False by (simp add: bit_simps bit_0x80)
qed

lemma leb128_digit:
  fixes res x :: u32
  assumes "7 * k < 64"
  shows "ucast (ucast res OR push_bit (7 * k) (ucast (ucast ((x AND 0x7F) OR 0x80) :: u8) AND 0x7F :: u64)) =
      res OR push_bit (7 * k) (take_bit 7 x)"
    and "ucast (ucast res OR push_bit (7 * k) (ucast (ucast (x AND 0x7F) :: u8) AND 0x7F :: u64)) =
      res OR push_bit (7 * k) (take_bit 7 x)"
  using assms by (auto simp: bit_simps bit_0x80 bit_0x7F intro!: bit_word_eqI)

lemma leb128_rest:
  "(res :: u32) OR push_bit (7 * k) (take_bit 7 x) OR push_bit (7 * Suc k) (drop_bit 7 x) = res OR push_bit (7 * k) x"
proof (rule bit_word_eqI)
  fix i assume "i < LENGTH(32)"
  then show "bit (res OR push_bit (7 * k) (take_bit 7 x) OR push_bit (7 * Suc k) (drop_bit 7 x)) i =
    bit (res OR push_bit (7 * k) x) i"
    by (cases "i < 7 * Suc k") (auto simp: bit_simps not_less)
qed

lemma leb128_read_bytes:
  assumes "bb_at b d (leb128_bytes x @ s)" "k \<le> 4" "drop_bit (32 - 7 * k) x = 0"
  shows "\<exists>b'. leb128_read k res b = Some (res OR push_bit (7 * k) x, b') \<and> bb_at b' d s"
  using assms
proof (induction x arbitrary: b k res rule: leb128_bytes.induct)
  case (1 x)
  show ?case
  proof (cases "drop_bit 7 x = 0")
    case True
    then have "take_bit 7 x = x" by (metis bits_ident push_bit_of_0 add_0)
    moreover have "bb_at b d (ucast (x AND 0x7F) # s)"
      using "1.prems"(1) True leb128_bytes.simps [of x] by simp
    ultimately show ?thesis
      using bb_read_u8 leb128_last [of x] leb128_digit(2) [of k res x] "1.prems"(2)
      by (simp add: leb128_read.simps [of k] Let_def)
  next
    case False
    have k: "k \<le> 3"
    proof (rule ccontr)
      assume "\<not> k \<le> 3"
      then have "drop_bit 4 x = 0" using "1.prems"(2,3) by (simp add: not_le le_Suc_eq numeral_eq_Suc)
      then have "drop_bit 3 (drop_bit 4 x) = 0" by simp
      then show False using False by simp
    qed
    then have "drop_bit (32 - 7 * Suc k) (drop_bit 7 x) = 0"
      using "1.prems"(3) by simp
    moreover have at: "bb_at b d (ucast ((x AND 0x7F) OR 0x80) # leb128_bytes (drop_bit 7 x) @ s)"
      using "1.prems"(1) False leb128_bytes.simps [of x] by simp
    ultimately obtain b' where "leb128_read (Suc k) (res OR push_bit (7 * k) (take_bit 7 x)) (move_pos b (Suc 0)) =
        Some (res OR push_bit (7 * k) x, b')" "bb_at b' d s"
      using "1.IH" [OF False, of "move_pos b (Suc 0)" "Suc k" "res OR push_bit (7 * k) (take_bit 7 x)"]
        bb_read_u8 [OF at] k leb128_rest [of res k x] by (auto simp: or.assoc)
    then show ?thesis
      using bb_read_u8 [OF at] leb128_more [of x] leb128_digit(1) [of k res x] k
      by (simp add: leb128_read.simps [of k] Let_def)
  qed
qed

lemma FlagDeCompressor_read_bytes:
  "bb_at b d (leb128_bytes x @ s) \<Longrightarrow> \<exists>b'. FlagDeCompressor_read b = Some (x, b') \<and> bb_at b' d s"
  using leb128_read_bytes [of b d x s 0 0] by (simp add: FlagDeCompressor_read_def)

section \<open>Properties\<close>

lemma length_leb128: "drop_bit (7 * n) x = 0 \<Longrightarrow> 0 < n \<Longrightarrow> length (leb128_bytes x) \<le> n"
proof (induction x arbitrary: n rule: leb128_bytes.induct)
  case (1 x)
  obtain k where k: "n = Suc k" using "1.prems"(2) by (cases n) auto
  show ?case
  proof (cases "drop_bit 7 x = 0")
    case False
    then have "k \<noteq> 0" using "1.prems"(1) k by (cases k) auto
    moreover have "drop_bit (7 * k) (drop_bit 7 x) = 0" using "1.prems"(1) k by (simp add: add.commute)
    ultimately show ?thesis using "1.IH" [OF False, of k] False k by (simp add: leb128_bytes.simps [of x])
  qed (use k in \<open>simp add: leb128_bytes.simps [of x]\<close>)
qed

text \<open>C25: with five bytes of room every 32-bit flag that is appended after the first one is stored
  and read back unchanged.\<close>

theorem flag_read_back:
  assumes "bb_ok bw" "\<not> fl_is_first c" "5 \<le> bb_free_size bw"
  shows "\<exists>bw' b. FlagCompressor_append c v bw = Some (True, c, bw') \<and>
    FlagDeCompressor_read (set_pos bw' (bb_pos bw)) = Some (v, b)"
proof -
  have "length (leb128_bytes v) \<le> bb_free_size bw"
    using length_leb128 [of 5 v] assms(3) by simp
  then obtain bw' where bw': "leb128_write v bw = Some (True, bw')" "bb_appended bw (leb128_bytes v) bw'"
    using leb128_write_appends [OF assms(1), of v] by auto
  from FlagDeCompressor_read_bytes [OF bb_at_appended [OF assms(1) bw'(2)]] bw'(1) assms(2) show ?thesis
    by (auto simp: FlagCompressor_append_def)
qed

theorem flag_read_back_witness:
  "\<exists>bw' b. FlagCompressor_append \<lparr>fl_first = 0, fl_is_first = False\<rparr> 0xFFFFFFFF (ByteBuffer_new (replicate 8 0)) =
      Some (True, \<lparr>fl_first = 0, fl_is_first = False\<rparr>, bw') \<and>
    FlagDeCompressor_read (set_pos bw' (bb_pos (ByteBuffer_new (replicate 8 0)))) = Some (0xFFFFFFFF, b)"
  using flag_read_back [of "ByteBuffer_new (replicate 8 0)" "\<lparr>fl_first = 0, fl_is_first = False\<rparr>" "0xFFFFFFFF"]
  by (simp add: ByteBuffer_new_def reset_pos_def bb_ok_def bb_free_size_def)

end
