(* ===== verification/Compression.thy ===== *)
theory Compression
  imports Delta Xor FlagCodec
begin

text \<open>
  \<^verbatim>\<open>compression/compression.h\<close>, \<^verbatim>\<open>compression/compression.cpp\<close>: the writer and the reader that
  put the time, the value and the flag of a measurement one after the other into the shared
  buffer.  The buffer the C++ objects share through \<^verbatim>\<open>ByteBuffer_Ptr\<close> is threaded
  explicitly.
\<close>

section \<open>Writer\<close>

record CopmressedWriter =
  w_first :: Meas
  w_is_first :: bool
  w_is_full :: bool
  w_time :: DeltaCompressor
  w_value :: XorCompressor
  w_flag :: FlagCompressor

definition CopmressedWriter_new :: CopmressedWriter where
  "CopmressedWriter_new = \<lparr>w_first = Meas_empty, w_is_first = True, w_is_full = False,
     w_time = DeltaCompressor_new, w_value = XorCompressor_new, w_flag = FlagCompressor_new\<rparr>"

text \<open>All three compressors run, whatever the first ones returned.\<close>

definition CopmressedWriter_append ::
  "CopmressedWriter \<Rightarrow> Meas \<Rightarrow> ByteBuffer \<Rightarrow> (bool \<times> CopmressedWriter \<times> ByteBuffer) option" where
  "CopmressedWriter_append w m bw = (
     let w0 = (if w_is_first w then w\<lparr>w_first := m, w_is_first := False\<rparr> else w) in do {
     (t_f, tc, bw1) \<leftarrow> DeltaCompressor_append (w_time w0) (m_time m) bw;
     (f_f, vc, bw2) \<leftarrow> XorCompressor_append (w_value w0) (m_value m) bw1;
     (v_f, fc, bw3) \<leftarrow> FlagCompressor_append (w_flag w0) (m_flag m) bw2;
     let w1 = w0\<lparr>w_time := tc, w_value := vc, w_flag := fc\<rparr> in
     if \<not> t_f \<or> \<not> f_f \<or> \<not> v_f then Some (False, w1\<lparr>w_is_full := True\<rparr>, bw3)
     else Some (True, w1, bw3) })"

section \<open>Reader\<close>

record CopmressedReader =
  r_first :: Meas
  r_time :: DeltaDeCompressor
  r_value :: XorDeCompressor

definition CopmressedReader_new :: "Meas \<Rightarrow> CopmressedReader" where
  "CopmressedReader_new first = \<lparr>r_first = first,
     r_time = DeltaDeCompressor_new (m_time first), r_value = XorDeCompressor_new (m_value first)\<rparr>"

definition CopmressedReader_read ::
  "CopmressedReader \<Rightarrow> ByteBuffer \<Rightarrow> (Meas \<times> CopmressedReader \<times> ByteBuffer) option" where
  "CopmressedReader_read r bw = do {
     (t, td, bw1) \<leftarrow> DeltaDeCompressor_read (r_time r) bw;
     (v, vd, bw2) \<leftarrow> XorDeCompressor_read (r_value r) bw1;
     (f, bw3) \<leftarrow> FlagDeCompressor_read bw2;
     Some (\<lparr>m_id = m_id (r_first r), m_time = t, m_value = v, m_flag = f\<rparr>,
       r\<lparr>r_time := td, r_value := vd\<rparr>, bw3) }"

text \<open>Repeated calls, in the order of the calls.\<close>

fun append_all :: "('w \<Rightarrow> 'm \<Rightarrow> 'b \<Rightarrow> (bool \<times> 'w \<times> 'b) option) \<Rightarrow> 'w \<Rightarrow> 'm list \<Rightarrow> 'b \<Rightarrow> (bool \<times> 'w \<times> 'b) option" where
  "append_all app w [] bw = Some (True, w, bw)"
| "append_all app w (m # ms) bw = do {
     (ok, w1, bw1) \<leftarrow> app w m bw;
     if ok then append_all app w1 ms bw1 else Some (False, w1, bw1) }"

fun read_all :: "('r \<Rightarrow> 'b \<Rightarrow> ('m \<times> 'r \<times> 'b) option) \<Rightarrow> nat \<Rightarrow> 'r \<Rightarrow> 'b \<Rightarrow> ('m list \<times> 'r \<times> 'b) option" where
  "read_all rd 0 r bw = Some ([], r, bw)"
| "read_all rd (Suc n) r bw = do {
     (m, r1, bw1) \<leftarrow> rd r bw;
     (ms, r2, bw2) \<leftarrow> read_all rd n r1 bw1;
     Some (m # ms, r2, bw2) }"

section \<open>The interface of a codec\<close>

text \<open>A codec turns a value into bytes that depend on a state, and its reader, in the same state,
  gets the value back from a buffer that continues with these bytes.  \<open>valid\<close> are the values a
  reader gets back unchanged.\<close>

fun enc_list :: "('s \<Rightarrow> 'a \<Rightarrow> u8 list) \<Rightarrow> ('s \<Rightarrow> 'a \<Rightarrow> 's) \<Rightarrow> 's \<Rightarrow> 'a list \<Rightarrow> u8 list" where
  "enc_list enc step s [] = []"
| "enc_list enc step s (x # xs) = enc s x @ enc_list enc step (step s x) xs"

fun valid_list :: "('s \<Rightarrow> 'a \<Rightarrow> bool) \<Rightarrow> ('s \<Rightarrow> 'a \<Rightarrow> 's) \<Rightarrow> 's \<Rightarrow> 'a list \<Rightarrow> bool" where
  "valid_list valid step s [] \<longleftrightarrow> True"
| "valid_list valid step s (x # xs) \<longleftrightarrow> valid s x \<and> valid_list valid step (step s x) xs"

lemma enc_list_append:
  "enc_list enc step s (xs @ ys) = enc_list enc step s xs @ enc_list enc step (fold (\<lambda>x s. step s x) xs s) ys"
  by (induction xs arbitrary: s) simp_all

lemma valid_list_append:
  "valid_list valid step s (xs @ ys) \<longleftrightarrow>
     valid_list valid step s xs \<and> valid_list valid step (fold (\<lambda>x s. step s x) xs s) ys"
  by (induction xs arbitrary: s) auto

locale codec =
  fixes enc :: "'s \<Rightarrow> 'a \<Rightarrow> u8 list"
    and step :: "'s \<Rightarrow> 'a \<Rightarrow> 's"
    and valid :: "'s \<Rightarrow> 'a \<Rightarrow> bool"
    and dec :: "'s \<Rightarrow> ByteBuffer \<Rightarrow> ('a \<times> 's \<times> ByteBuffer) option"
  assumes dec_enc: "valid s x \<Longrightarrow> bb_at b d (enc s x @ rest) \<Longrightarrow>
      \<exists>b'. dec s b = Some (x, step s x, b') \<and> bb_at b' d rest"
begin

lemma read_all_enc_list:
  assumes "valid_list valid step s xs" "bb_at b d (enc_list enc step s xs @ rest)"
  shows "\<exists>b'. read_all dec (length xs) s b = Some (xs, fold (\<lambda>x s. step s x) xs s, b') \<and> bb_at b' d rest"
  using assms
proof (induction xs arbitrary: s b)
  case (Cons x xs)
  then have "bb_at b d (enc s x @ enc_list enc step (step s x) xs @ rest)" "valid s x" by simp_all
  then obtain b1 where b1: "dec s b = Some (x, step s x, b1)"
    "bb_at b1 d (enc_list enc step (step s x) xs @ rest)"
    using dec_enc by blast
  then show ?case
    using Cons.IH [of "step s x" b1] Cons.prems(1) by auto
qed simp

end

section \<open>The three codecs and their product\<close>

definition time_enc :: "DeltaDeCompressor \<Rightarrow> Time \<Rightarrow> u8 list" where
  "time_enc s t = delta_bytes (t - dd_prev_time s - dd_prev_delta s)"

definition time_step :: "DeltaDeCompressor \<Rightarrow> Time \<Rightarrow> DeltaDeCompressor" where
  "time_step s t = \<lparr>dd_prev_delta = t - dd_prev_time s - dd_prev_delta s, dd_prev_time = t\<rparr>"

definition time_valid :: "DeltaDeCompressor \<Rightarrow> Time \<Rightarrow> bool" where
  "time_valid s t \<longleftrightarrow> (let D = t - dd_prev_time s - dd_prev_delta s in
     \<not> (delta_3b_range D \<and> sint D < 0 \<and> even D))"

definition value_enc :: "XorDeCompressor \<Rightarrow> Value \<Rightarrow> u8 list" where
  "value_enc s v = xor_bytes (xd_prev_value s XOR v)"

definition value_step :: "XorDeCompressor \<Rightarrow> Value \<Rightarrow> XorDeCompressor" where
  "value_step s v = \<lparr>xd_prev_value = v\<rparr>"

definition value_valid :: "XorDeCompressor \<Rightarrow> Value \<Rightarrow> bool" where
  "value_valid s v \<longleftrightarrow> xor_fits (xd_prev_value s XOR v)"

definition meas_enc :: "CopmressedReader \<Rightarrow> Meas \<Rightarrow> u8 list" where
  "meas_enc s m = time_enc (r_time s) (m_time m) @ value_enc (r_value s) (m_value m) @ leb128_bytes (m_flag m)"

definition meas_step :: "CopmressedReader \<Rightarrow> Meas \<Rightarrow> CopmressedReader" where
  "meas_step s m = s\<lparr>r_time := time_step (r_time s) (m_time m), r_value := value_step (r_value s) (m_value m)\<rparr>"

definition meas_valid :: "CopmressedReader \<Rightarrow> Meas \<Rightarrow> bool" where
  "meas_valid s m \<longleftrightarrow> m_id m = m_id (r_first s) \<and>
     time_valid (r_time s) (m_time m) \<and> value_valid (r_value s) (m_value m)"

lemma delta_decoded_id: "\<not> (delta_3b_range D \<and> sint D < 0 \<and> even D) \<Longrightarrow> delta_decoded D = D"
proof -
  have "odd D \<Longrightarrow> D OR 1 = D"
    by (rule bit_word_eqI) (auto simp: bit_simps even_iff_mod_2_eq_zero bit_0)
  then show "\<not> (delta_3b_range D \<and> sint D < 0 \<and> even D) \<Longrightarrow> delta_decoded D = D"
    by (auto simp: delta_decoded_def)
qed

interpretation time_codec: codec time_enc time_step time_valid DeltaDeCompressor_read
proof
  fix s t b d rest
  assume v: "time_valid s t" and at: "bb_at b d (time_enc s t @ rest)"
  define D where "D = t - dd_prev_time s - dd_prev_delta s"
  have "delta_decoded D = D"
    using v by (intro delta_decoded_id) (simp add: time_valid_def D_def Let_def)
  moreover have "bb_at b d (delta_bytes D @ rest)"
    using at by (simp add: time_enc_def D_def)
  ultimately obtain b' where "delta_read_result b = Some (D, b')" "bb_at b' d rest"
    using delta_read_result_bytes by metis
  then show "\<exists>b'. DeltaDeCompressor_read s b = Some (t, time_step s t, b') \<and> bb_at b' d rest"
    by (auto simp: DeltaDeCompressor_read_def Let_def time_step_def D_def)
qed

interpretation value_codec: codec value_enc value_step value_valid XorDeCompressor_read
proof
  fix s v b d rest
  assume "value_valid s v" "bb_at b d (value_enc s v @ rest)"
  then obtain b' where b': "XorDeCompressor_read s b = Some ((xd_prev_value s XOR v) XOR xd_prev_value s,
      s\<lparr>xd_prev_value := (xd_prev_value s XOR v) XOR xd_prev_value s\<rparr>, b')" "bb_at b' d rest"
    using XorDeCompressor_read_bytes unfolding value_valid_def value_enc_def by blast
  have "(xd_prev_value s XOR v) XOR xd_prev_value s = v"
    by (rule bit_word_eqI) (auto simp: bit_simps)
  with b' show "\<exists>b'. XorDeCompressor_read s b = Some (v, value_step s v, b') \<and> bb_at b' d rest"
    by (simp add: value_step_def)
qed

interpretation meas_codec: codec meas_enc meas_step meas_valid CopmressedReader_read
proof
  fix s m b d rest
  assume v: "meas_valid s m" and at: "bb_at b d (meas_enc s m @ rest)"
  then obtain b1 where b1: "DeltaDeCompressor_read (r_time s) b = Some (m_time m, time_step (r_time s) (m_time m), b1)"
    "bb_at b1 d (value_enc (r_value s) (m_value m) @ leb128_bytes (m_flag m) @ rest)"
    using time_codec.dec_enc unfolding meas_valid_def meas_enc_def by (metis append.assoc)
  obtain b2 where b2: "XorDeCompressor_read (r_value s) b1 = Some (m_value m, value_step (r_value s) (m_value m), b2)"
    "bb_at b2 d (leb128_bytes (m_flag m) @ rest)"
    using value_codec.dec_enc [OF _ b1(2)] v unfolding meas_valid_def by blast
  obtain b3 where "FlagDeCompressor_read b2 = Some (m_flag m, b3)" "bb_at b3 d rest"
    using FlagDeCompressor_read_bytes [OF b2(2)] by blast
  then show "\<exists>b'. CopmressedReader_read s b = Some (m, meas_step s m, b') \<and> bb_at b' d rest"
    using b1(1) b2(1) v by (simp add: CopmressedReader_read_def meas_step_def meas_valid_def)
qed

section \<open>The writer implements the encoding\<close>

text \<open>A writer that is past its first value and the reader state that decodes what it writes next.\<close>

definition writer_at :: "CopmressedWriter \<Rightarrow> CopmressedReader \<Rightarrow> bool" where
  "writer_at w s \<longleftrightarrow> \<not> w_is_first w \<and> \<not> dc_is_first (w_time w) \<and> \<not> xc_is_first (w_value w) \<and>
     \<not> fl_is_first (w_flag w) \<and>
     dc_prev_delta (w_time w) = dd_prev_delta (r_time s) \<and> dc_prev_time (w_time w) = dd_prev_time (r_time s) \<and>
     xc_prev_value (w_value w) = xd_prev_value (r_value s)"

lemma writer_first:
  "\<exists>w'. CopmressedWriter_append CopmressedWriter_new m bw = Some (True, w', bw) \<and>
     writer_at w' (CopmressedReader_new m) \<and> \<not> w_is_full w' \<and> w_first w' = m"
  by (simp add: CopmressedWriter_append_def CopmressedWriter_new_def DeltaCompressor_new_def XorCompressor_new_def
      FlagCompressor_new_def DeltaCompressor_append_def XorCompressor_append_def FlagCompressor_append_def
      writer_at_def CopmressedReader_new_def DeltaDeCompressor_new_def XorDeCompressor_new_def)

lemma time_append:
  assumes "bb_ok bw" "\<not> dc_is_first c" "dc_prev_delta c = dd_prev_delta s" "dc_prev_time c = dd_prev_time s"
  shows "\<exists>c' bw' bs. DeltaCompressor_append c t bw = Some (length (time_enc s t) \<le> bb_free_size bw, c', bw') \<and>
    bb_appended bw bs bw' \<and> (length (time_enc s t) \<le> bb_free_size bw \<longrightarrow>
      bs = time_enc s t \<and> \<not> dc_is_first c' \<and> dc_prev_delta c' = dd_prev_delta (time_step s t) \<and> dc_prev_time c' = t)"
proof -
  have e: "time_enc s t = delta_bytes (delta_step c t)" "dd_prev_delta (time_step s t) = delta_step c t"
    using assms by (simp_all add: time_enc_def time_step_def delta_step_def)
  show ?thesis
  proof (cases "length (time_enc s t) \<le> bb_free_size bw")
    case True
    then show ?thesis
      using DeltaCompressor_append_fits [OF assms(1,2), of t] e assms(2) by auto
  next
    case False
    then show ?thesis
      using DeltaCompressor_append_full [OF assms(2), of bw t] e assms(1)
      by (auto intro!: exI [of _ "[]"])
  qed
qed

lemma value_append:
  assumes "bb_ok bw" "\<not> xc_is_first c" "xc_prev_value c = xd_prev_value s" "value_valid s v"
  shows "\<exists>c' bw' bs. XorCompressor_append c v bw = Some (length (value_enc s v) \<le> bb_free_size bw, c', bw') \<and>
    bb_appended bw bs bw' \<and> (length (value_enc s v) \<le> bb_free_size bw \<longrightarrow>
      bs = value_enc s v \<and> \<not> xc_is_first c' \<and> xc_prev_value c' = v)"
proof (cases "length (value_enc s v) \<le> bb_free_size bw")
  case True
  then show ?thesis
    using XorCompressor_append_fits [OF assms(1,2), of v] assms(2-4) by (auto simp: value_enc_def value_valid_def)
next
  case False
  then show ?thesis
    using XorCompressor_append_full [OF assms(2), of bw v] assms(1,3)
    by (auto simp: value_enc_def intro!: exI [of _ "[]"])
qed

lemma flag_append:
  assumes "bb_ok bw" "\<not> fl_is_first c"
  shows "\<exists>bw' bs. FlagCompressor_append c v bw = Some (length (leb128_bytes v) \<le> bb_free_size bw, c, bw') \<and>
    bb_appended bw bs bw' \<and> (length (leb128_bytes v) \<le> bb_free_size bw \<longrightarrow> bs = leb128_bytes v)"
  using leb128_write_appends [OF assms(1), of v] assms(2)
  by (auto simp: FlagCompressor_append_def intro!: exI [of _ "take (bb_free_size bw) (leb128_bytes v)"])

lemma writer_append:
  assumes "writer_at w s" "bb_ok bw" "value_valid (r_value s) (m_value m)"
  shows "\<exists>w' bw' bs. CopmressedWriter_append w m bw = Some (length (meas_enc s m) \<le> bb_free_size bw, w', bw') \<and>
    bb_appended bw bs bw' \<and>
    (if length (meas_enc s m) \<le> bb_free_size bw
     then bs = meas_enc s m \<and> writer_at w' (meas_step s m) \<and> w_is_full w' = w_is_full w
     else w_is_full w')"
proof -
  obtain tc b1 bs1 where 1: "DeltaCompressor_append (w_time w) (m_time m) bw =
      Some (length (time_enc (r_time s) (m_time m)) \<le> bb_free_size bw, tc, b1)" "bb_appended bw bs1 b1"
    "length (time_enc (r_time s) (m_time m)) \<le> bb_free_size bw \<longrightarrow> bs1 = time_enc (r_time s) (m_time m) \<and>
      \<not> dc_is_first tc \<and> dc_prev_delta tc = dd_prev_delta (time_step (r_time s) (m_time m)) \<and> dc_prev_time tc = m_time m"
    using time_append [OF assms(2), of "w_time w" "r_time s" "m_time m"] assms(1) unfolding writer_at_def by blast
  obtain vc b2 bs2 where 2: "XorCompressor_append (w_value w) (m_value m) b1 =
      Some (length (value_enc (r_value s) (m_value m)) \<le> bb_free_size b1, vc, b2)" "bb_appended b1 bs2 b2"
    "length (value_enc (r_value s) (m_value m)) \<le> bb_free_size b1 \<longrightarrow> bs2 = value_enc (r_value s) (m_value m) \<and>
      \<not> xc_is_first vc \<and> xc_prev_value vc = m_value m"
    using value_append [OF bb_appended_okD [OF 1(2)], of "w_value w" "r_value s" "m_value m"] assms(1,3)
    unfolding writer_at_def by blast
  obtain b3 bs3 where 3: "FlagCompressor_append (w_flag w) (m_flag m) b2 =
      Some (length (leb128_bytes (m_flag m)) \<le> bb_free_size b2, w_flag w, b3)" "bb_appended b2 bs3 b3"
    "length (leb128_bytes (m_flag m)) \<le> bb_free_size b2 \<longrightarrow> bs3 = leb128_bytes (m_flag m)"
    using flag_append [OF bb_appended_okD [OF 2(2)], of "w_flag w" "m_flag m"] assms(1) unfolding writer_at_def by blast
  note app = bb_appended_trans [OF 1(2) bb_appended_trans [OF 2(2) 3(2)]]
  note free = bb_appended_free [OF 1(2)] bb_appended_free [OF 2(2)]
  show ?thesis
  proof (cases "length (meas_enc s m) \<le> bb_free_size bw")
    case True
    then show ?thesis
      using 1(1,3) 2(1,3) 3(1,3) app free assms(1)
      by (auto simp: CopmressedWriter_append_def writer_at_def meas_enc_def meas_step_def time_step_def value_step_def)
  next
    case False
    then show ?thesis
      using 1(1,3) 2(1,3) 3(1,3) app free assms(1)
      by (auto simp: CopmressedWriter_append_def writer_at_def meas_enc_def)
  qed
qed

end
