(* ===== verification/Stat.thy ===== *)
theory Stat
  imports Measurement
begin

text \<open>
  \<^verbatim>\<open>utils/jenkins_hash.h\<close>, \<^verbatim>\<open>storage/bloom_filter.h\<close> and \<^verbatim>\<open>stat.h\<close>: the hash, the one-word
  Bloom filters over ids and flags, and the running statistic a chunk and a page keep of their
  values.
\<close>

section \<open>Hash and Bloom filter\<close>

text \<open>The bytes are read through \<^verbatim>\<open>const char *\<close>, a signed type: \<^verbatim>\<open>hash += key[i]\<close> adds the
  sign-extended byte.\<close>

fun jenkins_loop :: "u8 list \<Rightarrow> u32 \<Rightarrow> u32" where
  "jenkins_loop [] hash = hash"
| "jenkins_loop (k # key) hash0 =
    (let hash1 = hash0 + scast k;
         hash2 = hash1 + push_bit 10 hash1;
         hash3 = hash2 XOR drop_bit 6 hash2
     in jenkins_loop key hash3)"

definition jenkins_one_at_a_time_hash :: "'a::len word \<Rightarrow> u32" where
  "jenkins_one_at_a_time_hash value =
    (let hash0 = jenkins_loop (le_bytes (LENGTH('a) div 8) value) 0;
         hash1 = hash0 + push_bit 3 hash0;
         hash2 = hash1 XOR drop_bit 11 hash1
     in hash2 + push_bit 15 hash2)"

definition bloom_empty :: u64 where
  "bloom_empty = 0"

definition bloom_add :: "u64 \<Rightarrow> 'a::len word \<Rightarrow> u64" where
  "bloom_add fltr val = fltr OR ucast (jenkins_one_at_a_time_hash val)"

definition bloom_check :: "u64 \<Rightarrow> 'a::len word \<Rightarrow> bool" where
  "bloom_check fltr val = (let h = ucast (jenkins_one_at_a_time_hash val) in (fltr AND h) = h)"

definition bloom_combine :: "u64 \<Rightarrow> u64 \<Rightarrow> u64" where
  "bloom_combine fltr_a fltr_b = fltr_a OR fltr_b"

section \<open>Statistic\<close>

record Statistic =
  s_minTime :: Time
  s_maxTime :: Time
  s_count :: u32
  s_flag_bloom :: u64
  s_minValue :: Value
  s_maxValue :: Value
  s_sum :: Value

definition Statistic_empty :: Statistic where
  "Statistic_empty = \<lparr>s_minTime = MAX_TIME, s_maxTime = MIN_TIME, s_count = 0,
     s_flag_bloom = bloom_empty, s_minValue = MAX_VALUE, s_maxValue = MIN_VALUE, s_sum = 0\<rparr>"

definition stat_update :: "Statistic \<Rightarrow> Meas \<Rightarrow> Statistic" where
  "stat_update s m = \<lparr>
     s_minTime = min (m_time m) (s_minTime s),
     s_maxTime = max (m_time m) (s_maxTime s),
     s_count = s_count s + 1,
     s_flag_bloom = bloom_add (s_flag_bloom s) (m_flag m),
     s_minValue = fp_min (m_value m) (s_minValue s),
     s_maxValue = fp_max (m_value m) (s_maxValue s),
     s_sum = fp_add (s_sum s) (m_value m)\<rparr>"

definition stat_update_stat :: "Statistic \<Rightarrow> Statistic \<Rightarrow> Statistic" where
  "stat_update_stat s st = \<lparr>
     s_minTime = min (s_minTime st) (s_minTime s),
     s_maxTime = max (s_maxTime st) (s_maxTime s),
     s_count = s_count s + s_count st,
     s_flag_bloom = bloom_combine (s_flag_bloom s) (s_flag_bloom st),
     s_minValue = fp_min (s_minValue st) (s_minValue s),
     s_maxValue = fp_max (s_maxValue st) (s_maxValue s),
     s_sum = fp_add (s_sum s) (s_sum st)\<rparr>"

text \<open>The statistic of a sequence of values, as the append loops build it.\<close>

definition stat_of :: "Meas list \<Rightarrow> Statistic" where
  "stat_of ms = fold (\<lambda>m s. stat_update s m) ms Statistic_empty"

section \<open>A filter never loses a member\<close>

lemma bloom_check_bits:
  "bloom_check f v \<longleftrightarrow> (\<forall>i<64. bit (ucast (jenkins_one_at_a_time_hash v) :: u64) i \<longrightarrow> bit f i)"
  unfolding bloom_check_def Let_def by (auto simp: bit_eq_iff bit_simps)

lemma bloom_check_add [simp]: "bloom_check (bloom_add f v) v"
  unfolding bloom_check_bits bloom_add_def by (simp add: bit_simps)

lemma bloom_check_add_mono: "bloom_check f w \<Longrightarrow> bloom_check (bloom_add f v) w"
  unfolding bloom_check_bits bloom_add_def by (auto simp: bit_simps)

lemma bloom_check_combine1: "bloom_check f w \<Longrightarrow> bloom_check (bloom_combine f g) w"
  and bloom_check_combine2: "bloom_check g w \<Longrightarrow> bloom_check (bloom_combine f g) w"
  unfolding bloom_check_bits bloom_combine_def by (auto simp: bit_simps)

lemma bloom_check_fold_mono:
  "bloom_check f w \<Longrightarrow> bloom_check (fold (\<lambda>v g. bloom_add g v) vs f) w"
  by (induction vs arbitrary: f) (auto intro: bloom_check_add_mono)

lemma bloom_check_fold: "v \<in> set vs \<Longrightarrow> bloom_check (fold (\<lambda>v g. bloom_add g v) vs f) v"
  by (induction vs arbitrary: f) (auto intro: bloom_check_fold_mono)

section \<open>The statistic of a sequence\<close>

lemma stat_of_Nil [simp]: "stat_of [] = Statistic_empty"
  by (simp add: stat_of_def)

lemma stat_of_snoc [simp]: "stat_of (ms @ [m]) = stat_update (stat_of ms) m"
  by (simp add: stat_of_def)

lemma stat_of_single [simp]: "stat_of [m] = stat_update Statistic_empty m"
  by (simp add: stat_of_def)

lemma stat_count: "s_count (stat_of ms) = of_nat (length ms)"
  by (induction ms rule: rev_induct)
    (simp_all add: stat_update_def Statistic_empty_def add.commute)

lemma stat_minTime: "ms \<noteq> [] \<Longrightarrow> s_minTime (stat_of ms) = Min (m_time ` set ms)"
proof (induction ms rule: rev_induct)
  case (snoc m ms)
  then show ?case
    by (cases "ms = []") (simp_all add: stat_update_def Statistic_empty_def min_def)
qed simp

lemma stat_maxTime: "ms \<noteq> [] \<Longrightarrow> s_maxTime (stat_of ms) = Max (m_time ` set ms)"
proof (induction ms rule: rev_induct)
  case (snoc m ms)
  then show ?case
    by (cases "ms = []") (simp_all add: stat_update_def Statistic_empty_def max_def antisym)
qed simp

lemma stat_flag_bloom: "m \<in> set ms \<Longrightarrow> bloom_check (s_flag_bloom (stat_of ms)) (m_flag m)"
  by (induction ms rule: rev_induct) (auto simp: stat_update_def intro: bloom_check_add_mono)

lemma not_nan_limits [simp]: "\<not> fp_nan MAX_VALUE" "\<not> fp_nan MIN_VALUE"
  by (simp_all add: fp_nan_def fp_inf_mag_def fp_mag_def MAX_VALUE_def MIN_VALUE_def take_bit_eq_mod unat_mod)

lemma stat_minValue:
  assumes "\<forall>m \<in> set ms. \<not> fp_nan (m_value m)"
  shows "\<not> fp_nan (s_minValue (stat_of ms)) \<and>
    fp_key (s_minValue (stat_of ms)) = Min (insert (fp_key MAX_VALUE) ((\<lambda>m. fp_key (m_value m)) ` set ms))"
  using assms
proof (induction ms rule: rev_induct)
  case (snoc m ms)
  then show ?case
    by (cases "ms = []") (simp_all add: stat_update_def fp_key_min Statistic_empty_def min.left_commute min.commute)
qed (simp add: Statistic_empty_def)

lemma stat_maxValue:
  assumes "\<forall>m \<in> set ms. \<not> fp_nan (m_value m)"
  shows "\<not> fp_nan (s_maxValue (stat_of ms)) \<and>
    fp_key (s_maxValue (stat_of ms)) = Max (insert (fp_key MIN_VALUE) ((\<lambda>m. fp_key (m_value m)) ` set ms))"
  using assms
proof (induction ms rule: rev_induct)
  case (snoc m ms)
  then show ?case
    by (cases "ms = []") (simp_all add: stat_update_def fp_key_max Statistic_empty_def max.left_commute max.commute)
qed (simp add: Statistic_empty_def)

section \<open>Properties\<close>

lemma stat_bloom_append:
  "s_flag_bloom (stat_of (xs @ ys)) = bloom_combine (s_flag_bloom (stat_of xs)) (s_flag_bloom (stat_of ys))"
proof (induction ys rule: rev_induct)
  case Nil
  show ?case by (simp add: bloom_combine_def Statistic_empty_def bloom_empty_def)
next
  case (snoc y ys)
  have "stat_of (xs @ ys @ [y]) = stat_update (stat_of (xs @ ys)) y"
    using stat_of_snoc [of "xs @ ys" y] by simp
  then show ?case using snoc by (simp add: stat_update_def bloom_add_def bloom_combine_def or.assoc)
qed

lemma stat_time_append:
  "s_minTime (stat_of (xs @ ys)) = min (s_minTime (stat_of ys)) (s_minTime (stat_of xs))"
  "s_maxTime (stat_of (xs @ ys)) = max (s_maxTime (stat_of ys)) (s_maxTime (stat_of xs))"
proof (induction ys rule: rev_induct)
  case Nil
  show "s_minTime (stat_of (xs @ [])) = min (s_minTime (stat_of [])) (s_minTime (stat_of xs))"
    "s_maxTime (stat_of (xs @ [])) = max (s_maxTime (stat_of [])) (s_maxTime (stat_of xs))"
    by (simp_all add: Statistic_empty_def min_absorb2 max_absorb2)
next
  case (snoc y ys)
  have "stat_of (xs @ ys @ [y]) = stat_update (stat_of (xs @ ys)) y"
    using stat_of_snoc [of "xs @ ys" y] by simp
  with snoc show "s_minTime (stat_of (xs @ ys @ [y])) = min (s_minTime (stat_of (ys @ [y]))) (s_minTime (stat_of xs))"
    "s_maxTime (stat_of (xs @ ys @ [y])) = max (s_maxTime (stat_of (ys @ [y]))) (s_maxTime (stat_of xs))"
    by (simp_all add: stat_update_def min.assoc max.assoc)
qed

text \<open>C30: the statistic built by updating with a nonempty sequence of values has the number of values
  modulo \<open>2\<^sup>3\<^sup>2\<close>, the least and the greatest time, and a Bloom filter that contains the flag of every
  value.\<close>

theorem statistic_of_values:
  assumes "ms \<noteq> []"
  shows "s_count (stat_of ms) = of_nat (length ms) \<and>
    s_minTime (stat_of ms) = Min (m_time ` set ms) \<and> s_maxTime (stat_of ms) = Max (m_time ` set ms) \<and>
    (\<forall>m \<in> set ms. bloom_check (s_flag_bloom (stat_of ms)) (m_flag m))"
  using assms by (simp add: stat_count stat_minTime stat_maxTime stat_flag_bloom)

theorem statistic_of_values_witness:
  "s_minTime (stat_of [\<lparr>m_id = 1, m_time = 7, m_value = 0, m_flag = 3\<rparr>, \<lparr>m_id = 1, m_time = 5, m_value = 0, m_flag = 4\<rparr>]) = 5"
  using statistic_of_values [of "[\<lparr>m_id = 1, m_time = 7, m_value = 0, m_flag = 3\<rparr>, \<lparr>m_id = 1, m_time = 5, m_value = 0, m_flag = 4\<rparr>]"]
  by simp

text \<open>C31: updating the statistic of one sequence with the statistic of another gives the count, the
  time bounds and the flag filter of the two sequences together.\<close>

theorem statistic_merge:
  "s_count (stat_update_stat (stat_of xs) (stat_of ys)) = s_count (stat_of (xs @ ys)) \<and>
   s_minTime (stat_update_stat (stat_of xs) (stat_of ys)) = s_minTime (stat_of (xs @ ys)) \<and>
   s_maxTime (stat_update_stat (stat_of xs) (stat_of ys)) = s_maxTime (stat_of (xs @ ys)) \<and>
   s_flag_bloom (stat_update_stat (stat_of xs) (stat_of ys)) = s_flag_bloom (stat_of (xs @ ys))"
  by (simp add: stat_update_stat_def stat_count stat_bloom_append stat_time_append)

text \<open>C32: for values without NaN the least value of a statistic is the least of the values, bounded by
  the greatest finite double, but the greatest value starts from the smallest positive normal
  double and not from the least double: it is the greatest of the values and \<^verbatim>\<open>MIN_VALUE\<close>, so for
  negative values it is a positive number no value has.\<close>

theorem statistic_value_bounds:
  assumes "\<forall>m \<in> set ms. \<not> fp_nan (m_value m)"
  shows "fp_key (s_minValue (stat_of ms)) = Min (insert (fp_key MAX_VALUE) ((\<lambda>m. fp_key (m_value m)) ` set ms)) \<and>
    fp_key (s_maxValue (stat_of ms)) = Max (insert (fp_key MIN_VALUE) ((\<lambda>m. fp_key (m_value m)) ` set ms))"
  using stat_minValue [OF assms] stat_maxValue [OF assms] by blast

theorem statistic_value_bounds_witness:
  "fp_key (s_maxValue (stat_of [\<lparr>m_id = 1, m_time = 7, m_value = 0xBFF0000000000000, m_flag = 0\<rparr>])) = fp_key MIN_VALUE \<and>
   fp_key MIN_VALUE > 0"
  using statistic_value_bounds [of "[\<lparr>m_id = 1, m_time = 7, m_value = 0xBFF0000000000000, m_flag = 0\<rparr>]"]
  by (simp add: fp_nan_def fp_inf_mag_def fp_mag_def fp_key_def fp_sign_def MIN_VALUE_def take_bit_eq_mod unat_mod)

end
