(* ===== verification/Chunk.thy ===== *)
theory Chunk
  imports Compression Stat
begin

text \<open>
  \<^verbatim>\<open>storage/chunk.h\<close> and \<^verbatim>\<open>storage/chunk.cpp\<close>: a chunk is a header with statistics and a byte
  buffer that holds the compressed values of one series; the first value is kept in the
  header.  The reader of a chunk is here too; \<^verbatim>\<open>getReader\<close> and \<^verbatim>\<open>stat\<close>, which need the other
  cursors, are in the theory of the cursors' clients.  The checksum routine is a library
  function: it is the argument \<open>crc32\<close> of the definitions that use it.
\<close>

section \<open>Header\<close>

type_synonym MeasData = Meas

record ChunkHeader =
  ch_id :: u64
  ch_meas_id :: Id
  ch_data_first :: MeasData
  ch_data_last :: MeasData
  ch_bw_pos :: u32
  ch_size :: u32
  ch_crc :: u32
  ch_offset_in_page :: u64
  ch_stat :: Statistic
  ch_is_sorted :: bool

definition ChunkHeader_first :: "ChunkHeader \<Rightarrow> Meas" where
  "ChunkHeader_first h = (Meas_of_id (ch_meas_id h))\<lparr>m_flag := m_flag (ch_data_first h),
     m_time := m_time (ch_data_first h), m_value := m_value (ch_data_first h)\<rparr>"

definition ChunkHeader_last :: "ChunkHeader \<Rightarrow> Meas" where
  "ChunkHeader_last h = (Meas_of_id (ch_meas_id h))\<lparr>m_flag := m_flag (ch_data_last h),
     m_time := m_time (ch_data_last h), m_value := m_value (ch_data_last h)\<rparr>"

definition set_first :: "ChunkHeader \<Rightarrow> Meas \<Rightarrow> ChunkHeader" where
  "set_first h m = h\<lparr>ch_data_first := (ch_data_first h)\<lparr>m_flag := m_flag m, m_time := m_time m, m_value := m_value m\<rparr>,
     ch_meas_id := m_id m\<rparr>"

definition set_last :: "ChunkHeader \<Rightarrow> Meas \<Rightarrow> ChunkHeader" where
  "set_last h m = h\<lparr>ch_data_last := (ch_data_last h)\<lparr>m_flag := m_flag m, m_time := m_time m, m_value := m_value m\<rparr>\<rparr>"

section \<open>Chunk\<close>

record Chunk =
  c_header :: ChunkHeader
  c_bw :: ByteBuffer
  c_writer :: CopmressedWriter

definition Chunk_open :: "ChunkHeader \<Rightarrow> u8 list \<Rightarrow> Chunk" where
  "Chunk_open hdr buffer = \<lparr>c_header = hdr,
     c_bw = set_pos (ByteBuffer_new (take (unat (ch_size hdr)) buffer)) (ch_bw_pos hdr),
     c_writer = CopmressedWriter_new\<rparr>"

text \<open>Creation fills the buffer with zeros and appends the first value to the writer, which
  keeps it as the base of the compression and writes no byte.\<close>

definition Chunk_create :: "ChunkHeader \<Rightarrow> u32 \<Rightarrow> Meas \<Rightarrow> Chunk option" where
  "Chunk_create hdr sz first_m = (
     let h1 = hdr\<lparr>ch_size := sz\<rparr>;
         h2 = set_last (set_first h1 first_m) first_m;
         h3 = h2\<lparr>ch_stat := stat_update Statistic_empty first_m, ch_is_sorted := True\<rparr>;
         bw = ByteBuffer_new (replicate (unat sz) 0);
         h4 = h3\<lparr>ch_bw_pos := bb_pos bw\<rparr>
     in do {
       (_, w, bw1) \<leftarrow> CopmressedWriter_append CopmressedWriter_new (ChunkHeader_first h4) bw;
       Some \<lparr>c_header = h4, c_bw = bw1, c_writer = w\<rparr> })"

definition Chunk_checkId :: "Chunk \<Rightarrow> Id \<Rightarrow> bool" where
  "Chunk_checkId c i \<longleftrightarrow> ch_meas_id (c_header c) = i"

definition Chunk_checkFlag :: "Chunk \<Rightarrow> Flag \<Rightarrow> bool" where
  "Chunk_checkFlag c f \<longleftrightarrow> (if f \<noteq> 0 then bloom_check (s_flag_bloom (ch_stat (c_header c))) f else True)"

definition Chunk_calcChecksum :: "(u8 list \<Rightarrow> u32) \<Rightarrow> ChunkHeader \<Rightarrow> u8 list \<Rightarrow> u32" where
  "Chunk_calcChecksum crc32 hdr buff = crc32 (take (unat (ch_size hdr)) buff)"

definition Chunk_updateChecksum :: "(u8 list \<Rightarrow> u32) \<Rightarrow> ChunkHeader \<Rightarrow> u8 list \<Rightarrow> ChunkHeader" where
  "Chunk_updateChecksum crc32 hdr buff = hdr\<lparr>ch_crc := crc32 (take (unat (ch_size hdr)) buff)\<rparr>"

definition Chunk_checkChecksum :: "(u8 list \<Rightarrow> u32) \<Rightarrow> Chunk \<Rightarrow> bool" where
  "Chunk_checkChecksum crc32 c \<longleftrightarrow>
     ch_crc (c_header c) = Chunk_calcChecksum crc32 (c_header c) (bb_data (c_bw c))"

text \<open>\<^verbatim>\<open>compact\<close>: the header describes the used tail of the buffer; the result is the number of
  bytes of the buffer to skip.\<close>

definition Chunk_compact :: "ChunkHeader \<Rightarrow> u32 \<times> ChunkHeader" where
  "Chunk_compact hdr =
    (if ch_bw_pos hdr = 0 then (0, hdr)
     else
       let cur_chunk_buf_size = ch_size hdr - ch_bw_pos hdr + 1;
           skip_count = ch_size hdr - cur_chunk_buf_size
       in (skip_count, hdr\<lparr>ch_size := cur_chunk_buf_size, ch_bw_pos := 0\<rparr>))"

definition Chunk_isFull :: "Chunk \<Rightarrow> bool" where
  "Chunk_isFull c = w_is_full (c_writer c)"

definition Chunk_append :: "Chunk \<Rightarrow> Meas \<Rightarrow> (bool \<times> Chunk) option" where
  "Chunk_append c m = do {
     (t_f, w, bw) \<leftarrow> CopmressedWriter_append (c_writer c) m (c_bw c);
     let c1 = c\<lparr>c_writer := w, c_bw := bw\<rparr>; h = c_header c in
     if \<not> t_f then Some (False, c1)
     else
       let h1 = (if m_time m < m_time (ch_data_last h) then h\<lparr>ch_is_sorted := False\<rparr> else h);
           h2 = h1\<lparr>ch_bw_pos := bb_pos bw\<rparr>;
           h3 = h2\<lparr>ch_stat := stat_update (ch_stat h2) m\<rparr>
       in Some (True, c1\<lparr>c_header := set_last h3 m\<rparr>) }"

section \<open>Reader of a chunk\<close>

record ChunkReader =
  cr_values_count :: nat
  cr_top_value_exists :: bool
  cr_top_value :: Meas
  cr_count :: nat
  cr_header :: ChunkHeader
  cr_bw :: ByteBuffer
  cr_compressed_rdr :: CopmressedReader

definition ChunkReader_new :: "nat \<Rightarrow> Chunk \<Rightarrow> ByteBuffer \<Rightarrow> CopmressedReader \<Rightarrow> ChunkReader" where
  "ChunkReader_new cnt c bptr compressed_rdr = \<lparr>
     cr_values_count = cnt + 1, cr_top_value_exists = True,
     cr_top_value = ChunkHeader_first (c_header c), cr_count = cnt, cr_header = c_header c,
     cr_bw = bptr, cr_compressed_rdr = compressed_rdr\<rparr>"

text \<open>The loop of \<^verbatim>\<open>skipDuplicates\<close>, by recursion on \<^verbatim>\<open>_count\<close>.\<close>

fun skip_loop :: "nat \<Rightarrow> Time \<Rightarrow> ChunkReader \<Rightarrow> ChunkReader option" where
  "skip_loop 0 t r = Some (r\<lparr>cr_count := 0\<rparr>)"
| "skip_loop (Suc n) t r = do {
     (m, rdr, bw) \<leftarrow> CopmressedReader_read (cr_compressed_rdr r) (cr_bw r);
     let r1 = r\<lparr>cr_top_value_exists := True, cr_count := n, cr_top_value := m,
                cr_compressed_rdr := rdr, cr_bw := bw\<rparr> in
     if m_time m \<noteq> t then Some r1 else skip_loop n t r1 }"

definition skipDuplicates :: "ChunkReader \<Rightarrow> Time \<Rightarrow> ChunkReader option" where
  "skipDuplicates r t = skip_loop (cr_count r) t r"

definition ChunkReader_readNext :: "ChunkReader \<Rightarrow> (Meas \<times> ChunkReader) option" where
  "ChunkReader_readNext r =
    (if cr_count r = 0 then Some (cr_top_value r, r\<lparr>cr_top_value_exists := False\<rparr>)
     else do {
       r1 \<leftarrow> skipDuplicates r (m_time (cr_top_value r));
       Some (cr_top_value r, r1) })"

definition ChunkReader_is_end :: "ChunkReader \<Rightarrow> bool" where
  "ChunkReader_is_end r \<longleftrightarrow> cr_count r = 0 \<and> \<not> cr_top_value_exists r"

definition ChunkReader_top :: "ChunkReader \<Rightarrow> Meas option" where
  "ChunkReader_top r = (if \<not> cr_top_value_exists r then None else Some (cr_top_value r))"

section \<open>The values a chunk holds\<close>

text \<open>\<open>chunk_holds c ms\<close>: the chunk was built from the values \<open>ms\<close>, the first of them first.\<close>

definition chunk_holds :: "Chunk \<Rightarrow> Meas list \<Rightarrow> bool" where
  "chunk_holds c ms \<longleftrightarrow> (\<exists>m0 rest junk. ms = m0 # rest \<and>
     ChunkHeader_first (c_header c) = m0 \<and>
     ch_stat (c_header c) = stat_of ms \<and>
     bb_ok (c_bw c) \<and>
     ch_size (c_header c) = of_nat (length (bb_data (c_bw c))) \<and>
     bb_written (c_bw c) = enc_list meas_enc meas_step (CopmressedReader_new m0) rest @ junk \<and>
     unat (ch_bw_pos (c_header c)) < length (bb_data (c_bw c)) \<and>
     (\<exists>junk. bb_written (set_pos (c_bw c) (ch_bw_pos (c_header c))) =
        enc_list meas_enc meas_step (CopmressedReader_new m0) rest @ junk) \<and>
     valid_list meas_valid meas_step (CopmressedReader_new m0) rest \<and>
     m_time (ch_data_last (c_header c)) = m_time (last ms) \<and>
     ch_is_sorted (c_header c) = sorted_wrt (\<le>) (map m_time ms))"

text \<open>\<open>chunk_writes c ms\<close>: further values can be appended.\<close>

definition chunk_writes :: "Chunk \<Rightarrow> Meas list \<Rightarrow> bool" where
  "chunk_writes c ms \<longleftrightarrow> chunk_holds c ms \<and>
     bb_written (c_bw c) = enc_list meas_enc meas_step (CopmressedReader_new (hd ms)) (tl ms) \<and>
     ch_bw_pos (c_header c) = bb_pos (c_bw c) \<and> \<not> w_is_full (c_writer c) \<and>
     writer_at (c_writer c) (fold (\<lambda>m s. meas_step s m) (tl ms) (CopmressedReader_new (hd ms)))"

definition chunk_state :: "Meas list \<Rightarrow> CopmressedReader" where
  "chunk_state ms = fold (\<lambda>m s. meas_step s m) (tl ms) (CopmressedReader_new (hd ms))"

lemma chunk_state_snoc [simp]: "ms \<noteq> [] \<Longrightarrow> chunk_state (ms @ [m]) = meas_step (chunk_state ms) m"
  by (simp add: chunk_state_def)

lemma ByteBuffer_new_ok:
  assumes "0 < length r" "length r < 2 ^ 32"
  shows "bb_ok (ByteBuffer_new r)" "bb_written (ByteBuffer_new r) = []"
    "bb_free_size (ByteBuffer_new r) = length r - 1"
proof -
  have "unat (of_nat (length r) - 1 :: u32) = length r - 1"
    using assms Suc_leI [OF assms(1)] unat_pos_minus [of 1 "of_nat (length r) :: u32"]
    by (simp add: unat_of_nat take_bit_eq_mod)
  then show "bb_ok (ByteBuffer_new r)" "bb_written (ByteBuffer_new r) = []"
    "bb_free_size (ByteBuffer_new r) = length r - 1"
    using assms by (simp_all add: ByteBuffer_new_def reset_pos_def bb_ok_def bb_written_def bb_free_size_def)
qed

lemma header_first_last:
  "ChunkHeader_first (set_first h m) = m" "ch_size (set_first h m) = ch_size h"
  "ChunkHeader_first (set_last h m') = ChunkHeader_first h"
  "m_time (ch_data_last (set_last h m')) = m_time m'"
  "ch_stat (set_last h m') = ch_stat h" "ch_size (set_last h m') = ch_size h"
  "ch_bw_pos (set_last h m') = ch_bw_pos h" "ch_is_sorted (set_last h m') = ch_is_sorted h"
  by (simp_all add: ChunkHeader_first_def set_last_def set_first_def Meas_of_id_def Meas_empty_def)

lemma ChunkHeader_first_update [simp]:
  "ChunkHeader_first (h\<lparr>ch_is_sorted := b\<rparr>) = ChunkHeader_first h"
  "ChunkHeader_first (h\<lparr>ch_bw_pos := p\<rparr>) = ChunkHeader_first h"
  "ChunkHeader_first (h\<lparr>ch_stat := st\<rparr>) = ChunkHeader_first h"
  "ChunkHeader_first (h\<lparr>ch_size := sz\<rparr>) = ChunkHeader_first h"
  by (simp_all add: ChunkHeader_first_def)

lemma set_pos_same [simp]: "set_pos b (bb_pos b) = b"
  by (simp add: set_pos_def)

text \<open>Bytes written later do not change what a header that was not updated describes.\<close>

lemma set_pos_written:
  assumes "bb_appended b bs b'"
  shows "bb_written (set_pos b' (bb_pos b)) = bb_written b"
proof -
  define n where "n = length (bb_data b) - 1"
  have len: "length (bb_data b') - 1 = n" and pos: "unat (bb_pos b) = length bs + unat (bb_pos b')"
    and w: "bb_written b' = bb_written b @ bs"
    using assms by (simp_all add: bb_appended_def n_def)
  have "rev (drop (unat (bb_pos b')) (take n (bb_data b'))) = rev (drop (unat (bb_pos b)) (take n (bb_data b))) @ bs"
    using w unfolding bb_written_def len n_def [symmetric] .
  then have "drop (unat (bb_pos b')) (take n (bb_data b')) = rev bs @ drop (unat (bb_pos b)) (take n (bb_data b))"
    by (metis rev_append rev_rev_ident)
  then have "drop (length bs) (drop (unat (bb_pos b')) (take n (bb_data b'))) = drop (unat (bb_pos b)) (take n (bb_data b))"
    by simp
  then have "drop (unat (bb_pos b)) (take n (bb_data b')) = drop (unat (bb_pos b)) (take n (bb_data b))"
    unfolding drop_drop pos .
  moreover have "bb_written (set_pos b' (bb_pos b)) = rev (drop (unat (bb_pos b)) (take (length (bb_data b') - 1) (bb_data b')))"
    by (simp add: bb_written_def set_pos_def)
  ultimately show ?thesis
    unfolding len by (simp add: bb_written_def n_def)
qed

lemma chunk_create_writes:
  assumes "0 < sz"
  shows "\<exists>c. Chunk_create hdr sz m = Some c \<and> chunk_writes c [m] \<and> bb_free_size (c_bw c) = unat sz - 1"
proof -
  define r where "r = replicate (unat sz) (0 :: u8)"
  have r: "0 < length r" "length r < 2 ^ 32" "of_nat (length r) = sz"
    using assms unsigned_less [of sz, where 'a = nat] by (simp_all add: r_def unat_gt_0)
  note new = ByteBuffer_new_ok [OF r(1,2)]
  have d: "bb_data (ByteBuffer_new r) = r" by (simp add: ByteBuffer_new_def reset_pos_def)
  obtain w where "CopmressedWriter_append CopmressedWriter_new m (ByteBuffer_new r) = Some (True, w, ByteBuffer_new r)"
    "writer_at w (CopmressedReader_new m)" "\<not> w_is_full w"
    using writer_first by blast
  then show ?thesis
    using new d r by (simp add: Chunk_create_def Let_def header_first_last r_def [symmetric] chunk_writes_def
        chunk_holds_def bb_ok_def) (simp add: r_def)
qed

lemma sorted_snoc:
  "ms \<noteq> [] \<Longrightarrow> sorted_wrt (\<le>) (map m_time (ms @ [m])) \<longleftrightarrow>
     sorted_wrt (\<le>) (map m_time ms) \<and> m_time (last ms) \<le> m_time m"
  by (cases ms rule: rev_cases) (auto simp: sorted_append)

lemma chunk_append_fits:
  assumes c: "chunk_writes c ms" and v: "meas_valid (chunk_state ms) m"
    and fits: "length (meas_enc (chunk_state ms) m) \<le> bb_free_size (c_bw c)"
  shows "\<exists>c'. Chunk_append c m = Some (True, c') \<and> chunk_writes c' (ms @ [m]) \<and>
    bb_free_size (c_bw c') = bb_free_size (c_bw c) - length (meas_enc (chunk_state ms) m)"
proof -
  obtain m0 rest where ms: "ms = m0 # rest" using c by (auto simp: chunk_writes_def chunk_holds_def)
  have at: "writer_at (c_writer c) (chunk_state ms)" and ok: "bb_ok (c_bw c)"
    using c ms by (simp_all add: chunk_writes_def chunk_holds_def chunk_state_def)
  obtain w bw where w: "CopmressedWriter_append (c_writer c) m (c_bw c) = Some (True, w, bw)"
    "bb_appended (c_bw c) (meas_enc (chunk_state ms) m) bw" "writer_at w (meas_step (chunk_state ms) m)"
    "w_is_full w = w_is_full (c_writer c)"
    using writer_append [OF at ok, of m] fits v by (auto simp: meas_valid_def)
  then show ?thesis
    using c v ms sorted_snoc [of ms m] bb_appended_free [OF w(2)]
    by (simp add: Chunk_append_def Let_def chunk_writes_def chunk_holds_def header_first_last bb_appended_def
        enc_list_append valid_list_append chunk_state_def stat_of_snoc [of "m0 # rest", simplified])
      (auto simp: not_less)
qed

lemma chunk_append_refused:
  assumes c: "chunk_writes c ms" and v: "meas_valid (chunk_state ms) m"
    and full: "bb_free_size (c_bw c) < length (meas_enc (chunk_state ms) m)"
  shows "\<exists>c'. Chunk_append c m = Some (False, c') \<and> chunk_holds c' ms \<and> Chunk_isFull c' \<and> c_header c' = c_header c"
proof -
  obtain m0 rest where ms: "ms = m0 # rest" using c by (auto simp: chunk_writes_def chunk_holds_def)
  have at: "writer_at (c_writer c) (chunk_state ms)" and ok: "bb_ok (c_bw c)"
    using c ms by (simp_all add: chunk_writes_def chunk_holds_def chunk_state_def)
  obtain w bw bs where w: "CopmressedWriter_append (c_writer c) m (c_bw c) = Some (False, w, bw)"
    "bb_appended (c_bw c) bs bw" "w_is_full w"
    using writer_append [OF at ok, of m] full v by (auto simp: meas_valid_def)
  then show ?thesis
    using c ms set_pos_written [OF w(2)]
    by (auto simp: Chunk_append_def Let_def chunk_writes_def chunk_holds_def bb_appended_def Chunk_isFull_def)
qed

section \<open>What the reader of a chunk returns\<close>

text \<open>The values the reader returns for the stored values: duplicates of a time are skipped,
  except that the last of the duplicates at the very end is returned once more.\<close>

fun cr_values :: "Meas list \<Rightarrow> Meas list" where
  "cr_values [] = []"
| "cr_values [m] = [m]"
| "cr_values (m # n # ms) =
    (let ys = dropWhile (\<lambda>x. m_time x = m_time m) (n # ms) in
     if ys = [] then [m, last (n # ms)] else m # cr_values ys)"

definition chunk_reader_rep :: "ChunkReader \<Rightarrow> Meas list \<Rightarrow> bool" where
  "chunk_reader_rep r ms \<longleftrightarrow>
     (if cr_top_value_exists r
      then \<exists>d rest junk. bb_at (cr_bw r) d (enc_list meas_enc meas_step (cr_compressed_rdr r) rest @ junk) \<and>
        valid_list meas_valid meas_step (cr_compressed_rdr r) rest \<and>
        length rest = cr_count r \<and> ms = cr_values (cr_top_value r # rest)
      else cr_count r = 0 \<and> ms = [])"

definition after_dups :: "Time \<Rightarrow> Meas list \<Rightarrow> Meas list" where
  "after_dups t rest = (let ys = dropWhile (\<lambda>x. m_time x = t) rest in if ys = [] then [last rest] else ys)"

lemma after_dups_Cons:
  "after_dups t (m # rest) = (if m_time m \<noteq> t \<or> rest = [] then m # rest else after_dups t rest)"
  by (auto simp: after_dups_def Let_def)

lemma cr_values_Cons:
  "cr_values (m # rest) = m # (if rest = [] then [] else cr_values (after_dups (m_time m) rest))"
  by (cases rest) (simp_all add: after_dups_def Let_def)

lemma skip_loop_reads:
  assumes "bb_at (cr_bw r) d (enc_list meas_enc meas_step (cr_compressed_rdr r) rest @ junk)"
    "valid_list meas_valid meas_step (cr_compressed_rdr r) rest" "rest \<noteq> []"
  shows "\<exists>r'. skip_loop (length rest) t r = Some r' \<and>
    chunk_reader_rep r' (cr_values (after_dups t rest))"
  using assms
proof (induction rest arbitrary: r)
  case (Cons m rest)
  obtain b where b: "CopmressedReader_read (cr_compressed_rdr r) (cr_bw r) = Some (m, meas_step (cr_compressed_rdr r) m, b)"
    "bb_at b d (enc_list meas_enc meas_step (meas_step (cr_compressed_rdr r) m) rest @ junk)"
    using meas_codec.dec_enc [of "cr_compressed_rdr r" m "cr_bw r" d] Cons.prems by auto
  define r1 where "r1 = r\<lparr>cr_top_value_exists := True, cr_count := length rest, cr_top_value := m,
                cr_compressed_rdr := meas_step (cr_compressed_rdr r) m, cr_bw := b\<rparr>"
  have rep: "chunk_reader_rep r1 (cr_values (m # rest))"
    using b(2) Cons.prems(2) by (auto simp: chunk_reader_rep_def r1_def)
  show ?case
  proof (cases "m_time m \<noteq> t \<or> rest = []")
    case True
    have "rest = [] \<Longrightarrow> chunk_reader_rep (r1\<lparr>cr_count := 0\<rparr>) (cr_values (m # rest))"
      using rep by (simp add: chunk_reader_rep_def r1_def)
    then show ?thesis
      using True b(1) rep by (auto simp: r1_def Let_def after_dups_Cons)
  next
    case False
    then show ?thesis
      using b Cons.IH [of r1] Cons.prems(2) by (simp add: r1_def Let_def after_dups_Cons)
  qed
qed simp

lemma chunk_reader_readNext:
  assumes "chunk_reader_rep r (m # ms)"
  shows "\<exists>r'. ChunkReader_readNext r = Some (m, r') \<and> chunk_reader_rep r' ms"
proof -
  obtain d rest junk where rep: "cr_top_value_exists r"
    "bb_at (cr_bw r) d (enc_list meas_enc meas_step (cr_compressed_rdr r) rest @ junk)"
    "valid_list meas_valid meas_step (cr_compressed_rdr r) rest"
    "length rest = cr_count r" "m # ms = cr_values (cr_top_value r # rest)"
    using assms by (auto simp: chunk_reader_rep_def split: if_splits)
  show ?thesis
  proof (cases "rest = []")
    case True
    then show ?thesis
      using rep by (simp add: ChunkReader_readNext_def chunk_reader_rep_def)
  next
    case False
    then show ?thesis
      using skip_loop_reads [OF rep(2,3) False, of "m_time (cr_top_value r)"] rep(4,5)
      by (auto simp: ChunkReader_readNext_def skipDuplicates_def cr_values_Cons)
  qed
qed

lemma chunk_reader_is_end: "chunk_reader_rep r ms \<Longrightarrow> ChunkReader_is_end r \<longleftrightarrow> ms = []"
  by (auto simp: chunk_reader_rep_def ChunkReader_is_end_def cr_values_Cons split: if_splits)

lemma chunk_reader_top: "chunk_reader_rep r (m # ms) \<Longrightarrow> ChunkReader_top r = Some m"
  by (auto simp: chunk_reader_rep_def ChunkReader_top_def cr_values_Cons split: if_splits)

lemma length_cr_values: "length (cr_values ms) \<le> length ms"
proof (induction ms rule: cr_values.induct)
  case (3 m n ms)
  then show ?case
    using length_dropWhile_le [of "\<lambda>x. m_time x = m_time m" ms]
    by (auto simp: Let_def) (meson le_SucI order.trans)
qed simp_all

lemma cr_values_id:
  "sorted_wrt (<) (map m_time ms) \<Longrightarrow> cr_values ms = ms"
  by (induction ms rule: cr_values.induct) (auto simp: Let_def)

end
