(* ===== verification/Cursors.thy ===== *)
theory Cursors
  imports Chunk
begin

text \<open>
  \<^verbatim>\<open>interfaces/icursor.h\<close>, \<^verbatim>\<open>interfaces/icursor.cpp\<close>, \<^verbatim>\<open>storage/cursors.h\<close>, \<^verbatim>\<open>storage/cursors.cpp\<close>:
  the cursors queries return.  The classes that implement \<^verbatim>\<open>ICursor\<close> are the constructors of one
  datatype and the virtual functions are defined by cases on it.  A call that throws or
  whose behaviour is undefined is \<^term>\<open>None\<close>.
\<close>

section \<open>Full cursor\<close>

record FullCursor =
  fc_ma :: "Meas list"
  fc_index :: nat
  fc_minTime :: Time
  fc_maxTime :: Time

definition FullCursor_new :: "Meas list \<Rightarrow> FullCursor" where
  "FullCursor_new ma = \<lparr>fc_ma = ma, fc_index = 0,
     fc_minTime = fold (\<lambda>v t. min t (m_time v)) ma MAX_TIME,
     fc_maxTime = fold (\<lambda>v t. max t (m_time v)) ma MIN_TIME\<rparr>"

definition FullCursor_is_end :: "FullCursor \<Rightarrow> bool" where
  "FullCursor_is_end f \<longleftrightarrow> length (fc_ma f) \<le> fc_index f"

text \<open>The loop that moves the index over the duplicates of the time \<open>t\<close>.\<close>

function full_skip :: "Meas list \<Rightarrow> Time \<Rightarrow> nat \<Rightarrow> nat" where
  "full_skip ma t i = (if i < length ma \<and> m_time (ma ! i) = t then full_skip ma t (Suc i) else i)"
  by pat_completeness auto

termination full_skip
  by (relation "measure (\<lambda>(ma, t, i). length ma - i)") auto

declare full_skip.simps [simp del]

definition FullCursor_readNext :: "FullCursor \<Rightarrow> (Meas \<times> FullCursor) option" where
  "FullCursor_readNext f =
    (if FullCursor_is_end f then None
     else let result = fc_ma f ! fc_index f in
       Some (result, f\<lparr>fc_index := full_skip (fc_ma f) (m_time result) (Suc (fc_index f))\<rparr>))"

definition FullCursor_top :: "FullCursor \<Rightarrow> Meas option" where
  "FullCursor_top f = (if \<not> FullCursor_is_end f then Some (fc_ma f ! fc_index f) else None)"

section \<open>The cursors\<close>

text \<open>\<open>MergeSortCursor\<close> has the fields \<^verbatim>\<open>_values_count\<close>, \<^verbatim>\<open>_readers\<close>, \<^verbatim>\<open>_top_times\<close>,
  \<^verbatim>\<open>_is_end_status\<close>, \<^verbatim>\<open>_minTime\<close>, \<^verbatim>\<open>_maxTime\<close>; \<open>LinearCursor\<close> has \<^verbatim>\<open>_values_count\<close>,
  \<^verbatim>\<open>_readers\<close>, \<^verbatim>\<open>_minTime\<close>, \<^verbatim>\<open>_maxTime\<close>.\<close>

datatype cursor =
    FullC FullCursor
  | ChunkC ChunkReader
  | MergeSortCursor nat "cursor list" "Time list" "bool list" Time Time
  | LinearCursor nat "cursor list" Time Time

fun cursor_is_end :: "cursor \<Rightarrow> bool" where
  "cursor_is_end (FullC f) = FullCursor_is_end f"
| "cursor_is_end (ChunkC r) = ChunkReader_is_end r"
| "cursor_is_end (MergeSortCursor _ _ _ ends _ _) = list_all id ends"
| "cursor_is_end (LinearCursor _ rs _ _) = (rs = [])"

fun cursor_minTime :: "cursor \<Rightarrow> Time" where
  "cursor_minTime (FullC f) = fc_minTime f"
| "cursor_minTime (ChunkC r) = s_minTime (ch_stat (cr_header r))"
| "cursor_minTime (MergeSortCursor _ _ _ _ mn _) = mn"
| "cursor_minTime (LinearCursor _ _ mn _) = mn"

fun cursor_maxTime :: "cursor \<Rightarrow> Time" where
  "cursor_maxTime (FullC f) = fc_maxTime f"
| "cursor_maxTime (ChunkC r) = s_maxTime (ch_stat (cr_header r))"
| "cursor_maxTime (MergeSortCursor _ _ _ _ _ mx) = mx"
| "cursor_maxTime (LinearCursor _ _ _ mx) = mx"

fun cursor_count :: "cursor \<Rightarrow> nat" where
  "cursor_count (FullC f) = length (fc_ma f)"
| "cursor_count (ChunkC r) = cr_values_count r"
| "cursor_count (MergeSortCursor n _ _ _ _ _) = n"
| "cursor_count (LinearCursor n _ _ _) = n"

text \<open>The loop of \<^verbatim>\<open>get_cursor_with_min_time\<close>: the first index with the smallest time that is not
  \<^verbatim>\<open>MAX_TIME\<close>, and 0 if there is none.\<close>

fun min_time_loop :: "Time list \<Rightarrow> nat \<Rightarrow> Time \<Rightarrow> nat \<Rightarrow> nat" where
  "min_time_loop [] i min_time min_time_index = min_time_index"
| "min_time_loop (t # ts) i min_time min_time_index =
    (if t \<noteq> MAX_TIME \<and> t < min_time then min_time_loop ts (Suc i) t i
     else min_time_loop ts (Suc i) min_time min_time_index)"

definition get_cursor_with_min_time :: "Time list \<Rightarrow> nat" where
  "get_cursor_with_min_time top_times = min_time_loop top_times 0 MAX_TIME 0"

primrec cursor_top :: "cursor \<Rightarrow> Meas option" where
  "cursor_top (FullC f) = FullCursor_top f"
| "cursor_top (ChunkC r) = ChunkReader_top r"
| "cursor_top (MergeSortCursor n rs tops ends mn mx) =
    (let i = get_cursor_with_min_time tops in if i < length rs then map cursor_top rs ! i else None)"
| "cursor_top (LinearCursor n rs mn mx) = (if rs = [] then None else hd (map cursor_top rs))"

definition get_top_time :: "cursor \<Rightarrow> Time option" where
  "get_top_time r = (if cursor_is_end r then Some MAX_TIME else map_option m_time (cursor_top r))"

section \<open>Reading\<close>

text \<open>An upper bound of the values a cursor still returns; it bounds the loops below.\<close>

primrec pending :: "cursor \<Rightarrow> nat" where
  "pending (FullC f) = length (fc_ma f) - fc_index f"
| "pending (ChunkC r) = Suc (cr_count r)"
| "pending (MergeSortCursor n rs tops ends mn mx) = sum_list (map pending rs)"
| "pending (LinearCursor n rs mn mx) = sum_list (map pending rs)"

primrec height :: "cursor \<Rightarrow> nat" where
  "height (FullC f) = 0"
| "height (ChunkC r) = 0"
| "height (MergeSortCursor n rs tops ends mn mx) = Suc (foldr max (map height rs) 0)"
| "height (LinearCursor n rs mn mx) = Suc (foldr max (map height rs) 0)"

text \<open>The inner loop of \<^verbatim>\<open>MergeSortCursor::readNext\<close>: read while the top has the time \<open>t\<close>.  The
  arguments \<open>is_end\<close>, \<open>tp\<close> and \<open>rd\<close> are the virtual functions of the sub-cursor.  Without fuel
  the loop has not ended.\<close>

fun skip_time :: "('c \<Rightarrow> bool) \<Rightarrow> ('c \<Rightarrow> Meas option) \<Rightarrow> ('c \<Rightarrow> (Meas \<times> 'c) option) \<Rightarrow> nat \<Rightarrow> Time \<Rightarrow> 'c \<Rightarrow> 'c option" where
  "skip_time is_end tp rd 0 t r = None"
| "skip_time is_end tp rd (Suc fuel) t r =
    (if is_end r then Some r
     else do {
       m \<leftarrow> tp r;
       if m_time m \<noteq> t then Some r
       else do { (_, r1) \<leftarrow> rd r; skip_time is_end tp rd fuel t r1 } })"

text \<open>The loop over all sub-cursors.\<close>

fun merge_skip :: "(cursor \<Rightarrow> (Meas \<times> cursor) option) \<Rightarrow> Time \<Rightarrow> cursor list \<Rightarrow> Time list \<Rightarrow> bool list \<Rightarrow>
    (cursor list \<times> Time list \<times> bool list) option" where
  "merge_skip rd t (r # rs) (tt # tops) (e # ends) = do {
     (r1, tt1, e1) \<leftarrow>
       (if \<not> e \<and> tt = t then do {
          r1 \<leftarrow> skip_time cursor_is_end cursor_top rd (Suc (pending r)) t r;
          tt1 \<leftarrow> get_top_time r1;
          Some (r1, tt1, cursor_is_end r1) }
        else Some (r, tt, e));
     (rs1, tops1, ends1) \<leftarrow> merge_skip rd t rs tops ends;
     Some (r1 # rs1, tt1 # tops1, e1 # ends1) }"
| "merge_skip rd t [] tops ends = Some ([], tops, ends)"
| "merge_skip rd t rs tops ends = None"

definition merge_readNext :: "(cursor \<Rightarrow> (Meas \<times> cursor) option) \<Rightarrow> cursor list \<Rightarrow> Time list \<Rightarrow> bool list \<Rightarrow>
    (Meas \<times> cursor list \<times> Time list \<times> bool list) option" where
  "merge_readNext rd rs tops ends = (
     let i = get_cursor_with_min_time tops in
     if i < length rs then do {
       (result, r) \<leftarrow> rd (rs ! i);
       tt \<leftarrow> get_top_time r;
       (rs1, tops1, ends1) \<leftarrow>
         merge_skip rd (m_time result) (rs[i := r]) (tops[i := tt]) (ends[i := cursor_is_end r]);
       Some (result, rs1, tops1, ends1) }
     else None)"

text \<open>\<open>readNext\<close> dispatches on the class of the cursor; the sub-cursors are one level deeper.
  The first argument is the depth of the calls.\<close>

fun read_next :: "nat \<Rightarrow> cursor \<Rightarrow> (Meas \<times> cursor) option" where
  "read_next depth (FullC f) = map_option (\<lambda>(m, f1). (m, FullC f1)) (FullCursor_readNext f)"
| "read_next depth (ChunkC r) = map_option (\<lambda>(m, r1). (m, ChunkC r1)) (ChunkReader_readNext r)"
| "read_next (Suc depth) (MergeSortCursor n rs tops ends mn mx) = do {
     (m, rs1, tops1, ends1) \<leftarrow> merge_readNext (read_next depth) rs tops ends;
     Some (m, MergeSortCursor n rs1 tops1 ends1 mn mx) }"
| "read_next (Suc depth) (LinearCursor n rs mn mx) =
    (case rs of [] \<Rightarrow> None
     | r # rest \<Rightarrow> do {
         (m, r1) \<leftarrow> read_next depth r;
         Some (m, LinearCursor n (if cursor_is_end r1 then rest else r1 # rest) mn mx) })"
| "read_next 0 _ = None"

definition readNext :: "cursor \<Rightarrow> (Meas \<times> cursor) option" where
  "readNext c = read_next (height c) c"

section \<open>Building cursors\<close>

text \<open>The sub-cursors of a cursor that is merged or chained again are taken over.\<close>

fun unpack_merge_readers :: "cursor list \<Rightarrow> cursor list" where
  "unpack_merge_readers [] = []"
| "unpack_merge_readers (MergeSortCursor n subs tops ends mn mx # rs) = subs @ unpack_merge_readers rs"
| "unpack_merge_readers (r # rs) = r # unpack_merge_readers rs"

fun unpack_linear_readers :: "cursor list \<Rightarrow> cursor list" where
  "unpack_linear_readers [] = []"
| "unpack_linear_readers (LinearCursor n subs mn mx # rs) = subs @ unpack_linear_readers rs"
| "unpack_linear_readers (r # rs) = r # unpack_linear_readers rs"

definition MergeSortCursor_new :: "cursor list \<Rightarrow> cursor option" where
  "MergeSortCursor_new readers = (let rs = unpack_merge_readers readers in do {
     tops \<leftarrow> those (map get_top_time rs);
     Some (MergeSortCursor (sum_list (map cursor_count rs)) rs tops (replicate (length rs) False)
       (fold (\<lambda>r t. min t (cursor_minTime r)) rs MAX_TIME)
       (fold (\<lambda>r t. max t (cursor_maxTime r)) rs MIN_TIME)) })"

text \<open>\<^verbatim>\<open>std::sort\<close> by the minimal time; of the admissible orders of equal elements the stable one.\<close>

definition LinearCursor_new :: "cursor list \<Rightarrow> cursor" where
  "LinearCursor_new readers = (let rs = sort_key cursor_minTime (unpack_linear_readers readers) in
     LinearCursor (sum_list (map cursor_count rs)) rs
       (fold (\<lambda>r t. min t (cursor_minTime r)) rs MAX_TIME)
       (fold (\<lambda>r t. max t (cursor_maxTime r)) rs MIN_TIME))"

definition is_linear_readers :: "cursor \<Rightarrow> cursor \<Rightarrow> bool" where
  "is_linear_readers r1 r2 \<longleftrightarrow>
     \<not> intervalsIntersection (cursor_minTime r1) (cursor_maxTime r1) (cursor_minTime r2) (cursor_maxTime r2)"

text \<open>The state of the grouping loops of \<^verbatim>\<open>colapseCursors\<close>: \<^verbatim>\<open>overlapped\<close>, a \<^verbatim>\<open>std::map\<close> of
  \<^verbatim>\<open>std::set\<close>s kept as lists in iteration order, and \<^verbatim>\<open>processed_pos\<close>.\<close>

type_synonym groups = "(nat \<times> nat list) list"

fun insert_into_group :: "nat \<Rightarrow> nat \<Rightarrow> groups \<Rightarrow> groups option" where
  "insert_into_group i j [] = None"
| "insert_into_group i j ((k, ps) # gs) =
    (if i \<in> set ps then Some ((k, insort_insert j ps) # gs)
     else map_option (Cons (k, ps)) (insert_into_group i j gs))"

fun insert_group :: "nat \<Rightarrow> nat \<Rightarrow> groups \<Rightarrow> groups" where
  "insert_group i j [] = [(i, [j])]"
| "insert_group i j ((k, ps) # gs) =
    (if k = i then (k, insort_insert j ps) # gs
     else if i < k then (i, [j]) # (k, ps) # gs
     else (k, ps) # insert_group i j gs)"

fun collapse_inner :: "cursor list \<Rightarrow> nat \<Rightarrow> nat list \<Rightarrow> groups \<times> nat set \<times> bool \<Rightarrow> groups \<times> nat set \<times> bool" where
  "collapse_inner rv i [] st = st"
| "collapse_inner rv i (j # js) (overlapped, processed_pos, have_overlap) =
    (if i \<noteq> j \<and> \<not> is_linear_readers (rv ! i) (rv ! j) \<and> j \<notin> processed_pos then
       collapse_inner rv i js
         (case insert_into_group i j overlapped of
            Some gs \<Rightarrow> gs
          | None \<Rightarrow> insert_group i j overlapped,
          insert j (insert i processed_pos), True)
     else collapse_inner rv i js (overlapped, processed_pos, have_overlap))"

fun collapse_outer :: "cursor list \<Rightarrow> nat list \<Rightarrow> groups \<times> nat set \<times> nat list \<Rightarrow> groups \<times> nat set \<times> nat list" where
  "collapse_outer rv [] st = st"
| "collapse_outer rv (i # is) (overlapped, processed_pos, result_readers) =
    (let (gs, ps, have_overlap) = collapse_inner rv i [0..<length rv] (overlapped, processed_pos, False) in
     collapse_outer rv is (gs, ps,
       if i \<notin> ps \<and> \<not> have_overlap then result_readers @ [i] else result_readers))"

text \<open>The positions that stay alone and the groups that are merged.\<close>

definition collapse_plan :: "cursor list \<Rightarrow> nat list \<times> groups" where
  "collapse_plan rv = (let (overlapped, _, result_readers) = collapse_outer rv [0..<length rv] ([], {}, []) in
     (result_readers, overlapped))"

definition plan_positions :: "nat list \<times> groups \<Rightarrow> nat list" where
  "plan_positions p = fst p @ concat (map (\<lambda>(k, ps). k # ps) (snd p))"

text \<open>The readers are shared pointers.  If the plan uses a reader twice, two cursors advance one
  object and one of them reads past its end; the model has no value then.\<close>

definition colapseCursors :: "cursor list \<Rightarrow> cursor option" where
  "colapseCursors rv = (let (result_readers, overlapped) = collapse_plan rv in
     if distinct (plan_positions (result_readers, overlapped)) then do {
       merged \<leftarrow> those (map (\<lambda>(k, ps). MergeSortCursor_new (rv ! k # map ((!) rv) ps)) overlapped);
       Some (LinearCursor_new (map ((!) rv) result_readers @ merged)) }
     else None)"

text \<open>\<^verbatim>\<open>Id2CursorsList\<close> and \<^verbatim>\<open>Id2Cursor\<close> as association lists in iteration order.\<close>

fun colapseCursors_by_id :: "(Id \<times> cursor list) list \<Rightarrow> (Id \<times> cursor) list option" where
  "colapseCursors_by_id [] = Some []"
| "colapseCursors_by_id ((i, rs) # i2r) = do {
     c \<leftarrow> (if length rs = 1 then Some (hd rs) else colapseCursors rs);
     rest \<leftarrow> colapseCursors_by_id i2r;
     Some ((i, c) # rest) }"

section \<open>Clients of a cursor\<close>

text \<open>The loops of \<^verbatim>\<open>ICursor\<close> call the virtual functions \<^verbatim>\<open>is_end\<close> and \<^verbatim>\<open>readNext\<close>.  The callback has
  a state of its own, the test \<^verbatim>\<open>is_canceled\<close> and the call \<^verbatim>\<open>apply\<close>.\<close>

fun apply_loop :: "('c \<Rightarrow> bool) \<Rightarrow> ('c \<Rightarrow> (Meas \<times> 'c) option) \<Rightarrow> ('s \<Rightarrow> bool) \<Rightarrow> (Meas \<Rightarrow> 's \<Rightarrow> 's) \<Rightarrow>
    (Meas \<Rightarrow> bool) \<Rightarrow> nat \<Rightarrow> 'c \<Rightarrow> 's \<Rightarrow> ('s \<times> 'c) option" where
  "apply_loop is_end rd is_canceled clbk sel 0 c s = None"
| "apply_loop is_end rd is_canceled clbk sel (Suc fuel) c s =
    (if is_end c then Some (s, c)
     else if is_canceled s then Some (s, c)
     else do {
       (v, c1) \<leftarrow> rd c;
       apply_loop is_end rd is_canceled clbk sel fuel c1 (if sel v then clbk v s else s) })"

definition cursor_apply :: "('s \<Rightarrow> bool) \<Rightarrow> (Meas \<Rightarrow> 's \<Rightarrow> 's) \<Rightarrow> cursor \<Rightarrow> 's \<Rightarrow> ('s \<times> cursor) option" where
  "cursor_apply is_canceled clbk c s =
    apply_loop cursor_is_end readNext is_canceled clbk (\<lambda>_. True) (Suc (pending c)) c s"

definition cursor_apply_query :: "('s \<Rightarrow> bool) \<Rightarrow> (Meas \<Rightarrow> 's \<Rightarrow> 's) \<Rightarrow> QueryInterval \<Rightarrow> cursor \<Rightarrow> 's \<Rightarrow> ('s \<times> cursor) option" where
  "cursor_apply_query is_canceled clbk q c s =
    apply_loop cursor_is_end readNext is_canceled clbk
      (\<lambda>v. inQueryInterval v (q_ids q) (q_flag q) (q_from q) (q_to q)) (Suc (pending c)) c s"

text \<open>\<^verbatim>\<open>read_time_point\<close>; its local \<^verbatim>\<open>result_set\<close> is never set, so a matching value always replaces
  the result.\<close>

fun time_point_loop :: "('c \<Rightarrow> bool) \<Rightarrow> ('c \<Rightarrow> (Meas \<times> 'c) option) \<Rightarrow> QueryTimePoint \<Rightarrow> nat \<Rightarrow> 'c \<Rightarrow> bool \<Rightarrow> Meas \<Rightarrow> Meas option" where
  "time_point_loop is_end rd q 0 c result_set result = None"
| "time_point_loop is_end rd q (Suc fuel) c result_set result =
    (if is_end c then Some result
     else do {
       (m, c1) \<leftarrow> rd c;
       time_point_loop is_end rd q fuel c1 result_set
         (if m_time m \<le> q_time_point q \<and> inQuery m (q_ids q) (q_flag q)
          then if \<not> result_set then m else if m_time result < m_time m then m else result
          else result) })"

definition read_time_point :: "QueryTimePoint \<Rightarrow> cursor \<Rightarrow> Meas option" where
  "read_time_point q c = time_point_loop cursor_is_end readNext q (Suc (pending c)) c False Meas_empty"

text \<open>All values a cursor still returns, by the loop \<^verbatim>\<open>while (!is_end()) readNext()\<close>.\<close>

definition read_values :: "cursor \<Rightarrow> Meas list option" where
  "read_values c = map_option fst (cursor_apply (\<lambda>_. False) (\<lambda>m acc. acc @ [m]) c [])"

end
