(* ===== verification/MergeSpec.thy ===== *)
theory MergeSpec
  imports Measurement
begin

text \<open>
  The abstract specification of merging time series: the list a merge of value lists stands for
  and its characterisation for lists ordered by time.
\<close>

section \<open>Merging lists of values\<close>

text \<open>The smallest first element, of the earliest list among equals.\<close>

fun first_min :: "Meas list list \<Rightarrow> Meas option" where
  "first_min [] = None"
| "first_min ([] # vss) = first_min vss"
| "first_min ((m # ms) # vss) =
    (case first_min vss of None \<Rightarrow> Some m | Some n \<Rightarrow> if m_time m \<le> m_time n then Some m else Some n)"

abbreviation drop_time :: "Time \<Rightarrow> Meas list \<Rightarrow> Meas list" where
  "drop_time t \<equiv> dropWhile (\<lambda>x. m_time x = t)"

lemma first_min_None: "first_min vss = None \<longleftrightarrow> (\<forall>vs \<in> set vss. vs = [])"
  by (induction vss rule: first_min.induct) (auto split: option.splits)

lemma first_min_mem: "first_min vss = Some m \<Longrightarrow> \<exists>ms. m # ms \<in> set vss"
  by (induction vss rule: first_min.induct) (auto split: option.splits if_splits)

lemma first_min_le: "first_min vss = Some m \<Longrightarrow> n # ns \<in> set vss \<Longrightarrow> m_time m \<le> m_time n"
  by (induction vss arbitrary: m rule: first_min.induct)
    (auto simp: first_min_None split: option.splits if_splits)

lemma sum_drop_time_le: "sum_list (map (\<lambda>vs. length (drop_time t vs)) vss) \<le> sum_list (map length vss)"
  by (induction vss) (auto intro: add_mono length_dropWhile_le)

lemma sum_drop_time_less:
  "m # ms \<in> set vss \<Longrightarrow> sum_list (map (\<lambda>vs. length (drop_time (m_time m) vs)) vss) < sum_list (map length vss)"
proof (induction vss)
  case (Cons vs vss)
  then consider "vs = m # ms" | "m # ms \<in> set vss" by auto
  then show ?case
  proof cases
    case 1
    have "length (drop_time (m_time m) ms) \<le> length ms" by (rule length_dropWhile_le)
    then show ?thesis using 1 sum_drop_time_le [of "m_time m" vss] by simp
  next
    case 2
    have "length (drop_time (m_time m) vs) \<le> length vs" by (rule length_dropWhile_le)
    then show ?thesis using Cons.IH [OF 2] by simp
  qed
qed simp

function merged :: "Meas list list \<Rightarrow> Meas list" where
  "merged vss = (case first_min vss of None \<Rightarrow> [] | Some m \<Rightarrow> m # merged (map (drop_time (m_time m)) vss))"
  by pat_completeness auto

termination merged
proof (relation "measure (\<lambda>vss. sum_list (map length vss))")
  fix vss m assume "first_min vss = Some m"
  then obtain ms where "m # ms \<in> set vss" using first_min_mem by blast
  from sum_drop_time_less [OF this]
  show "(map (drop_time (m_time m)) vss, vss) \<in> measure (\<lambda>vss. sum_list (map length vss))"
    by (simp add: comp_def)
qed simp

declare merged.simps [simp del]

lemma merged_None: "first_min vss = None \<Longrightarrow> merged vss = []"
  by (simp add: merged.simps)

lemma merged_Some: "first_min vss = Some m \<Longrightarrow> merged vss = m # merged (map (drop_time (m_time m)) vss)"
  by (subst merged.simps) simp

lemma merged_eq_Nil: "merged vss = [] \<longleftrightarrow> (\<forall>vs \<in> set vss. vs = [])"
  by (cases "first_min vss") (auto simp: merged_None merged_Some first_min_None [symmetric])

lemma length_merged: "length (merged vss) \<le> sum_list (map length vss)"
proof (induction vss rule: merged.induct)
  case (1 vss)
  show ?case
  proof (cases "first_min vss")
    case (Some m)
    then obtain ms where "m # ms \<in> set vss" using first_min_mem by blast
    from sum_drop_time_less [OF this] show ?thesis
      using 1 [OF Some] by (simp add: merged_Some [OF Some] comp_def)
  qed (simp add: merged_None)
qed

section \<open>Series ordered by time\<close>

definition time_sorted :: "Meas list \<Rightarrow> bool" where
  "time_sorted ms \<longleftrightarrow> sorted_wrt (\<le>) (map m_time ms)"

definition time_strict :: "Meas list \<Rightarrow> bool" where
  "time_strict ms \<longleftrightarrow> sorted_wrt (<) (map m_time ms)"

lemma time_sorted_Cons [simp]:
  "time_sorted [] = True"
  "time_sorted (m # ms) \<longleftrightarrow> (\<forall>x \<in> set ms. m_time m \<le> m_time x) \<and> time_sorted ms"
  by (auto simp: time_sorted_def)

lemma time_strict_Cons [simp]:
  "time_strict [] = True"
  "time_strict (m # ms) \<longleftrightarrow> (\<forall>x \<in> set ms. m_time m < m_time x) \<and> time_strict ms"
  by (auto simp: time_strict_def)

lemma time_strict_sorted: "time_strict ms \<Longrightarrow> time_sorted ms"
  by (induction ms) (auto intro: less_imp_le)

lemma time_sorted_drop: "time_sorted ms \<Longrightarrow> time_sorted (drop_time t ms)"
  by (induction ms) auto

lemma set_drop_time: "time_sorted ms \<Longrightarrow> \<forall>x \<in> set ms. t \<le> m_time x \<Longrightarrow>
    set (drop_time t ms) = {x \<in> set ms. m_time x \<noteq> t}"
  by (induction ms) force+

lemma find_drop_time: "t \<noteq> t' \<Longrightarrow> find (\<lambda>x. m_time x = t') (drop_time t ms) = find (\<lambda>x. m_time x = t') ms"
  by (induction ms) auto

lemma find_append: "find P (xs @ ys) = (case find P xs of None \<Rightarrow> find P ys | Some x \<Rightarrow> Some x)"
  by (induction xs) auto

lemma find_concat_drop_time:
  "t \<noteq> t' \<Longrightarrow> find (\<lambda>x. m_time x = t') (concat (map (drop_time t) vss)) = find (\<lambda>x. m_time x = t') (concat vss)"
  by (induction vss) (simp_all add: find_append find_drop_time split: option.split)

lemma first_min_least:
  assumes "first_min vss = Some m" "\<forall>vs \<in> set vss. time_sorted vs" "x \<in> set vs" "vs \<in> set vss"
  shows "m_time m \<le> m_time x"
proof -
  obtain y ys where vs: "vs = y # ys" using assms(3) by (cases vs) auto
  then have "m_time m \<le> m_time y" using first_min_le assms(1,4) by blast
  also have "m_time y \<le> m_time x" using assms(2-4) vs by auto
  finally show ?thesis .
qed

lemma find_first_min:
  assumes "first_min vss = Some m" "\<forall>vs \<in> set vss. time_sorted vs"
  shows "find (\<lambda>x. m_time x = m_time m) (concat vss) = Some m"
  using assms
proof (induction vss arbitrary: m rule: first_min.induct)
  case (3 n ns vss)
  show ?case
  proof (cases "m_time n = m_time m")
    case True
    then have "n = m" using 3 by (auto split: option.splits if_splits)
    then show ?thesis by simp
  next
    case False
    with 3 have min: "first_min vss = Some m" "m_time m < m_time n"
      by (auto split: option.splits if_splits)
    then have "find (\<lambda>x. m_time x = m_time m) (n # ns) = None"
      using "3.prems"(2) by (auto simp: find_None_iff)
    then show ?thesis using "3.IH" [OF min(1)] "3.prems"(2) by (auto simp: find_append split: if_splits)
  qed
qed simp_all

lemma merged_set: "m \<in> set (merged vss) \<Longrightarrow> \<exists>vs \<in> set vss. m \<in> set vs"
proof (induction vss rule: merged.induct)
  case (1 vss)
  show ?case
  proof (cases "first_min vss")
    case (Some n)
    then show ?thesis
      using 1 first_min_mem [OF Some] by (force simp: merged_Some [OF Some] dest: set_dropWhileD)
  qed (use 1 in \<open>simp add: merged_None\<close>)
qed

text \<open>The three facts that determine the merge of ordered series: it is strictly ordered, it has
  exactly the times of the series, and at each time the value of the first series that has one.\<close>

lemma merged_strict: "\<forall>vs \<in> set vss. time_sorted vs \<Longrightarrow> time_strict (merged vss)"
proof (induction vss rule: merged.induct)
  case (1 vss)
  show ?case
  proof (cases "first_min vss")
    case (Some m)
    have "m_time m < m_time x" if x: "x \<in> set (merged (map (drop_time (m_time m)) vss))" for x
    proof -
      obtain vs where vs: "vs \<in> set vss" "x \<in> set (drop_time (m_time m) vs)"
        using merged_set [OF x] by auto
      have "\<forall>x \<in> set vs. m_time m \<le> m_time x"
        using first_min_least [OF Some "1.prems"] vs(1) by blast
      then show ?thesis
        using vs set_drop_time [of vs "m_time m"] "1.prems" by force
    qed
    moreover have "time_strict (merged (map (drop_time (m_time m)) vss))"
      using "1.IH" [OF Some] "1.prems" by (simp add: time_sorted_drop)
    ultimately show ?thesis by (simp add: merged_Some [OF Some])
  qed (simp add: merged_None)
qed

lemma merged_times:
  "\<forall>vs \<in> set vss. time_sorted vs \<Longrightarrow> m_time ` set (merged vss) = (\<Union>vs \<in> set vss. m_time ` set vs)"
proof (induction vss rule: merged.induct)
  case (1 vss)
  show ?case
  proof (cases "first_min vss")
    case (Some m)
    have d: "set (drop_time (m_time m) vs) = {x \<in> set vs. m_time x \<noteq> m_time m}" if "vs \<in> set vss" for vs
      using set_drop_time [of vs "m_time m"] first_min_least [OF Some "1.prems"] "1.prems" that by blast
    have "m_time ` set (merged vss) =
        insert (m_time m) (\<Union>vs \<in> set vss. m_time ` set (drop_time (m_time m) vs))"
      using "1.IH" [OF Some] "1.prems" by (simp add: merged_Some [OF Some] time_sorted_drop)
    also have "\<dots> = (\<Union>vs \<in> set vss. m_time ` set vs)"
      using d first_min_mem [OF Some] by force
    finally show ?thesis .
  qed (simp add: merged_None first_min_None)
qed

lemma merged_find:
  "\<forall>vs \<in> set vss. time_sorted vs \<Longrightarrow> m \<in> set (merged vss) \<Longrightarrow>
     find (\<lambda>x. m_time x = m_time m) (concat vss) = Some m"
proof (induction vss rule: merged.induct)
  case (1 vss)
  show ?case
  proof (cases "first_min vss")
    case (Some n)
    show ?thesis
    proof (cases "m = n")
      case True
      then show ?thesis using find_first_min Some "1.prems"(1) by simp
    next
      case False
      then have m: "m \<in> set (merged (map (drop_time (m_time n)) vss))"
        using "1.prems"(2) by (simp add: merged_Some [OF Some])
      have "m_time n \<noteq> m_time m"
        using merged_strict [OF "1.prems"(1)] m by (auto simp: merged_Some [OF Some])
      then show ?thesis
        using "1.IH" [OF Some _ m] "1.prems"(1) by (simp add: time_sorted_drop find_concat_drop_time)
    qed
  qed (use 1 in \<open>simp add: merged_None\<close>)
qed

end
