(* ===== verification/CursorContract.thy ===== *)
theory CursorContract
  imports Cursors MergeSpec
begin

text \<open>
  The contract of \<^verbatim>\<open>ICursor\<close>: a cursor stands for the list of values it still returns.  Every
  class of cursors is shown to implement it, the clients of a cursor are proved once over the
  contract, and the list a merge of cursors stands for is characterised.
\<close>

section \<open>The contract\<close>

locale icursor =
  fixes is_end :: "'c \<Rightarrow> bool"
    and tp :: "'c \<Rightarrow> Meas option"
    and rd :: "'c \<Rightarrow> (Meas \<times> 'c) option"
    and rep :: "'c \<Rightarrow> Meas list \<Rightarrow> bool"
  assumes end_rep: "rep c ms \<Longrightarrow> is_end c \<longleftrightarrow> ms = []"
    and top_rep: "rep c (m # ms) \<Longrightarrow> tp c = Some m"
    and rd_rep: "rep c (m # ms) \<Longrightarrow> \<exists>c'. rd c = Some (m, c') \<and> rep c' ms"
begin

lemma skip_time_rep:
  "rep c ms \<Longrightarrow> length ms < fuel \<Longrightarrow>
     \<exists>c'. skip_time is_end tp rd fuel t c = Some c' \<and> rep c' (dropWhile (\<lambda>x. m_time x = t) ms)"
proof (induction ms arbitrary: c fuel)
  case Nil
  then show ?case using end_rep [of c "[]"] by (cases fuel) auto
next
  case (Cons m ms)
  obtain c' where c': "rd c = Some (m, c')" "rep c' ms" using rd_rep [OF Cons.prems(1)] by blast
  obtain n where n: "fuel = Suc n" using Cons.prems(2) by (cases fuel) auto
  show ?case
    using Cons.IH [OF c'(2), of n] c'(1) Cons.prems n end_rep [OF Cons.prems(1)] top_rep [OF Cons.prems(1)] by auto
qed

lemma apply_loop_rep:
  assumes "rep c ms" "length ms < fuel"
  shows "\<exists>c'. apply_loop is_end rd (\<lambda>_. False) clbk sel fuel c s = Some (fold clbk (filter sel ms) s, c') \<and> rep c' []"
  using assms
proof (induction ms arbitrary: c fuel s)
  case Nil
  then show ?case using end_rep [of c "[]"] by (cases fuel) auto
next
  case (Cons m ms)
  obtain c' where c': "rd c = Some (m, c')" "rep c' ms" using rd_rep [OF Cons.prems(1)] by blast
  obtain n where n: "fuel = Suc n" using Cons.prems(2) by (cases fuel) auto
  show ?case
    using Cons.IH [OF c'(2), of n] c'(1) Cons.prems n end_rep [OF Cons.prems(1)] by auto
qed

lemma time_point_loop_rep:
  assumes "rep c ms" "length ms < fuel"
  shows "time_point_loop is_end rd q fuel c False m0 =
    Some (last (m0 # filter (\<lambda>m. m_time m \<le> q_time_point q \<and> inQuery m (q_ids q) (q_flag q)) ms))"
  using assms
proof (induction ms arbitrary: c fuel m0)
  case Nil
  then show ?case using end_rep [of c "[]"] by (cases fuel) auto
next
  case (Cons m ms)
  obtain c' where c': "rd c = Some (m, c')" "rep c' ms" using rd_rep [OF Cons.prems(1)] by blast
  obtain n where n: "fuel = Suc n" using Cons.prems(2) by (cases fuel) auto
  show ?case
    using Cons.IH [OF c'(2), of n] c'(1) Cons.prems n end_rep [OF Cons.prems(1)] by auto
qed

end

section \<open>Chunk readers and full cursors\<close>

interpretation chunk_cursor: icursor ChunkReader_is_end ChunkReader_top ChunkReader_readNext chunk_reader_rep
  by unfold_locales (simp_all add: chunk_reader_is_end chunk_reader_top chunk_reader_readNext)

text \<open>The values of a time-ordered array without the duplicates of a time.\<close>

fun dedup :: "Meas list \<Rightarrow> Meas list" where
  "dedup [] = []"
| "dedup (m # ms) = m # dedup (dropWhile (\<lambda>x. m_time x = m_time m) ms)"

definition full_rep :: "FullCursor \<Rightarrow> Meas list \<Rightarrow> bool" where
  "full_rep f ms \<longleftrightarrow> ms = dedup (drop (fc_index f) (fc_ma f))"

lemma drop_full_skip: "drop (full_skip ma t i) ma = dropWhile (\<lambda>x. m_time x = t) (drop i ma)"
proof (induction ma t i rule: full_skip.induct)
  case (1 ma t i)
  then show ?case
    by (cases "i < length ma") (auto simp: full_skip.simps [of ma t i] Cons_nth_drop_Suc [symmetric])
qed

interpretation full_cursor: icursor FullCursor_is_end FullCursor_top FullCursor_readNext full_rep
proof
  fix f ms assume rep: "full_rep f ms"
  show "FullCursor_is_end f \<longleftrightarrow> ms = []"
    using rep by (cases "drop (fc_index f) (fc_ma f)") (auto simp: full_rep_def FullCursor_is_end_def)
next
  fix f m ms assume rep: "full_rep f (m # ms)"
  then have i: "fc_index f < length (fc_ma f)"
    by (cases "fc_index f < length (fc_ma f)") (auto simp: full_rep_def)
  then have d: "drop (fc_index f) (fc_ma f) = fc_ma f ! fc_index f # drop (Suc (fc_index f)) (fc_ma f)"
    by (rule Cons_nth_drop_Suc [symmetric])
  show "FullCursor_top f = Some m"
    using rep i d by (simp add: full_rep_def FullCursor_top_def FullCursor_is_end_def)
  show "\<exists>f'. FullCursor_readNext f = Some (m, f') \<and> full_rep f' ms"
    using rep i d by (simp add: full_rep_def FullCursor_readNext_def FullCursor_is_end_def Let_def drop_full_skip)
qed

section \<open>All cursors\<close>

definition head_time :: "Meas list \<Rightarrow> Time" where
  "head_time vs = (case vs of [] \<Rightarrow> MAX_TIME | m # _ \<Rightarrow> m_time m)"

definition below_max :: "Meas list \<Rightarrow> bool" where
  "below_max vs \<longleftrightarrow> (\<forall>m \<in> set vs. m_time m < MAX_TIME)"

text \<open>The list a cursor stands for.  A merge knows the first time of its sub-cursors and which of
  them have ended; the sub-cursors of a chain are not at their end.\<close>

inductive cursor_rep :: "cursor \<Rightarrow> Meas list \<Rightarrow> bool" where
  rep_full: "full_rep f ms \<Longrightarrow> cursor_rep (FullC f) ms"
| rep_chunk: "chunk_reader_rep r ms \<Longrightarrow> cursor_rep (ChunkC r) ms"
| rep_merge: "list_all2 cursor_rep rs vss \<Longrightarrow> \<forall>vs \<in> set vss. below_max vs \<Longrightarrow>
    cursor_rep (MergeSortCursor n rs (map head_time vss) (map (\<lambda>vs. vs = []) vss) mn mx) (merged vss)"
| rep_linear: "list_all2 cursor_rep rs vss \<Longrightarrow> [] \<notin> set vss \<Longrightarrow>
    cursor_rep (LinearCursor n rs mn mx) (concat vss)"

inductive_cases cursor_rep_fullE: "cursor_rep (FullC f) ms"

inductive_cases cursor_rep_chunkE: "cursor_rep (ChunkC r) ms"

inductive_cases cursor_rep_mergeE: "cursor_rep (MergeSortCursor n rs tops ends mn mx) ms"

inductive_cases cursor_rep_linearE: "cursor_rep (LinearCursor n rs mn mx) ms"

lemma cursor_end_rep: "cursor_rep c ms \<Longrightarrow> cursor_is_end c \<longleftrightarrow> ms = []"
proof (induction rule: cursor_rep.induct)
  case (rep_merge rs vss n mn mx)
  then show ?case by (auto simp: merged_eq_Nil list_all_iff)
next
  case (rep_linear rs vss n mn mx)
  then show ?case by (cases vss) auto
qed (auto simp: full_cursor.end_rep chunk_cursor.end_rep)

text \<open>The minimum search returns the position of the first smallest head.\<close>

lemma min_time_loop_spec:
  assumes "\<forall>vs \<in> set vss. below_max vs"
  shows "min_time_loop (map head_time vss) i t0 k0 =
    (case first_min vss of
       None \<Rightarrow> k0
     | Some m \<Rightarrow> if m_time m < t0
         then i + length (takeWhile (\<lambda>vs. head_time vs \<noteq> m_time m) vss) else k0)"
  using assms
proof (induction vss arbitrary: i t0 k0 rule: first_min.induct)
  case (2 vss)
  then show ?case
    by (auto simp: head_time_def below_max_def split: option.splits dest!: first_min_mem)
next
  case (3 m ms vss)
  then have "m_time m \<noteq> MAX_TIME" by (auto simp: below_max_def)
  then show ?case
    using 3 by (auto simp: head_time_def split: option.splits)
qed simp

lemma min_index_first:
  assumes "first_min vss = Some m" "\<forall>vs \<in> set vss. below_max vs"
  shows "\<exists>ms. length (takeWhile (\<lambda>vs. head_time vs \<noteq> m_time m) vss) < length vss \<and>
    vss ! length (takeWhile (\<lambda>vs. head_time vs \<noteq> m_time m) vss) = m # ms"
  using assms
proof (induction vss arbitrary: m rule: first_min.induct)
  case (2 vss)
  then have "m_time m \<noteq> MAX_TIME"
    using first_min_mem [of vss m] by (fastforce simp: below_max_def)
  then show ?case using 2 by (simp add: head_time_def)
next
  case (3 n ns vss)
  then show ?case by (auto simp: head_time_def split: option.splits if_splits)
qed simp

lemma get_cursor_with_min_time_spec:
  assumes "first_min vss = Some m" "\<forall>vs \<in> set vss. below_max vs"
  shows "\<exists>ms. get_cursor_with_min_time (map head_time vss) < length vss \<and>
    vss ! get_cursor_with_min_time (map head_time vss) = m # ms"
proof -
  have "m_time m < MAX_TIME"
    using first_min_mem [OF assms(1)] assms(2) by (auto simp: below_max_def)
  then show ?thesis
    using min_index_first [OF assms] min_time_loop_spec [OF assms(2), of 0 MAX_TIME 0] assms(1)
    by (simp add: get_cursor_with_min_time_def)
qed

lemma cursor_top_rep: "cursor_rep c ms \<Longrightarrow> ms \<noteq> [] \<Longrightarrow> cursor_top c = Some (hd ms)"
proof (induction rule: cursor_rep.induct)
  case (rep_merge rs vss n mn mx)
  then obtain m where m: "first_min vss = Some m"
    by (cases "first_min vss") (auto simp: merged_None)
  obtain ms where "get_cursor_with_min_time (map head_time vss) < length vss"
    "vss ! get_cursor_with_min_time (map head_time vss) = m # ms"
    using get_cursor_with_min_time_spec [OF m] rep_merge by auto
  then show ?case
    using rep_merge.IH by (auto simp: Let_def merged_Some [OF m] list_all2_conv_all_nth)
next
  case (rep_linear rs vss n mn mx)
  then show ?case by (cases vss) (auto simp: list_all2_Cons2)
next
  case (rep_full f ms)
  then show ?case using full_cursor.top_rep by (cases ms) auto
next
  case (rep_chunk r ms)
  then show ?case using chunk_cursor.top_rep by (cases ms) auto
qed

lemma get_top_time_rep: "cursor_rep c ms \<Longrightarrow> get_top_time c = Some (head_time ms)"
  using cursor_end_rep [of c ms] cursor_top_rep [of c ms]
  by (cases ms) (auto simp: get_top_time_def head_time_def)

lemma length_dedup: "length (dedup ms) \<le> length ms"
proof (induction ms rule: dedup.induct)
  case (2 m ms)
  then show ?case using length_dropWhile_le [of "\<lambda>x. m_time x = m_time m" ms] by simp
qed simp

lemma cursor_pending: "cursor_rep c ms \<Longrightarrow> length ms \<le> pending c"
proof (induction rule: cursor_rep.induct)
  case (rep_full f ms)
  then show ?case using length_dedup [of "drop (fc_index f) (fc_ma f)"] by (simp add: full_rep_def)
next
  case (rep_chunk r ms)
  then show ?case
    using length_cr_values [of "cr_top_value r # _"]
    by (auto simp: chunk_reader_rep_def split: if_splits) (metis length_Cons length_cr_values)
next
  case (rep_merge rs vss n mn mx)
  have "sum_list (map length vss) \<le> sum_list (map pending rs)"
    using rep_merge.IH by (induction rule: list_all2_induct) auto
  then show ?case using length_merged [of vss] by simp
next
  case (rep_linear rs vss n mn mx)
  have "sum_list (map length vss) \<le> sum_list (map pending rs)"
    using rep_linear.IH by (induction rule: list_all2_induct) auto
  then show ?case by (simp add: length_concat)
qed

lemma drop_time_id: "head_time vs \<noteq> t \<or> vs = [] \<Longrightarrow> drop_time t vs = vs"
  by (cases vs) (auto simp: head_time_def)

lemma below_max_drop_time: "below_max vs \<Longrightarrow> below_max (drop_time t vs)"
  by (auto simp: below_max_def dest: set_dropWhileD)

lemma merge_skip_rep:
  assumes ic: "icursor cursor_is_end cursor_top rd rep"
    and sub: "\<And>c ms. rep c ms \<Longrightarrow> cursor_rep c ms"
    and "list_all2 rep rs vss"
  shows "\<exists>rs'. merge_skip rd t rs (map head_time vss) (map (\<lambda>vs. vs = []) vss) =
      Some (rs', map head_time (map (drop_time t) vss), map (\<lambda>vs. vs = []) (map (drop_time t) vss)) \<and>
    list_all2 rep rs' (map (drop_time t) vss)"
  using assms(3)
proof (induction rule: list_all2_induct)
  case (Cons r rs vs vss)
  obtain r' where r': "skip_time cursor_is_end cursor_top rd (Suc (pending r)) t r = Some r'" "rep r' (drop_time t vs)"
    using icursor.skip_time_rep [OF ic Cons.hyps(1), of "Suc (pending r)" t] cursor_pending [OF sub [OF Cons.hyps(1)]]
    by (auto simp: less_Suc_eq_le)
  have top: "get_top_time r' = Some (head_time (drop_time t vs))" "cursor_is_end r' = (drop_time t vs = [])"
    using get_top_time_rep cursor_end_rep sub r'(2) by blast+
  show ?case
  proof (cases "vs \<noteq> [] \<and> head_time vs = t")
    case True
    then show ?thesis using Cons.IH r' top by (auto simp del: dropWhile_eq_Nil_conv)
  next
    case False
    then have "drop_time t vs = vs" using drop_time_id by blast
    then show ?thesis using Cons.IH Cons.hyps(1) False by (auto simp del: dropWhile_eq_Nil_conv)
  qed
qed simp

lemma merge_readNext_rep:
  assumes ic: "icursor cursor_is_end cursor_top rd rep"
    and sub: "\<And>c ms. rep c ms \<Longrightarrow> cursor_rep c ms"
    and rs: "list_all2 rep rs vss" "\<forall>vs \<in> set vss. below_max vs"
    and m: "first_min vss = Some m"
  shows "\<exists>rs'. merge_readNext rd rs (map head_time vss) (map (\<lambda>vs. vs = []) vss) =
      Some (m, rs', map head_time (map (drop_time (m_time m)) vss), map (\<lambda>vs. vs = []) (map (drop_time (m_time m)) vss)) \<and>
    list_all2 rep rs' (map (drop_time (m_time m)) vss)"
proof -
  define i where "i = get_cursor_with_min_time (map head_time vss)"
  obtain ms where i: "i < length vss" "vss ! i = m # ms"
    using get_cursor_with_min_time_spec [OF m rs(2)] by (auto simp: i_def)
  have len: "length rs = length vss" using rs(1) by (rule list_all2_lengthD)
  have "rep (rs ! i) (m # ms)" using rs(1) i by (metis list_all2_nthD2)
  then obtain r where r: "rd (rs ! i) = Some (m, r)" "rep r ms"
    using icursor.rd_rep [OF ic] by blast
  have top: "get_top_time r = Some (head_time ms)" "cursor_is_end r = (ms = [])"
    using get_top_time_rep cursor_end_rep sub r(2) by blast+
  have "list_all2 rep (rs[i := r]) (vss[i := ms])"
    using rs(1) r(2) by (rule list_all2_update_cong)
  moreover have "map (drop_time (m_time m)) (vss[i := ms]) = map (drop_time (m_time m)) vss"
    using i by (simp add: map_update list_update_same_conv)
  ultimately show ?thesis
    using merge_skip_rep [OF ic sub, of "rs[i := r]" "vss[i := ms]" "m_time m"] r(1) top i len
    by (auto simp: merge_readNext_def i_def [symmetric] Let_def map_update)
qed

lemma foldr_max_le: "foldr max xs 0 \<le> (d :: nat) \<longleftrightarrow> (\<forall>x \<in> set xs. x \<le> d)"
  by (induction xs) auto

text \<open>With enough depth for the nesting of the cursor, \<open>read_next\<close> implements the contract.\<close>

definition rep_depth :: "nat \<Rightarrow> cursor \<Rightarrow> Meas list \<Rightarrow> bool" where
  "rep_depth d c ms \<longleftrightarrow> cursor_rep c ms \<and> height c \<le> d"

lemma list_all2_rep_depth:
  "list_all2 (rep_depth d) rs vss \<longleftrightarrow> list_all2 cursor_rep rs vss \<and> (\<forall>r \<in> set rs. height r \<le> d)"
  by (auto simp: rep_depth_def list_all2_conv_all_nth all_set_conv_all_nth)

lemma read_merge_step:
  assumes ic: "icursor cursor_is_end cursor_top (read_next d) (rep_depth d)"
    and rep: "rep_depth (Suc d) (MergeSortCursor n rs tops ends mn mx) (m # ms)"
  shows "\<exists>c'. read_next (Suc d) (MergeSortCursor n rs tops ends mn mx) = Some (m, c') \<and> rep_depth (Suc d) c' ms"
proof -
  obtain vss where vss: "list_all2 cursor_rep rs vss" "\<forall>vs \<in> set vss. below_max vs"
    "tops = map head_time vss" "ends = map (\<lambda>vs. vs = []) vss" "m # ms = merged vss"
    using rep by (auto simp: rep_depth_def elim: cursor_rep_mergeE)
  have fm: "first_min vss = Some m" "ms = merged (map (drop_time (m_time m)) vss)"
    using vss(5) by (cases "first_min vss"; simp add: merged_None merged_Some)+
  have rs: "list_all2 (rep_depth d) rs vss"
    using vss(1) rep by (simp add: list_all2_rep_depth) (simp add: rep_depth_def foldr_max_le)
  obtain rs' where rs': "merge_readNext (read_next d) rs tops ends = Some (m, rs',
      map head_time (map (drop_time (m_time m)) vss), map (\<lambda>vs. vs = []) (map (drop_time (m_time m)) vss))"
    "list_all2 (rep_depth d) rs' (map (drop_time (m_time m)) vss)"
    using merge_readNext_rep [OF ic _ rs vss(2) fm(1)] unfolding vss(3,4) by (auto simp: rep_depth_def)
  have "cursor_rep (MergeSortCursor n rs' (map head_time (map (drop_time (m_time m)) vss))
      (map (\<lambda>vs. vs = []) (map (drop_time (m_time m)) vss)) mn mx) (merged (map (drop_time (m_time m)) vss))"
    using rs'(2) vss(2) by (intro rep_merge) (auto simp: list_all2_rep_depth below_max_drop_time)
  then show ?thesis
    using rs' fm(2) by (auto simp: rep_depth_def list_all2_rep_depth foldr_max_le)
qed

lemma read_linear_step:
  assumes ic: "icursor cursor_is_end cursor_top (read_next d) (rep_depth d)"
    and rep: "rep_depth (Suc d) (LinearCursor n rs mn mx) (m # ms)"
  shows "\<exists>c'. read_next (Suc d) (LinearCursor n rs mn mx) = Some (m, c') \<and> rep_depth (Suc d) c' ms"
proof -
  obtain vss where vss: "list_all2 cursor_rep rs vss" "[] \<notin> set vss" "m # ms = concat vss"
    using rep by (auto simp: rep_depth_def elim: cursor_rep_linearE)
  then obtain vs wss where w: "vss = (m # vs) # wss" "ms = vs @ concat wss"
    by (cases vss) (auto simp: Cons_eq_append_conv)
  then obtain r rest where r: "rs = r # rest" "cursor_rep r (m # vs)" "list_all2 cursor_rep rest wss"
    using vss(1) by (auto simp: list_all2_Cons2)
  have h: "height r \<le> d" "\<forall>r \<in> set rest. height r \<le> d"
    using rep r(1) by (simp_all add: rep_depth_def foldr_max_le)
  obtain r' where r': "read_next d r = Some (m, r')" "rep_depth d r' vs"
    using icursor.rd_rep [OF ic, of r m vs] r(2) h(1) by (auto simp: rep_depth_def)
  define rs' where "rs' = (if cursor_is_end r' then rest else r' # rest)"
  have "cursor_is_end r' \<longleftrightarrow> vs = []" using r'(2) cursor_end_rep by (auto simp: rep_depth_def)
  then have "\<exists>uss. list_all2 cursor_rep rs' uss \<and> [] \<notin> set uss \<and> concat uss = ms"
    using r(3) r'(2) vss(2) w
    by (intro exI [of _ "if vs = [] then wss else vs # wss"]) (auto simp: rs'_def rep_depth_def)
  then have "cursor_rep (LinearCursor n rs' mn mx) ms"
    using rep_linear by blast
  then show ?thesis
    using r'(1) r(1) h r'(2) by (auto simp: rs'_def [symmetric] rep_depth_def foldr_max_le) (auto simp: rs'_def split: if_splits)
qed

lemma icursor_depth: "icursor cursor_is_end cursor_top (read_next d) (rep_depth d)"
proof (induction d)
  case 0
  show ?case
  proof
    fix c m ms assume rep: "rep_depth 0 c (m # ms)"
    then show "\<exists>c'. read_next 0 c = Some (m, c') \<and> rep_depth 0 c' ms"
      using full_cursor.rd_rep chunk_cursor.rd_rep
      by (cases c) (fastforce simp: rep_depth_def intro: rep_full rep_chunk elim: cursor_rep_fullE cursor_rep_chunkE)+
  qed (auto simp: rep_depth_def cursor_end_rep cursor_top_rep)
next
  case (Suc d)
  show ?case
  proof
    fix c m ms assume rep: "rep_depth (Suc d) c (m # ms)"
    show "\<exists>c'. read_next (Suc d) c = Some (m, c') \<and> rep_depth (Suc d) c' ms"
    proof (cases c)
      case (FullC f)
      then show ?thesis using full_cursor.rd_rep rep
        by (fastforce simp: rep_depth_def intro: rep_full elim: cursor_rep_fullE)
    next
      case (ChunkC r)
      then show ?thesis using chunk_cursor.rd_rep rep
        by (fastforce simp: rep_depth_def intro: rep_chunk elim: cursor_rep_chunkE)
    qed (use rep read_merge_step [OF Suc.IH] read_linear_step [OF Suc.IH] in blast)+
  qed (auto simp: rep_depth_def cursor_end_rep cursor_top_rep)
qed

interpretation cursor: icursor cursor_is_end cursor_top readNext cursor_rep
proof
  fix c m ms assume "cursor_rep c (m # ms)"
  then show "\<exists>c'. readNext c = Some (m, c') \<and> cursor_rep c' ms"
    using icursor.rd_rep [OF icursor_depth, of "height c" c m ms] by (auto simp: readNext_def rep_depth_def)
qed (auto simp: cursor_end_rep cursor_top_rep)

section \<open>Clients\<close>

lemma read_values_rep: "cursor_rep c ms \<Longrightarrow> read_values c = Some ms"
proof -
  assume rep: "cursor_rep c ms"
  have "fold (\<lambda>m acc. acc @ [m]) ms acc = acc @ ms" for acc
    by (induction ms arbitrary: acc) simp_all
  then show ?thesis
    using cursor.apply_loop_rep [OF rep, of "Suc (pending c)" "\<lambda>m acc. acc @ [m]" "\<lambda>_. True" "[]"] cursor_pending [OF rep]
    by (auto simp: read_values_def cursor_apply_def less_Suc_eq_le)
qed

end
