(* ===== verification/Collapse.thy ===== *)
theory Collapse
  imports CursorContract
begin

text \<open>
  \<^verbatim>\<open>CursorWrapperFactory::colapseCursors\<close>: what the grouping loops compute and what the
  resulting cursor returns, for readers whose overlap relation is transitive.
\<close>

section \<open>The grouping loops\<close>

definition ov :: "cursor list \<Rightarrow> nat \<Rightarrow> nat \<Rightarrow> bool" where
  "ov rv i j \<longleftrightarrow> \<not> is_linear_readers (rv ! i) (rv ! j)"

lemma ov_sym: "ov rv i j = ov rv j i"
  by (auto simp: ov_def is_linear_readers_def intervalsIntersection_def)

definition ov_transitive :: "cursor list \<Rightarrow> bool" where
  "ov_transitive rv \<longleftrightarrow> (\<forall>i < length rv. \<forall>j < length rv. \<forall>k < length rv. ov rv i j \<longrightarrow> ov rv j k \<longrightarrow> ov rv i k)"

text \<open>The other readers that overlap a reader, and the readers that open a group.\<close>

definition peers :: "cursor list \<Rightarrow> nat \<Rightarrow> nat list" where
  "peers rv i = filter (\<lambda>j. i \<noteq> j \<and> ov rv i j) [0..<length rv]"

definition opens :: "cursor list \<Rightarrow> nat \<Rightarrow> bool" where
  "opens rv i \<longleftrightarrow> peers rv i \<noteq> [] \<and> (\<forall>j \<in> set (peers rv i). i < j)"

lemma opens_peers: "opens rv i \<Longrightarrow> peers rv i \<noteq> []"
  by (simp add: opens_def)

lemma insert_group_last:
  "\<forall>(k, ps) \<in> set gs. k < i \<Longrightarrow> insert_group i j gs = gs @ [(i, [j])]"
  "\<forall>(k, ps) \<in> set gs. k < i \<Longrightarrow> insert_group i j (gs @ [(i, ps)]) = gs @ [(i, insort_insert j ps)]"
  by (induction gs) auto

lemma insert_into_group_None: "\<forall>(k, ps) \<in> set gs. i \<notin> set ps \<Longrightarrow> insert_into_group i j gs = None"
  by (induction gs) auto

lemma insort_insert_last: "\<forall>p \<in> set ps. p < j \<Longrightarrow> insort_insert j ps = ps @ [j :: nat]"
proof -
  assume *: "\<forall>p \<in> set ps. p < j"
  then have "insort j ps = ps @ [j]" by (induction ps) auto
  then show ?thesis using * by (auto simp: insort_insert_key_def)
qed

lemma collapse_inner_idle:
  "\<forall>j \<in> set js. i \<noteq> j \<longrightarrow> ov rv i j \<longrightarrow> j \<in> P \<Longrightarrow> collapse_inner rv i js (gs, P, b) = (gs, P, b)"
  by (induction js) (auto simp: ov_def)

text \<open>A reader that opens a group collects all its peers, in order.\<close>

lemma collapse_inner_opens:
  assumes "sorted_wrt (<) js" "\<forall>j \<in> set js. ov rv i j \<and> i \<noteq> j \<longrightarrow> j \<notin> P"
    "\<forall>(k, ps) \<in> set gs. k < i \<and> i \<notin> set ps" "\<forall>p \<in> set acc. \<forall>j \<in> set js. p < j" "i \<notin> set acc"
  shows "collapse_inner rv i js (if acc = [] then (gs, P, False) else (gs @ [(i, acc)], insert i (P \<union> set acc), True)) =
    (let all = acc @ filter (\<lambda>j. i \<noteq> j \<and> ov rv i j) js in
     if all = [] then (gs, P, False) else (gs @ [(i, all)], insert i (P \<union> set all), True))"
  using assms
proof (induction js arbitrary: acc)
  case (Cons j js)
  show ?case
  proof (cases "i \<noteq> j \<and> ov rv i j")
    case True
    have none: "insert_into_group i j gs = None" "insert_into_group i j (gs @ [(i, acc)]) = None"
      using Cons.prems(3,5) by (auto intro!: insert_into_group_None)
    have ins: "insort_insert j acc = acc @ [j]"
      using Cons.prems(4) by (intro insort_insert_last) simp
    have gk: "\<forall>(k, ps) \<in> set gs. k < i" using Cons.prems(3) by auto
    have fresh: "j \<notin> P" "j \<notin> insert i (P \<union> set acc)"
      using True Cons.prems(2,4) by auto
    have step: "collapse_inner rv i (j # js) (if acc = [] then (gs, P, False) else (gs @ [(i, acc)], insert i (P \<union> set acc), True)) =
        collapse_inner rv i js (gs @ [(i, acc @ [j])], insert i (P \<union> set (acc @ [j])), True)"
      using True fresh
      by (cases "acc = []") (simp_all add: ov_def insert_commute none insert_group_last [OF gk] ins)
    show ?thesis
      unfolding step using Cons.IH [of "acc @ [j]"] Cons.prems True by simp
  next
    case False
    then show ?thesis using Cons.IH [of acc] Cons.prems by (auto simp: ov_def)
  qed
qed (simp add: Let_def)

lemma set_peers: "j \<in> set (peers rv i) \<longleftrightarrow> j < length rv \<and> i \<noteq> j \<and> ov rv i j"
  by (auto simp: peers_def)

lemma peers_sym: "i < length rv \<Longrightarrow> j \<in> set (peers rv i) \<Longrightarrow> i \<in> set (peers rv j)"
  by (auto simp: set_peers ov_sym)

lemma peers_trans:
  "ov_transitive rv \<Longrightarrow> i < length rv \<Longrightarrow> j \<in> set (peers rv i) \<Longrightarrow> k \<in> set (peers rv j) \<Longrightarrow>
     k = i \<or> k \<in> set (peers rv i)"
  unfolding set_peers ov_transitive_def by metis

text \<open>A reader with an earlier peer belongs to the group of its first peer.\<close>

lemma opens_first_peer:
  assumes tr: "ov_transitive rv" and i: "i < length rv" and j: "j \<in> set (peers rv i)" "j < i"
  shows "\<exists>k < i. opens rv k \<and> i \<in> set (peers rv k) \<and> (\<forall>j \<in> set (peers rv i). j = k \<or> j \<in> set (peers rv k))"
proof -
  define k where "k = Min (set (peers rv i))"
  have k: "k \<in> set (peers rv i)" "\<forall>j \<in> set (peers rv i). k \<le> j"
    using j(1) by (auto simp: k_def intro: Min_in)
  have "k \<le> j" using k(2) j(1) by blast
  then have ki: "k < i" "k < length rv" using k(1) j(2) by (auto simp: set_peers)
  have "k < j" if "j \<in> set (peers rv k)" for j
  proof -
    have "k \<noteq> j" using that by (simp add: set_peers)
    moreover have "j = i \<or> j \<in> set (peers rv i)" using peers_trans [OF tr i k(1) that] by blast
    ultimately show ?thesis using k(2) ki(1) by force
  qed
  moreover have ik: "i \<in> set (peers rv k)" using peers_sym [OF i k(1)] .
  moreover have "j = k \<or> j \<in> set (peers rv k)" if "j \<in> set (peers rv i)" for j
    using peers_trans [OF tr ki(2) ik that] by blast
  moreover have "peers rv k \<noteq> []" using ik by auto
  ultimately show ?thesis using ki(1) unfolding opens_def by blast
qed

definition grouped :: "cursor list \<Rightarrow> nat \<Rightarrow> nat set" where
  "grouped rv m = (\<Union>k \<in> {k. k < m \<and> opens rv k}. insert k (set (peers rv k)))"

lemma collapse_outer_append: "collapse_outer rv (xs @ ys) st = collapse_outer rv ys (collapse_outer rv xs st)"
  by (induction xs arbitrary: st) (auto split: prod.splits)

lemma collapse_outer_step:
  assumes tr: "ov_transitive rv" and m: "m < length rv"
  defines "gs \<equiv> map (\<lambda>k. (k, peers rv k)) (filter (opens rv) [0..<m])"
  shows "collapse_inner rv m [0..<length rv] (gs, grouped rv m, False) =
    (if opens rv m then (gs @ [(m, peers rv m)], grouped rv (Suc m), True) else (gs, grouped rv (Suc m), False)) \<and>
    (m \<in> grouped rv (Suc m) \<longleftrightarrow> peers rv m \<noteq> [])"
proof -
  have suc: "grouped rv (Suc m) = (if opens rv m then insert m (set (peers rv m)) \<union> grouped rv m else grouped rv m)"
    by (auto simp: grouped_def less_Suc_eq)
  have "\<exists>j \<in> set (peers rv m). j < m" if "peers rv m \<noteq> []" "\<not> opens rv m"
    using that unfolding opens_def by (metis linorder_neqE_nat set_peers)
  then consider (alone) "peers rv m = []" | (opens) "opens rv m" | (late) j where "j \<in> set (peers rv m)" "j < m" "\<not> opens rv m"
    by blast
  then show ?thesis
  proof cases
    case alone
    then have "\<not> opens rv m" by (simp add: opens_def)
    moreover have "m \<notin> grouped rv m"
    proof
      assume "m \<in> grouped rv m"
      then obtain k where k: "k < m" "m \<in> set (peers rv k)" by (auto simp: grouped_def)
      then have "m \<in> set (peers rv k)" "k < length rv" using m by simp_all
      from peers_sym [OF this(2,1)] show False using alone by simp
    qed
    moreover have "\<forall>j \<in> set [0..<length rv]. m \<noteq> j \<longrightarrow> ov rv m j \<longrightarrow> j \<in> grouped rv m"
      using alone by (auto simp: peers_def filter_empty_conv)
    ultimately show ?thesis using alone suc by (simp add: collapse_inner_idle)
  next
    case opens
    have fresh: "j \<notin> grouped rv m" if j: "j \<in> set (peers rv m)" for j
    proof
      assume "j \<in> grouped rv m"
      then obtain k where k: "k < m" "j = k \<or> j \<in> set (peers rv k)" by (auto simp: grouped_def)
      have "j \<noteq> k" using opens j k(1) by (auto simp: opens_def)
      then have "j \<in> set (peers rv k)" "k < length rv" using k m by simp_all
      from peers_sym [OF this(2,1)] have "k \<in> set (peers rv j)" .
      then have "k \<in> set (peers rv m)" using peers_trans [OF tr m j] k(1) by auto
      then show False using opens k(1) by (auto simp: opens_def)
    qed
    have "\<forall>(k, ps) \<in> set gs. k < m \<and> m \<notin> set ps"
    proof (clarsimp simp: gs_def)
      fix k assume k: "k < m" "m \<in> set (peers rv k)"
      then have "k < length rv" using m by simp
      from peers_sym [OF this k(2)] show False using opens k(1) by (auto simp: opens_def)
    qed
    moreover have "\<forall>j \<in> set [0..<length rv]. ov rv m j \<and> m \<noteq> j \<longrightarrow> j \<notin> grouped rv m"
      using fresh by (auto simp: set_peers)
    ultimately have "collapse_inner rv m [0..<length rv] (gs, grouped rv m, False) =
        (gs @ [(m, peers rv m)], insert m (grouped rv m \<union> set (peers rv m)), True)"
      using collapse_inner_opens [of "[0..<length rv]" rv m "grouped rv m" gs "[]"] opens_peers [OF opens]
      by (simp add: peers_def [symmetric] Let_def)
    then show ?thesis
      using opens opens_peers [OF opens] suc by (simp add: Un_commute)
  next
    case late
    then obtain k where k: "k < m" "opens rv k" "m \<in> set (peers rv k)"
      "\<forall>j \<in> set (peers rv m). j = k \<or> j \<in> set (peers rv k)"
      using opens_first_peer [OF tr m late(1,2)] by blast
    then have "\<forall>j \<in> set [0..<length rv]. m \<noteq> j \<longrightarrow> ov rv m j \<longrightarrow> j \<in> grouped rv m"
      by (auto simp: grouped_def set_peers)
    moreover have "m \<in> grouped rv m" using k by (auto simp: grouped_def)
    ultimately show ?thesis using late suc by (auto simp: collapse_inner_idle)
  qed
qed

lemma collapse_outer_spec:
  assumes "ov_transitive rv" "m \<le> length rv"
  shows "collapse_outer rv [0..<m] ([], {}, []) =
    (map (\<lambda>k. (k, peers rv k)) (filter (opens rv) [0..<m]), grouped rv m, filter (\<lambda>k. peers rv k = []) [0..<m])"
  using assms(2)
proof (induction m)
  case (Suc m)
  then show ?case
    using collapse_outer_step [OF assms(1), of m] opens_peers [of rv m]
    by (auto simp: collapse_outer_append)
qed (simp add: grouped_def)

lemma collapse_plan_spec:
  "ov_transitive rv \<Longrightarrow> collapse_plan rv =
    (filter (\<lambda>k. peers rv k = []) [0..<length rv],
     map (\<lambda>k. (k, peers rv k)) (filter (opens rv) [0..<length rv]))"
  by (simp add: collapse_plan_def collapse_outer_spec)

section \<open>Separated intervals\<close>

definition sep :: "cursor \<Rightarrow> cursor \<Rightarrow> bool" where
  "sep c d \<longleftrightarrow> cursor_maxTime c < cursor_minTime d \<or> cursor_maxTime d < cursor_minTime c"

definition spans :: "cursor \<Rightarrow> bool" where
  "spans c \<longleftrightarrow> cursor_minTime c \<le> cursor_maxTime c"

lemma sep_sym: "sep c d \<Longrightarrow> sep d c"
  by (auto simp: sep_def)

lemma linear_iff_sep: "spans c \<Longrightarrow> spans d \<Longrightarrow> is_linear_readers c d \<longleftrightarrow> sep c d"
  by (auto simp: is_linear_readers_def intervalsIntersection_def inInterval_def sep_def spans_def)

text \<open>A reader that is separated from every member of a group of overlapping readers lies on
  one side of all of them.\<close>

lemma sep_group_side:
  assumes "\<forall>d \<in> set ds. spans d \<and> sep c d" "spans c"
    and "\<forall>d \<in> set ds. \<forall>e \<in> set ds. \<not> sep d e"
  shows "(\<forall>d \<in> set ds. cursor_maxTime c < cursor_minTime d) \<or> (\<forall>d \<in> set ds. cursor_maxTime d < cursor_minTime c)"
proof (rule ccontr)
  assume "\<not> ?thesis"
  then obtain d e where de: "d \<in> set ds" "\<not> cursor_maxTime c < cursor_minTime d"
    "e \<in> set ds" "\<not> cursor_maxTime e < cursor_minTime c" by blast
  then have "cursor_maxTime d < cursor_minTime c" "cursor_maxTime c < cursor_minTime e"
    using assms(1) by (auto simp: sep_def)
  then have "cursor_maxTime d < cursor_minTime e"
    using assms(2) unfolding spans_def by (meson order.strict_trans1 order.strict_trans)
  then show False using assms(3) de by (auto simp: sep_def)
qed

lemma fold_min_time: "fold (\<lambda>r t. min t (cursor_minTime r)) rs t0 = Min (insert t0 (cursor_minTime ` set rs))"
proof (induction rs arbitrary: t0)
  case (Cons r rs)
  then show ?case by (cases "rs = []") (simp_all add: min.assoc)
qed simp

lemma fold_max_time: "fold (\<lambda>r t. max t (cursor_maxTime r)) rs t0 = Max (insert t0 (cursor_maxTime ` set rs))"
proof (induction rs arbitrary: t0)
  case (Cons r rs)
  then show ?case by (cases "rs = []") (simp_all add: max.assoc)
qed simp

lemma less_fold_min_time:
  "rs \<noteq> [] \<Longrightarrow> t < fold (\<lambda>r t. min t (cursor_minTime r)) rs MAX_TIME \<longleftrightarrow> (\<forall>r \<in> set rs. t < cursor_minTime r)"
  unfolding fold_min_time using MAX_TIME_top
  by auto

lemma fold_max_time_less:
  "rs \<noteq> [] \<Longrightarrow> fold (\<lambda>r t. max t (cursor_maxTime r)) rs MIN_TIME < t \<longleftrightarrow> (\<forall>r \<in> set rs. cursor_maxTime r < t)"
  unfolding fold_max_time using MIN_TIME_bot
  by auto

lemma fold_min_time_le: "r \<in> set rs \<Longrightarrow> fold (\<lambda>r t. min t (cursor_minTime r)) rs MAX_TIME \<le> cursor_minTime r"
  unfolding fold_min_time by simp

lemma fold_max_time_ge: "r \<in> set rs \<Longrightarrow> cursor_maxTime r \<le> fold (\<lambda>r t. max t (cursor_maxTime r)) rs MIN_TIME"
  unfolding fold_max_time by simp

lemma sorted_wrt_concat:
  "\<forall>xs \<in> set xss. sorted_wrt R xs \<Longrightarrow> sorted_wrt (\<lambda>xs ys. \<forall>x \<in> set xs. \<forall>y \<in> set ys. R x y) xss \<Longrightarrow>
     sorted_wrt R (concat xss)"
  by (induction xss) (auto simp: sorted_wrt_append)

text \<open>Sorting separated readers by their minimal time puts them one after the other.\<close>

lemma sort_separated:
  assumes "sorted_wrt sep cs" "\<forall>c \<in> set cs. spans c"
  shows "sorted_wrt (\<lambda>c d. cursor_maxTime c < cursor_minTime d) (sort_key cursor_minTime cs)"
proof -
  have *: "distinct cs \<and> (\<forall>c \<in> set cs. \<forall>d \<in> set cs. c \<noteq> d \<longrightarrow> sep c d)"
    using assms
  proof (induction cs)
    case (Cons c cs)
    have "\<not> sep c c" using Cons.prems(2) by (auto simp: sep_def spans_def not_less)
    then show ?case using Cons by (auto intro: sep_sym)
  qed simp
  define ds where "ds = sort_key cursor_minTime cs"
  have ds: "distinct ds" "set ds = set cs" "sorted (map cursor_minTime ds)"
    using * by (simp_all add: ds_def)
  have "sorted_wrt (\<lambda>c d. cursor_maxTime c < cursor_minTime d) ds"
    unfolding sorted_wrt_iff_nth_less
  proof (intro allI impI)
    fix i j assume ij: "i < j" "j < length ds"
    then have c: "ds ! i \<in> set cs" "ds ! j \<in> set cs" "ds ! i \<noteq> ds ! j"
      using ds(1,2) nth_mem by (fastforce simp: nth_eq_iff_index_eq)+
    then have "sep (ds ! i) (ds ! j)" "spans (ds ! j)" using * assms(2) by blast+
    moreover have "cursor_minTime (ds ! i) \<le> cursor_minTime (ds ! j)"
      using ds(3) ij by (simp add: sorted_wrt_map sorted_wrt_iff_nth_less)
    ultimately show "cursor_maxTime (ds ! i) < cursor_minTime (ds ! j)"
      unfolding sep_def spans_def by (meson leD order.strict_trans1)
  qed
  then show ?thesis by (simp add: ds_def)
qed

section \<open>Well-formed readers\<close>

text \<open>A reader returns strictly ordered values inside the interval it announces; the parts of a
  chain are such readers, one after the other.\<close>

definition reader_ok :: "cursor \<Rightarrow> Meas list \<Rightarrow> bool" where
  "reader_ok c ms \<longleftrightarrow> cursor_rep c ms \<and> ms \<noteq> [] \<and> time_strict ms \<and> below_max ms \<and>
     (\<forall>m \<in> set ms. cursor_minTime c \<le> m_time m \<and> m_time m \<le> cursor_maxTime c)"

fun parts :: "cursor \<Rightarrow> cursor list" where
  "parts (LinearCursor n rs mn mx) = rs"
| "parts c = [c]"

fun is_merge :: "cursor \<Rightarrow> bool" where
  "is_merge (MergeSortCursor n rs tops ends mn mx) = True"
| "is_merge c = False"

definition reader_wf :: "cursor \<Rightarrow> Meas list \<Rightarrow> bool" where
  "reader_wf c ms \<longleftrightarrow> reader_ok c ms \<and> sorted_wrt sep (parts c) \<and>
     (\<forall>p \<in> set (parts c). cursor_minTime c \<le> cursor_minTime p \<and> cursor_maxTime p \<le> cursor_maxTime c \<and>
       (\<exists>vs. reader_ok p vs))"

lemma reader_ok_spans: "reader_ok c ms \<Longrightarrow> spans c"
  by (cases ms) (auto simp: reader_ok_def spans_def)

lemma unpack_linear_parts: "unpack_linear_readers rs = concat (map parts rs)"
  by (induction rs rule: unpack_linear_readers.induct) auto

lemma unpack_merge_id: "\<forall>r \<in> set rs. \<not> is_merge r \<Longrightarrow> unpack_merge_readers rs = rs"
  by (induction rs rule: unpack_merge_readers.induct) auto

lemma those_map_Some: "list_all2 (\<lambda>x y. f x = Some (g y)) xs ys \<Longrightarrow> those (map f xs) = Some (map g ys)"
  by (induction rule: list_all2_induct) auto

text \<open>A merge of readers is a reader of the merged values.\<close>

lemma MergeSortCursor_new_ok:
  assumes ok: "list_all2 reader_ok rs vss" and nm: "\<forall>r \<in> set rs. \<not> is_merge r" and ne: "rs \<noteq> []"
  shows "\<exists>c. MergeSortCursor_new rs = Some c \<and> reader_ok c (merged vss) \<and> is_merge c \<and> parts c = [c] \<and>
    cursor_minTime c = fold (\<lambda>r t. min t (cursor_minTime r)) rs MAX_TIME \<and>
    cursor_maxTime c = fold (\<lambda>r t. max t (cursor_maxTime r)) rs MIN_TIME"
proof -
  have rep: "list_all2 cursor_rep rs vss"
    using ok by (rule list_all2_mono) (simp add: reader_ok_def)
  have tops: "those (map get_top_time rs) = Some (map head_time vss)"
    by (rule those_map_Some, rule list_all2_mono [OF rep]) (rule get_top_time_rep)
  have vr: "\<exists>r \<in> set rs. reader_ok r vs" if "vs \<in> set vss" for vs
    using ok that by (metis in_set_conv_nth list_all2_conv_all_nth)
  have vs: "vs \<noteq> []" "below_max vs" "time_sorted vs" if "vs \<in> set vss" for vs
    using vr [OF that] by (auto simp: reader_ok_def time_strict_sorted)
  have "map (\<lambda>vs. vs = []) vss = map (\<lambda>_. False) vss"
    using vs(1) by (intro map_cong) auto
  then have ends: "replicate (length rs) False = map (\<lambda>vs. vs = []) vss"
    using list_all2_lengthD [OF rep] by (simp add: map_replicate_const)
  have vne: "vss \<noteq> []" using ne list_all2_lengthD [OF rep] by auto
  define c where "c = MergeSortCursor (sum_list (map cursor_count rs)) rs (map head_time vss) (map (\<lambda>vs. vs = []) vss)
    (fold (\<lambda>r t. min t (cursor_minTime r)) rs MAX_TIME) (fold (\<lambda>r t. max t (cursor_maxTime r)) rs MIN_TIME)"
  have "MergeSortCursor_new rs = Some c"
    by (simp add: MergeSortCursor_new_def unpack_merge_id [OF nm] tops ends c_def)
  moreover have "reader_ok c (merged vss)"
    unfolding reader_ok_def
  proof (intro conjI ballI)
    show "cursor_rep c (merged vss)" unfolding c_def using rep vs(2) by (intro rep_merge) auto
    show "merged vss \<noteq> []" using vs(1) vne by (cases vss) (auto simp: merged_eq_Nil)
    show "time_strict (merged vss)" using vs(3) by (intro merged_strict) blast
    show "below_max (merged vss)" using vs(2) merged_set unfolding below_max_def by blast
  next
    fix m assume "m \<in> set (merged vss)"
    then obtain v where "v \<in> set vss" "m \<in> set v" using merged_set by blast
    then obtain r where "r \<in> set rs" "cursor_minTime r \<le> m_time m" "m_time m \<le> cursor_maxTime r"
      using vr [of v] by (auto simp: reader_ok_def)
    then show "cursor_minTime c \<le> m_time m" "m_time m \<le> cursor_maxTime c"
      using fold_min_time_le [of r rs] fold_max_time_ge [of r rs] by (auto simp: c_def)
  qed
  ultimately show ?thesis by (auto simp: c_def)
qed

section \<open>Chains of separated readers\<close>

lemma cursor_rep_unique: "cursor_rep c ms \<Longrightarrow> cursor_rep c ms' \<Longrightarrow> ms = ms'"
  using read_values_rep [of c ms] read_values_rep [of c ms'] by simp

lemma parts_values:
  assumes "reader_wf c ms"
  shows "\<exists>uss. list_all2 reader_ok (parts c) uss \<and> concat uss = ms"
proof (cases c)
  case (LinearCursor n rs mn mx)
  then obtain uss where u: "list_all2 cursor_rep rs uss" "concat uss = ms"
    using assms by (auto simp: reader_wf_def reader_ok_def elim: cursor_rep_linearE)
  have "reader_ok p u" if "p \<in> set rs" "cursor_rep p u" for p u
  proof -
    have "p \<in> set (parts c)" using that(1) LinearCursor by simp
    then obtain vs where "reader_ok p vs" using assms unfolding reader_wf_def by blast
    then show ?thesis using cursor_rep_unique [OF that(2)] by (auto simp: reader_ok_def)
  qed
  then have "list_all2 reader_ok rs uss"
    using u(1) by (auto simp: list_all2_conv_all_nth)
  then show ?thesis using u(2) LinearCursor by auto
qed (use assms in \<open>auto simp: reader_wf_def intro!: exI [of _ "[ms]"]\<close>)

lemma sep_parts: "reader_wf c ms \<Longrightarrow> reader_wf d ms' \<Longrightarrow> sep c d \<Longrightarrow> p \<in> set (parts c) \<Longrightarrow> q \<in> set (parts d) \<Longrightarrow> sep p q"
  unfolding reader_wf_def sep_def by (meson order.strict_trans1 order.strict_trans2)

lemma strict_append:
  "time_strict (xs @ ys) \<longleftrightarrow> time_strict xs \<and> time_strict ys \<and> (\<forall>x \<in> set xs. \<forall>y \<in> set ys. m_time x < m_time y)"
  by (induction xs) auto

lemma strict_concat:
  assumes "list_all2 reader_ok rs vss" "sorted_wrt (\<lambda>c d. cursor_maxTime c < cursor_minTime d) rs"
  shows "time_strict (concat vss)"
  using assms
proof (induction rule: list_all2_induct)
  case (Cons r rs vs vss)
  have "m_time x < m_time y" if x: "x \<in> set vs" and y: "y \<in> set (concat vss)" for x y
  proof -
    obtain ws where "ws \<in> set vss" "y \<in> set ws" using y by auto
    then obtain d where "d \<in> set rs" "reader_ok d ws"
      using Cons.hyps(2) by (metis in_set_conv_nth list_all2_conv_all_nth)
    then have "cursor_maxTime r < cursor_minTime d" "cursor_minTime d \<le> m_time y"
      using Cons.prems \<open>y \<in> set ws\<close> by (auto simp: reader_ok_def)
    moreover have "m_time x \<le> cursor_maxTime r" using Cons.hyps(1) x by (simp add: reader_ok_def)
    ultimately show ?thesis by (meson order.strict_trans1 order.strict_trans2)
  qed
  then show ?case using Cons by (auto simp: strict_append reader_ok_def)
qed simp

lemma LinearCursor_new_wf:
  assumes wf: "list_all2 reader_wf rs vss" and sp: "sorted_wrt sep rs" and ne: "rs \<noteq> []"
  shows "\<exists>ms. reader_wf (LinearCursor_new rs) ms \<and> set ms = (\<Union>vs \<in> set vss. set vs)"
proof -
  have wfd: "\<exists>vs. reader_wf r vs" if "r \<in> set rs" for r
    using wf that by (metis in_set_conv_nth list_all2_conv_all_nth)
  define L where "L = unpack_linear_readers rs"
  have "\<exists>lvs. list_all2 reader_ok L lvs \<and> concat lvs = concat vss"
    unfolding L_def unpack_linear_parts using wf
  proof (induction rule: list_all2_induct)
    case (Cons r rs vs vss)
    then show ?case using parts_values [of r vs] by (auto intro!: list_all2_appendI)
  qed simp
  then obtain lvs where lvs: "list_all2 reader_ok L lvs" "concat lvs = concat vss" by blast
  define L' where "L' = sort_key cursor_minTime L"
  obtain wss where wss: "list_all2 reader_ok L' wss" "mset wss = mset lvs"
    using list_all2_reorder_left_invariance [OF lvs(1), of L'] by (auto simp: L'_def)
  have "sorted_wrt sep (concat (map parts rs))"
  proof (rule sorted_wrt_concat)
    show "\<forall>xs \<in> set (map parts rs). sorted_wrt sep xs" using wfd by (auto simp: reader_wf_def)
    show "sorted_wrt (\<lambda>xs ys. \<forall>x \<in> set xs. \<forall>y \<in> set ys. sep x y) (map parts rs)"
      unfolding sorted_wrt_map using sp by (rule sorted_wrt_mono_rel [rotated]) (use wfd sep_parts in blast)
  qed
  moreover have "\<forall>c \<in> set L. spans c"
    using lvs(1) reader_ok_spans by (metis in_set_conv_nth list_all2_conv_all_nth)
  ultimately have srt: "sorted_wrt (\<lambda>c d. cursor_maxTime c < cursor_minTime d) L'"
    using sort_separated [of L] by (simp add: L'_def L_def unpack_linear_parts)
  have ok: "\<exists>vs. reader_ok p vs" if "p \<in> set L'" for p
    using wss(1) that by (metis in_set_conv_nth list_all2_conv_all_nth)
  have kov: "\<exists>p \<in> set L'. reader_ok p vs" if "vs \<in> set wss" for vs
    using wss(1) that by (metis in_set_conv_nth list_all2_conv_all_nth)
  have sets: "set (concat wss) = (\<Union>vs \<in> set vss. set vs)"
    using lvs(2) mset_eq_setD [OF wss(2)] by (metis set_concat)
  have "vss \<noteq> []" using ne wf by auto
  moreover have "vs \<noteq> []" if "vs \<in> set vss" for vs
    using wf that by (metis in_set_conv_nth list_all2_conv_all_nth reader_wf_def reader_ok_def)
  ultimately have ne': "concat wss \<noteq> []" using sets by (cases vss) force+
  have rep: "cursor_rep (LinearCursor_new rs) (concat wss)"
    unfolding LinearCursor_new_def Let_def L_def [symmetric] L'_def [symmetric]
    using wss(1) kov by (intro rep_linear) (auto simp: reader_ok_def elim: list_all2_mono)
  have "reader_ok (LinearCursor_new rs) (concat wss)"
    unfolding reader_ok_def
  proof (intro conjI ballI rep ne' strict_concat [OF wss(1) srt])
    show "below_max (concat wss)" using kov by (force simp: below_max_def reader_ok_def)
    fix m assume "m \<in> set (concat wss)"
    then obtain p vs where "p \<in> set L'" "reader_ok p vs" "m \<in> set vs" using kov by fastforce
    then show "cursor_minTime (LinearCursor_new rs) \<le> m_time m" "m_time m \<le> cursor_maxTime (LinearCursor_new rs)"
      using fold_min_time_le [of p L'] fold_max_time_ge [of p L']
      by (auto simp: LinearCursor_new_def Let_def L_def [symmetric] L'_def [symmetric] reader_ok_def)
  qed
  moreover have "sorted_wrt sep L'" using srt by (rule sorted_wrt_mono_rel [rotated]) (simp add: sep_def)
  ultimately have "reader_wf (LinearCursor_new rs) (concat wss)"
    unfolding reader_wf_def
    using ok fold_min_time_le [of _ L'] fold_max_time_ge [of _ L']
    by (simp add: LinearCursor_new_def Let_def L_def [symmetric] L'_def [symmetric])
  then show ?thesis using sets by blast
qed

section \<open>Uniqueness of the merge\<close>

lemma strict_times_eq:
  assumes "time_strict xs" "time_strict ys" "m_time ` set xs = m_time ` set ys"
    "\<forall>x \<in> set xs. \<forall>y \<in> set ys. m_time x = m_time y \<longrightarrow> x = y"
  shows "xs = ys"
proof -
  have t: "map m_time xs = map m_time ys"
    using assms(1-3) by (intro strict_sorted_equal) (simp_all add: time_strict_def)
  then have "length xs = length ys" by (rule map_eq_imp_length_eq)
  then show ?thesis
  proof (rule nth_equalityI)
    fix i assume "i < length xs"
    then have "m_time (xs ! i) = m_time (ys ! i)" "xs ! i \<in> set xs" "ys ! i \<in> set ys"
      using t \<open>length xs = length ys\<close> by (auto dest: map_eq_conv [THEN iffD1] arg_cong [of _ _ "\<lambda>zs. zs ! i"])
    then show "xs ! i = ys ! i" using assms(4) by blast
  qed
qed

lemma merged_unique:
  assumes "\<forall>vs \<in> set vss. time_sorted vs" "time_strict ms"
    "m_time ` set ms = (\<Union>vs \<in> set vss. m_time ` set vs)"
    "\<forall>m \<in> set ms. find (\<lambda>x. m_time x = m_time m) (concat vss) = Some m"
  shows "ms = merged vss"
proof (rule strict_times_eq)
  show "\<forall>x \<in> set ms. \<forall>y \<in> set (merged vss). m_time x = m_time y \<longrightarrow> x = y"
    using assms(4) merged_find [OF assms(1)] by fastforce
qed (use assms merged_strict merged_times in simp_all)

lemma find_strict: "time_strict vs \<Longrightarrow> m \<in> set vs \<Longrightarrow> find (\<lambda>x. m_time x = m_time m) vs = Some m"
  by (induction vs) auto

lemma merged_single: "time_strict vs \<Longrightarrow> merged [vs] = vs"
  by (rule merged_unique [symmetric]) (auto simp: time_strict_sorted find_strict)

lemma find_concat_filter:
  "\<forall>i \<in> set is. \<not> C i \<longrightarrow> (\<forall>x \<in> set (f i). \<not> P x) \<Longrightarrow>
     find P (concat (map f (filter C is))) = find P (concat (map f is))"
proof (induction "is")
  case (Cons i "is")
  have "\<not> C i \<Longrightarrow> find P (f i) = None" using Cons.prems by (auto simp: find_None_iff)
  then show ?case using Cons by (auto simp: find_append split: option.split)
qed simp

section \<open>The classes of overlapping readers\<close>

definition is_head :: "cursor list \<Rightarrow> nat \<Rightarrow> bool" where
  "is_head rv k \<longleftrightarrow> (\<forall>j \<in> set (peers rv k). k < j)"

definition cls :: "cursor list \<Rightarrow> nat \<Rightarrow> nat list" where
  "cls rv k = k # peers rv k"

lemma cls_filter:
  assumes "is_head rv k" "k < length rv"
  shows "cls rv k = filter (\<lambda>x. x \<in> set (cls rv k)) [0..<length rv]"
proof (rule sorted_distinct_set_unique)
  show "sorted (cls rv k)" using assms by (auto simp: cls_def is_head_def peers_def less_imp_le sorted_wrt_filter)
  show "distinct (cls rv k)" using assms by (auto simp: cls_def set_peers) (simp add: peers_def)
  show "set (cls rv k) = set (filter (\<lambda>x. x \<in> set (cls rv k)) [0..<length rv])"
    using assms by (auto simp: cls_def set_peers)
qed (simp_all add: sorted_wrt_filter)

lemma cls_less: "k < length rv \<Longrightarrow> x \<in> set (cls rv k) \<Longrightarrow> x < length rv"
  by (auto simp: cls_def set_peers)

lemma cls_ov:
  assumes "ov_transitive rv" "k < length rv" "x \<in> set (cls rv k)" "y \<in> set (cls rv k)" "x \<noteq> y"
  shows "ov rv x y"
proof -
  have "y \<in> set (peers rv x)"
  proof (cases "x = k")
    case False
    then have "k \<in> set (peers rv x)" using assms(2,3) peers_sym by (auto simp: cls_def)
    moreover have "x < length rv" using assms(2,3) cls_less by blast
    ultimately show ?thesis using assms peers_trans [OF assms(1), of x k y] by (auto simp: cls_def)
  qed (use assms in \<open>auto simp: cls_def\<close>)
  then show ?thesis by (simp add: set_peers)
qed

lemma cls_not_ov:
  assumes "ov_transitive rv" "k < length rv" "i < length rv" "i \<notin> set (cls rv k)" "x \<in> set (cls rv k)"
  shows "\<not> ov rv i x"
proof
  assume "ov rv i x"
  then have "i \<in> set (peers rv x)" using assms(3-5) by (auto simp: set_peers ov_sym)
  then show False
    using assms peers_trans [OF assms(1,2), of x i] by (auto simp: cls_def)
qed

lemma cls_cover:
  assumes "ov_transitive rv" "i < length rv"
  shows "\<exists>k < length rv. is_head rv k \<and> i \<in> set (cls rv k)"
proof (cases "is_head rv i")
  case False
  then obtain j where "j \<in> set (peers rv i)" "j < i"
    unfolding is_head_def using set_peers by (metis linorder_neqE_nat)
  from opens_first_peer [OF assms this] show ?thesis
    using assms(2) by (auto simp: opens_def is_head_def cls_def intro: order.strict_trans)
qed (use assms in \<open>auto simp: cls_def\<close>)

lemma cls_disjoint:
  assumes "ov_transitive rv" "k < length rv" "l < length rv" "is_head rv k" "is_head rv l" "k \<noteq> l"
  shows "l \<notin> set (cls rv k)" "set (cls rv k) \<inter> set (cls rv l) = {}"
proof -
  show l: "l \<notin> set (cls rv k)"
    using assms peers_sym [of k rv l] by (auto simp: cls_def is_head_def) (meson less_asym)
  have "x \<notin> set (cls rv l)" if "x \<in> set (cls rv k)" for x
  proof
    assume x: "x \<in> set (cls rv l)"
    have "x \<noteq> l" using that l by blast
    then have "ov rv l x" using cls_ov [OF assms(1,3) _ x] by (simp add: cls_def)
    then show False using cls_not_ov [OF assms(1,2,3) l that] by blast
  qed
  then show "set (cls rv k) \<inter> set (cls rv l) = {}" by blast
qed

lemma plan_distinct:
  assumes "ov_transitive rv"
  shows "distinct (plan_positions (collapse_plan rv))"
proof -
  define S where "S = filter (\<lambda>k. peers rv k = []) [0..<length rv]"
  define O' where "O' = filter (opens rv) [0..<length rv]"
  have hd: "is_head rv k" if "k \<in> set O' \<or> k \<in> set S" for k
    using that by (auto simp: O'_def S_def opens_def is_head_def)
  have "inj_on (cls rv) A" for A by (auto simp: inj_on_def cls_def)
  then have "distinct (map (cls rv) O')" by (simp add: distinct_map O'_def)
  then have d1: "distinct (concat (map (cls rv) O'))"
  proof (rule distinct_concat)
    fix ys assume "ys \<in> set (map (cls rv) O')"
    then show "distinct ys" by (auto simp: cls_def set_peers) (simp add: peers_def)
  next
    fix ys zs assume "ys \<in> set (map (cls rv) O')" "zs \<in> set (map (cls rv) O')" "ys \<noteq> zs"
    then obtain k l where "ys = cls rv k" "zs = cls rv l" "k \<in> set O'" "l \<in> set O'" "k \<noteq> l" by auto
    then show "set ys \<inter> set zs = {}"
      using cls_disjoint(2) [OF assms, of k l] hd by (auto simp: O'_def)
  qed
  have "set S \<inter> set (concat (map (cls rv) O')) = {}"
  proof -
    have "i \<notin> set (cls rv k)" if "i \<in> set S" "k \<in> set O'" for i k
      using that peers_sym [of k rv i] by (auto simp: S_def O'_def cls_def opens_def)
    then show ?thesis by fastforce
  qed
  then show ?thesis
    using d1 by (simp add: collapse_plan_spec [OF assms] plan_positions_def S_def [symmetric] O'_def [symmetric]
        comp_def cls_def [symmetric]) (simp add: S_def)
qed

end
