(* ===== verification/CollapseCorrect.thy ===== *)
theory CollapseCorrect
  imports Collapse
begin

text \<open>
  The cursor \<^verbatim>\<open>colapseCursors\<close> builds from readers with a transitive overlap relation returns the
  merge of their values: each class of overlapping readers is merged and the classes follow
  one another in time.
\<close>

section \<open>The collapsed cursor\<close>

text \<open>The cursor of a class of overlapping readers: the reader itself or the merge of the class.\<close>

definition class_cursor :: "cursor list \<Rightarrow> nat \<Rightarrow> cursor option" where
  "class_cursor rv k = (if peers rv k = [] then Some (rv ! k) else MergeSortCursor_new (map ((!) rv) (cls rv k)))"

lemma reader_wf_nth: "list_all2 reader_wf rv vss \<Longrightarrow> k < length rv \<Longrightarrow> reader_wf (rv ! k) (vss ! k)"
  by (simp add: list_all2_conv_all_nth)

lemma reader_wf_ok: "reader_wf c ms \<Longrightarrow> reader_ok c ms"
  by (simp add: reader_wf_def)

lemma ov_iff_not_sep:
  assumes "list_all2 reader_wf rv vss" "i < length rv" "j < length rv"
  shows "ov rv i j \<longleftrightarrow> \<not> sep (rv ! i) (rv ! j)"
  using reader_wf_nth [OF assms(1)] assms(2,3) reader_ok_spans
  unfolding ov_def by (metis linear_iff_sep reader_wf_ok)

lemma class_cursor_wf:
  assumes wf: "list_all2 reader_wf rv vss" and nm: "\<forall>r \<in> set rv. \<not> is_merge r"
    and tr: "ov_transitive rv" and k: "k < length rv"
  shows "\<exists>c. class_cursor rv k = Some c \<and> reader_wf c (merged (map ((!) vss) (cls rv k))) \<and>
    (\<forall>d. spans d \<longrightarrow> (\<forall>x \<in> set (cls rv k). sep d (rv ! x)) \<longrightarrow> sep d c)"
proof (cases "peers rv k = []")
  case True
  have "reader_wf (rv ! k) (vss ! k)" using reader_wf_nth [OF wf k] .
  then show ?thesis using True by (auto simp: class_cursor_def cls_def merged_single reader_wf_def reader_ok_def)
next
  case False
  define rs where "rs = map ((!) rv) (cls rv k)"
  have less: "\<forall>x \<in> set (cls rv k). x < length rv" using cls_less k by blast
  have ok: "list_all2 reader_ok rs (map ((!) vss) (cls rv k))"
    using less reader_wf_nth [OF wf] by (auto simp: rs_def list_all2_map1 list_all2_map2 list.rel_refl_strong intro!: list.rel_refl_strong reader_wf_ok)
  have "\<forall>r \<in> set rs. \<not> is_merge r" "rs \<noteq> []" using less nm by (auto simp: rs_def cls_def)
  then obtain c where c: "MergeSortCursor_new rs = Some c" "reader_ok c (merged (map ((!) vss) (cls rv k)))" "parts c = [c]"
    "cursor_minTime c = fold (\<lambda>r t. min t (cursor_minTime r)) rs MAX_TIME"
    "cursor_maxTime c = fold (\<lambda>r t. max t (cursor_maxTime r)) rs MIN_TIME"
    using MergeSortCursor_new_ok [OF ok] by blast
  have "sep d c" if d: "spans d" "\<forall>x \<in> set (cls rv k). sep d (rv ! x)" for d
  proof -
    have pair: "\<forall>x \<in> set rs. \<forall>y \<in> set rs. \<not> sep x y"
    proof (clarsimp simp: rs_def)
      fix x y assume xy: "x \<in> set (cls rv k)" "y \<in> set (cls rv k)" "sep (rv ! x) (rv ! y)"
      then have "x < length rv" "y < length rv" using less by auto
      moreover have "spans (rv ! x)" using reader_wf_nth [OF wf \<open>x < length rv\<close>] reader_wf_ok reader_ok_spans by blast
      ultimately show False
        using xy cls_ov [OF tr k xy(1,2)] ov_iff_not_sep [OF wf] by (cases "x = y") (auto simp: sep_def spans_def not_less)
    qed
    have "\<forall>r \<in> set rs. spans r \<and> sep d r"
      using d(2) less reader_wf_nth [OF wf] reader_wf_ok reader_ok_spans by (auto simp: rs_def) blast
    from sep_group_side [OF this d(1) pair] show ?thesis
      using less_fold_min_time [OF \<open>rs \<noteq> []\<close>] fold_max_time_less [OF \<open>rs \<noteq> []\<close>] by (auto simp: sep_def c(4,5))
  qed
  moreover have "reader_wf c (merged (map ((!) vss) (cls rv k)))"
    using c(2,3) by (auto simp: reader_wf_def)
  ultimately show ?thesis using False c(1) by (auto simp: class_cursor_def rs_def)
qed

lemma sorted_wrt_distinct: "distinct xs \<Longrightarrow> \<forall>x \<in> set xs. \<forall>y \<in> set xs. x \<noteq> y \<longrightarrow> R x y \<Longrightarrow> sorted_wrt R xs"
  by (induction xs) auto

lemma sep_times:
  assumes "reader_ok c ms" "reader_ok d ms'" "sep c d" "x \<in> set ms" "y \<in> set ms'"
  shows "m_time x \<noteq> m_time y"
proof -
  have "cursor_minTime c \<le> m_time x" "m_time x \<le> cursor_maxTime c"
    "cursor_minTime d \<le> m_time y" "m_time y \<le> cursor_maxTime d"
    using assms(1,2,4,5) by (simp_all add: reader_ok_def)
  then have "m_time x < m_time y \<or> m_time y < m_time x"
    using assms(3) unfolding sep_def by (meson order.strict_trans1 order.strict_trans2)
  then show ?thesis by auto
qed

lemma class_find:
  assumes wf: "list_all2 reader_wf rv vss" and tr: "ov_transitive rv" and k: "k < length rv" "is_head rv k"
    and m: "m \<in> set (merged (map ((!) vss) (cls rv k)))"
  shows "find (\<lambda>x. m_time x = m_time m) (concat vss) = Some m"
proof -
  have len: "length vss = length rv" using wf by (simp add: list_all2_lengthD)
  have less: "\<forall>x \<in> set (cls rv k). x < length rv" using cls_less k by blast
  have sorted: "\<forall>vs \<in> set (map ((!) vss) (cls rv k)). time_sorted vs"
    using less reader_wf_nth [OF wf] by (auto simp: reader_wf_def reader_ok_def time_strict_sorted)
  obtain x where x: "x \<in> set (cls rv k)" "m \<in> set (vss ! x)" using merged_set [OF m] by auto
  have none: "\<forall>i \<in> set [0..<length rv]. i \<notin> set (cls rv k) \<longrightarrow> (\<forall>y \<in> set (vss ! i). m_time y \<noteq> m_time m)"
  proof (intro ballI impI)
    fix i y assume i: "i \<in> set [0..<length rv]" "i \<notin> set (cls rv k)" "y \<in> set (vss ! i)"
    then have "sep (rv ! i) (rv ! x)"
      using cls_not_ov [OF tr k(1) _ i(2) x(1)] ov_iff_not_sep [OF wf] less x(1) by auto
    then show "m_time y \<noteq> m_time m"
      using sep_times reader_wf_nth [OF wf] reader_wf_ok i less x by (metis atLeastLessThan_iff set_upt)
  qed
  have "find (\<lambda>x. m_time x = m_time m) (concat (map ((!) vss) (cls rv k))) = Some m"
    using merged_find [OF sorted m] .
  then have "find (\<lambda>x. m_time x = m_time m) (concat (map ((!) vss) [0..<length rv])) = Some m"
    using find_concat_filter [OF none] cls_filter [OF k(2,1)] by simp
  then show ?thesis using len by (metis map_nth)
qed

definition class_heads :: "cursor list \<Rightarrow> nat list" where
  "class_heads rv = filter (\<lambda>k. peers rv k = []) [0..<length rv] @ filter (opens rv) [0..<length rv]"

lemma class_heads: "set (class_heads rv) = {k. k < length rv \<and> is_head rv k}" "distinct (class_heads rv)"
  by (auto simp: class_heads_def opens_def is_head_def)

lemma class_heads_cover:
  assumes "ov_transitive rv"
  shows "(\<Union>k \<in> set (class_heads rv). set (cls rv k)) = {..<length rv}"
proof
  show "(\<Union>k \<in> set (class_heads rv). set (cls rv k)) \<subseteq> {..<length rv}"
    using cls_less by (auto simp: class_heads)
  show "{..<length rv} \<subseteq> (\<Union>k \<in> set (class_heads rv). set (cls rv k))"
  proof
    fix i assume "i \<in> {..<length rv}"
    then show "i \<in> (\<Union>k \<in> set (class_heads rv). set (cls rv k))"
      using cls_cover [OF assms, of i] unfolding class_heads by blast
  qed
qed

lemma colapse_classes:
  assumes "ov_transitive rv" "\<forall>k \<in> set (class_heads rv). class_cursor rv k = Some (f k)"
  shows "colapseCursors rv = Some (LinearCursor_new (map f (class_heads rv)))"
proof -
  have one: "rv ! k = f k" if "k < length rv" "peers rv k = []" for k
    using bspec [OF assms(2), of k] that by (simp add: class_heads_def class_cursor_def)
  have grp: "MergeSortCursor_new (rv ! k # map ((!) rv) (peers rv k)) = Some (f k)" if "k < length rv" "opens rv k" for k
    using bspec [OF assms(2), of k] that opens_peers by (simp add: class_heads_def class_cursor_def cls_def)
  have "map ((!) rv) (filter (\<lambda>k. peers rv k = []) [0..<length rv]) = map f (filter (\<lambda>k. peers rv k = []) [0..<length rv])"
    using one by (intro map_cong) auto
  moreover have "those (map (\<lambda>(k, ps). MergeSortCursor_new (rv ! k # map ((!) rv) ps))
      (map (\<lambda>k. (k, peers rv k)) (filter (opens rv) [0..<length rv]))) = Some (map f (filter (opens rv) [0..<length rv]))"
    using grp by (intro those_map_Some) (auto simp: list_all2_map1 intro!: list.rel_refl_strong)
  ultimately show ?thesis
    using plan_distinct [OF assms(1)]
    by (simp add: colapseCursors_def collapse_plan_spec [OF assms(1)] class_heads_def del: map_map map_eq_conv)
qed

lemma colapseCursors_merges:
  assumes wf: "list_all2 reader_wf rv vss" and nm: "\<forall>r \<in> set rv. \<not> is_merge r"
    and tr: "ov_transitive rv" and ne: "rv \<noteq> []"
  shows "\<exists>c. colapseCursors rv = Some c \<and> reader_wf c (merged vss)"
proof -
  define f where "f k = the (class_cursor rv k)" for k
  define g where "g k = merged (map ((!) vss) (cls rv k))" for k
  have f: "class_cursor rv k = Some (f k)" "reader_wf (f k) (g k)"
    "spans d \<Longrightarrow> \<forall>x \<in> set (cls rv k). sep d (rv ! x) \<Longrightarrow> sep d (f k)" if "k < length rv" for k d
    using class_cursor_wf [OF wf nm tr that] by (auto simp: f_def g_def)
  have spans: "spans (rv ! x)" "spans (f x)" if "x < length rv" for x
    using reader_wf_nth [OF wf that] f(2) [OF that] reader_wf_ok reader_ok_spans by blast+
  have sp: "sep (f k) (f l)"
    if kl: "k \<in> set (class_heads rv)" "l \<in> set (class_heads rv)" "k \<noteq> l" for k l
  proof -
    have k: "k < length rv" "l < length rv" "is_head rv k" "is_head rv l" using kl by (auto simp: class_heads)
    have "sep (f k) (rv ! y)" if y: "y \<in> set (cls rv l)" for y
    proof -
      have "y < length rv" "y \<notin> set (cls rv k)"
        using y cls_less [OF k(2)] cls_disjoint(2) [OF tr k(1,2,3,4) kl(3)] by auto
      then show ?thesis
        using f(3) [OF k(1), of "rv ! y"] spans(1) cls_not_ov [OF tr k(1)] ov_iff_not_sep [OF wf] cls_less [OF k(1)]
        by (metis sep_sym)
    qed
    then show ?thesis using f(3) [OF k(2) spans(2) [OF k(1)]] by blast
  qed
  have "list_all2 reader_wf (map f (class_heads rv)) (map g (class_heads rv))"
    using f(2) by (auto simp: list_all2_map1 list_all2_map2 class_heads intro!: list.rel_refl_strong)
  moreover have "sorted_wrt sep (map f (class_heads rv))"
    unfolding sorted_wrt_map using sp class_heads(2) by (intro sorted_wrt_distinct) auto
  moreover have "class_heads rv \<noteq> []"
    using cls_cover [OF tr, of 0] ne class_heads(1) [of rv] by force
  ultimately obtain ms where ms: "reader_wf (LinearCursor_new (map f (class_heads rv))) ms"
    "set ms = (\<Union>k \<in> set (class_heads rv). set (g k))"
    using LinearCursor_new_wf by force
  have sorted: "time_sorted vs" if "vs \<in> set vss" for vs
    using wf that by (metis in_set_conv_nth list_all2_conv_all_nth reader_wf_def reader_ok_def time_strict_sorted)
  have len: "length vss = length rv" using wf by (simp add: list_all2_lengthD)
  have vset: "set vss = (!) vss ` {..<length rv}" using len by (auto simp: set_conv_nth)
  have gt: "m_time ` set (g k) = (\<Union>x \<in> set (cls rv k). m_time ` set (vss ! x))" if "k < length rv" for k
    unfolding g_def using merged_times [of "map ((!) vss) (cls rv k)"] sorted cls_less [OF that] len by auto
  have "ms = merged vss"
  proof (rule merged_unique)
    show "time_strict ms" using ms(1) by (simp add: reader_wf_def reader_ok_def)
    show "\<forall>m \<in> set ms. find (\<lambda>x. m_time x = m_time m) (concat vss) = Some m"
      using class_find [OF wf tr] ms(2) by (auto simp: class_heads g_def)
    have "m_time ` set ms = (\<Union>k \<in> set (class_heads rv). \<Union>x \<in> set (cls rv k). m_time ` set (vss ! x))"
      using gt ms(2) by (auto simp: class_heads image_UN)
    also have "\<dots> = (\<Union>x \<in> {..<length rv}. m_time ` set (vss ! x))"
      by (simp only: UN_UN_flatten [symmetric] class_heads_cover [OF tr])
    also have "\<dots> = (\<Union>vs \<in> set vss. m_time ` set vs)"
      using vset by simp
    finally show "m_time ` set ms = (\<Union>vs \<in> set vss. m_time ` set vs)" .
  qed (use sorted in blast)
  then show ?thesis
    using ms(1) colapse_classes [OF tr] f(1) by (auto simp: class_heads)
qed

end
