(* ===== verification/ChunkAccess.thy ===== *)
theory ChunkAccess
  imports CollapseCorrect
begin

text \<open>
  The operations of a chunk that use cursors, \<^verbatim>\<open>getReader\<close> and \<^verbatim>\<open>stat\<close> of
  \<^verbatim>\<open>storage/chunk.cpp\<close>, and what a reader of a chunk returns.
\<close>

section \<open>Operations\<close>

text \<open>An unsorted chunk is read into an array of \<^verbatim>\<open>stat.count\<close> values that is then sorted; positions
  the loop does not reach keep the default value.  A write past the array has no value.\<close>

definition Chunk_getReader :: "Chunk \<Rightarrow> cursor option" where
  "Chunk_getReader c = (
     let h = c_header c; cnt = s_count (ch_stat h);
         b_ptr = ByteBuffer_new (bb_data (c_bw c));
         raw_res = ChunkReader_new (unat (cnt - 1)) c b_ptr (CopmressedReader_new (ChunkHeader_first h)) in
     if \<not> ch_is_sorted h then do {
       vs \<leftarrow> read_values (ChunkC raw_res);
       if length vs \<le> unat cnt then
         let ma = vs @ replicate (unat cnt - length vs) Meas_empty in
         Some (FullC (FullCursor_new (sort_key m_time ma)))
       else None }
     else Some (ChunkC raw_res))"

definition Chunk_stat :: "Chunk \<Rightarrow> Time \<Rightarrow> Time \<Rightarrow> Statistic option" where
  "Chunk_stat c from to = (let st = ch_stat (c_header c) in
     if inInterval from to (s_minTime st) \<and> inInterval from to (s_maxTime st) then Some st
     else do {
       rdr \<leftarrow> Chunk_getReader c;
       map_option fst (apply_loop cursor_is_end readNext (\<lambda>_. False) (\<lambda>m s. stat_update s m)
         (\<lambda>m. inInterval from to (m_time m)) (Suc (pending rdr)) rdr Statistic_empty) })"

text \<open>A sequence of appends to a chunk, as far as they succeed.\<close>

fun Chunk_append_list :: "Chunk \<Rightarrow> Meas list \<Rightarrow> (bool \<times> Chunk) option" where
  "Chunk_append_list c [] = Some (True, c)"
| "Chunk_append_list c (m # ms) = do {
     (ok, c1) \<leftarrow> Chunk_append c m;
     if ok then Chunk_append_list c1 ms else Some (False, c1) }"

section \<open>The reader of a chunk\<close>

lemma length_enc_list: "length xs \<le> length (enc_list meas_enc meas_step s xs)"
proof (induction xs arbitrary: s)
  case (Cons x xs)
  have "1 \<le> length (meas_enc s x)"
    using length_delta_bytes [of "m_time x - dd_prev_time (r_time s) - dd_prev_delta (r_time s)"]
    by (auto simp: meas_enc_def time_enc_def)
  then show ?case using Cons.IH [of "meas_step s x"] by simp
qed simp

lemma chunk_holds_count:
  assumes "chunk_holds c ms"
  shows "length ms < 2 ^ 32" "unat (s_count (ch_stat (c_header c))) = length ms"
    "unat (s_count (ch_stat (c_header c)) - 1) = length ms - 1"
proof -
  obtain m0 rest junk where h: "ms = m0 # rest" "bb_ok (c_bw c)" "ch_stat (c_header c) = stat_of ms"
    "bb_written (c_bw c) = enc_list meas_enc meas_step (CopmressedReader_new m0) rest @ junk"
    using assms by (auto simp: chunk_holds_def)
  have "length rest \<le> length (bb_written (c_bw c))"
    using length_enc_list [of rest "CopmressedReader_new m0"] h(4) by simp
  also have "\<dots> \<le> length (bb_data (c_bw c)) - 1" by (simp add: bb_written_def)
  finally show len: "length ms < 2 ^ 32" using h(1,2) by (auto simp: bb_ok_def)
  have cnt: "s_count (ch_stat (c_header c)) = of_nat (length ms)" by (simp add: h(3) stat_count)
  then show u: "unat (s_count (ch_stat (c_header c))) = length ms"
    using len by (simp add: unat_of_nat take_bit_eq_mod)
  show "unat (s_count (ch_stat (c_header c)) - 1) = length ms - 1"
    using unat_pos_minus [of 1 "s_count (ch_stat (c_header c))"] u h(1) by simp
qed

lemma bb_at_new: "bb_ok b \<Longrightarrow> bb_at (ByteBuffer_new (bb_data b)) (bb_data b) (bb_written b @ bb_stream b)"
  using bb_at_written [of b]
  by (simp add: bb_at_def ByteBuffer_new_def reset_pos_def bb_ok_def bb_stream_def)

lemma chunk_reader_new_rep:
  assumes "chunk_holds c ms"
  shows "chunk_reader_rep (ChunkReader_new (unat (s_count (ch_stat (c_header c)) - 1)) c (ByteBuffer_new (bb_data (c_bw c)))
      (CopmressedReader_new (ChunkHeader_first (c_header c)))) (cr_values ms)"
proof -
  obtain m0 rest junk where h: "ms = m0 # rest" "bb_ok (c_bw c)" "ChunkHeader_first (c_header c) = m0"
    "bb_written (c_bw c) = enc_list meas_enc meas_step (CopmressedReader_new m0) rest @ junk"
    "valid_list meas_valid meas_step (CopmressedReader_new m0) rest"
    using assms by (auto simp: chunk_holds_def)
  show ?thesis
    using bb_at_new [OF h(2)] h chunk_holds_count(3) [OF assms]
    by (auto simp: chunk_reader_rep_def ChunkReader_new_def)
qed

lemma cr_values_distinct: "distinct (map m_time ms) \<Longrightarrow> cr_values ms = ms"
  by (induction ms rule: cr_values.induct) (auto simp: Let_def)

lemma dedup_strict: "time_strict ms \<Longrightarrow> dedup ms = ms"
proof (induction ms rule: dedup.induct)
  case (2 m ms)
  then have "dropWhile (\<lambda>x. m_time x = m_time m) ms = ms" by (cases ms) auto
  then show ?case using 2 by simp
qed simp

lemma sort_strict: "distinct (map m_time ms) \<Longrightarrow> time_strict (sort_key m_time ms)"
  by (simp add: time_strict_def strict_sorted_iff distinct_map mset_eq_setD [of "sort_key m_time ms"] flip: mset_map)

lemma fold_min_meas: "fold (\<lambda>v t. min t (m_time v)) ms t0 = Min (insert t0 (m_time ` set ms))"
proof (induction ms arbitrary: t0)
  case (Cons m ms)
  then show ?case by (cases "ms = []") (simp_all add: min.assoc)
qed simp

lemma fold_max_meas: "fold (\<lambda>v t. max t (m_time v)) ms t0 = Max (insert t0 (m_time ` set ms))"
proof (induction ms arbitrary: t0)
  case (Cons m ms)
  then show ?case by (cases "ms = []") (simp_all add: max.assoc)
qed simp

lemma FullCursor_new_wf:
  assumes "time_strict ms" "ms \<noteq> []" "below_max ms"
  shows "reader_wf (FullC (FullCursor_new ms)) ms"
proof -
  have "cursor_rep (FullC (FullCursor_new ms)) ms"
    using dedup_strict [OF assms(1)] by (intro rep_full) (simp add: full_rep_def FullCursor_new_def)
  then show ?thesis
    using assms by (auto simp: reader_wf_def reader_ok_def FullCursor_new_def fold_min_meas fold_max_meas)
qed

lemma chunk_times:
  assumes "chunk_holds c ms" "m \<in> set ms"
  shows "s_minTime (ch_stat (c_header c)) \<le> m_time m" "m_time m \<le> s_maxTime (ch_stat (c_header c))"
proof -
  have "ch_stat (c_header c) = stat_of ms" "ms \<noteq> []" using assms by (auto simp: chunk_holds_def)
  then show "s_minTime (ch_stat (c_header c)) \<le> m_time m" "m_time m \<le> s_maxTime (ch_stat (c_header c))"
    using assms(2) by (simp_all add: stat_minTime stat_maxTime)
qed

lemma chunk_getReader_wf:
  assumes c: "chunk_holds c ms" and d: "distinct (map m_time ms)" and b: "below_max ms"
  shows "\<exists>r. Chunk_getReader c = Some r \<and> reader_wf r (sort_key m_time ms) \<and> \<not> is_merge r"
proof -
  define raw where "raw = ChunkReader_new (unat (s_count (ch_stat (c_header c)) - 1)) c (ByteBuffer_new (bb_data (c_bw c)))
      (CopmressedReader_new (ChunkHeader_first (c_header c)))"
  have rep: "cursor_rep (ChunkC raw) ms"
    using chunk_reader_new_rep [OF c] cr_values_distinct [OF d] by (auto simp: raw_def intro: rep_chunk)
  have ne: "ms \<noteq> []" using c by (auto simp: chunk_holds_def)
  have st: "time_strict (sort_key m_time ms)" "below_max (sort_key m_time ms)" "sort_key m_time ms \<noteq> []"
    using sort_strict [OF d] b ne by (auto simp: below_max_def) (metis set_empty set_sort)
  show ?thesis
  proof (cases "ch_is_sorted (c_header c)")
    case True
    then have "sorted (map m_time ms)" using c by (auto simp: chunk_holds_def)
    then have id: "sort_key m_time ms = ms" by (simp add: sorted_sort_id sort_key_id_if_sorted)
    have "reader_ok (ChunkC raw) ms"
      using rep st id chunk_times [OF c] by (auto simp: reader_ok_def raw_def ChunkReader_new_def)
    then have "reader_wf (ChunkC raw) ms" by (auto simp: reader_wf_def)
    then show ?thesis using True id by (simp add: Chunk_getReader_def Let_def raw_def)
  next
    case False
    then show ?thesis
      using read_values_rep [OF rep] chunk_holds_count(2) [OF c] FullCursor_new_wf [OF st(1,3,2)]
      by (simp add: Chunk_getReader_def Let_def raw_def)
  qed
qed

text \<open>How many of the values fit into a number of free bytes.\<close>

fun fit_count :: "nat \<Rightarrow> CopmressedReader \<Rightarrow> Meas list \<Rightarrow> nat" where
  "fit_count free s [] = 0"
| "fit_count free s (m # ms) = (let n = length (meas_enc s m) in
     if n \<le> free then Suc (fit_count (free - n) (meas_step s m) ms) else 0)"

lemma fit_count_le: "fit_count free s ms \<le> length ms"
  by (induction ms arbitrary: free s) (simp_all add: Let_def)

lemma chunk_append_list_holds:
  assumes "chunk_writes c ms" "valid_list meas_valid meas_step (chunk_state ms) ns"
    "k = fit_count (bb_free_size (c_bw c)) (chunk_state ms) ns"
  shows "\<exists>c'. Chunk_append_list c ns = Some (k = length ns, c') \<and> chunk_holds c' (ms @ take k ns) \<and>
    (if k = length ns then chunk_writes c' (ms @ ns) else Chunk_isFull c')"
  using assms
proof (induction ns arbitrary: c ms k)
  case Nil
  then show ?case by (auto simp: chunk_writes_def)
next
  case (Cons n ns)
  have ne: "ms \<noteq> []" using Cons.prems(1) by (auto simp: chunk_writes_def chunk_holds_def)
  show ?case
  proof (cases "length (meas_enc (chunk_state ms) n) \<le> bb_free_size (c_bw c)")
    case True
    then obtain c1 where c1: "Chunk_append c n = Some (True, c1)" "chunk_writes c1 (ms @ [n])"
      "bb_free_size (c_bw c1) = bb_free_size (c_bw c) - length (meas_enc (chunk_state ms) n)"
      using chunk_append_fits [OF Cons.prems(1)] Cons.prems(2) by auto
    then show ?thesis
      using Cons.IH [OF c1(2) _ refl] Cons.prems(2,3) ne True by (auto simp: Let_def)
  next
    case False
    then obtain c' where "Chunk_append c n = Some (False, c')" "chunk_holds c' ms" "Chunk_isFull c'"
      using chunk_append_refused [OF Cons.prems(1), of n] Cons.prems(2) by auto
    then show ?thesis using False Cons.prems(3) by (simp add: Let_def)
  qed
qed

section \<open>Compaction and statistics\<close>

lemma compact_sizes:
  assumes "unat (p :: u32) < n" "n < 2 ^ 32" "p \<noteq> 0"
  shows "unat (of_nat n - p + 1) = n - (unat p - 1)" "unat (of_nat n - (of_nat n - p + 1)) = unat p - 1"
proof -
  have p: "of_nat (unat p) = p" "0 < unat p" using assms(3) by (simp_all add: unat_gt_0)
  have e1: "of_nat n - p + 1 = (of_nat (n - (unat p - 1)) :: u32)"
    using p assms by simp
  have e2: "of_nat n - (of_nat n - p + 1) = (of_nat (unat p - 1) :: u32)"
    using p by simp
  show "unat (of_nat n - p + 1) = n - (unat p - 1)"
    unfolding e1 using assms by (intro unat_of_nat_u32) simp
  show "unat (of_nat n - (of_nat n - p + 1)) = unat p - 1"
    unfolding e2 using assms by (intro unat_of_nat_u32) simp
qed

lemma chunk_compact_holds:
  assumes "chunk_holds c ms" "Chunk_compact (c_header c) = (skip, h)"
  shows "chunk_holds (Chunk_open h (drop (unat skip) (bb_data (c_bw c)))) ms"
    and "unat skip + unat (ch_size h) = length (bb_data (c_bw c))"
proof -
  define d where "d = bb_data (c_bw c)"
  define p where "p = ch_bw_pos (c_header c)"
  obtain m0 rest junk where c: "ms = m0 # rest" "ChunkHeader_first (c_header c) = m0" "ch_stat (c_header c) = stat_of ms"
    "length d < 2 ^ 32" "ch_size (c_header c) = of_nat (length d)" "unat p < length d"
    "bb_written (set_pos (c_bw c) p) = enc_list meas_enc meas_step (CopmressedReader_new m0) rest @ junk"
    "valid_list meas_valid meas_step (CopmressedReader_new m0) rest"
    "m_time (ch_data_last (c_header c)) = m_time (last ms)"
    "ch_is_sorted (c_header c) = sorted_wrt (\<le>) (map m_time ms)"
    using assms(1) by (auto simp: chunk_holds_def bb_ok_def d_def p_def)
  define q where "q = (if p = 0 then 0 else unat p - 1)"
  have size: "unat (of_nat (length d) :: u32) = length d" using c(4) by (simp add: unat_of_nat take_bit_eq_mod)
  have h: "unat skip = q" "ch_bw_pos h = 0" "unat (ch_size h) = length d - q" "ch_data_last h = ch_data_last (c_header c)"
    "ch_is_sorted h = ch_is_sorted (c_header c)" "ch_stat h = ch_stat (c_header c)"
    "ChunkHeader_first h = ChunkHeader_first (c_header c)"
    using assms(2) c(5,6) compact_sizes [of p "length d"] c(4) size
    by (auto simp: Chunk_compact_def p_def [symmetric] q_def Let_def split: if_splits)
  define e where "e = drop q d"
  have q: "q < length d" "length e = length d - q" using c(6) by (auto simp: q_def e_def)
  then show "unat skip + unat (ch_size h) = length (bb_data (c_bw c))" using h by (simp add: d_def)
  have bw: "c_bw (Chunk_open h e) = \<lparr>bb_data = e, bb_cap = of_nat (length e), bb_pos = 0\<rparr>"
    using h q by (simp add: Chunk_open_def ByteBuffer_new_def reset_pos_def set_pos_def)
  have "bb_written (c_bw (Chunk_open h e)) = rev (drop q (take (length d - 1) d))"
    unfolding bw bb_written_def using q by (simp add: e_def take_drop)
  also have "\<dots> = rev (drop (unat p) (take (length d - 1) d)) @ rev (take (unat p - q) (drop q (take (length d - 1) d)))"
  proof -
    have "unat p - q + q = unat p" by (simp add: q_def)
    then have "take (unat p - q) (drop q X) @ drop (unat p) X = drop q X" for X :: "u8 list"
      using append_take_drop_id [of "unat p - q" "drop q X"] by simp
    then show ?thesis by (metis rev_append)
  qed
  also have "rev (drop (unat p) (take (length d - 1) d)) = bb_written (set_pos (c_bw c) p)"
    by (simp add: bb_written_def set_pos_def d_def)
  finally have w: "\<exists>junk. bb_written (c_bw (Chunk_open h e)) = enc_list meas_enc meas_step (CopmressedReader_new m0) rest @ junk"
    using c(7) by auto
  have sp: "set_pos (c_bw (Chunk_open h e)) (ch_bw_pos h) = c_bw (Chunk_open h e)" using h(2) by (simp add: bw set_pos_def)
  have "of_nat (unat (ch_size h)) = ch_size h" by simp
  then have sz: "ch_size h = of_nat (length e)" using h(3) q(2) by metis
  have ok: "bb_ok (c_bw (Chunk_open h e))" "length (bb_data (c_bw (Chunk_open h e))) = length e" "0 < length e"
    using q c(4) by (auto simp: bw bb_ok_def)
  have hd: "c_header (Chunk_open h e) = h" by (simp add: Chunk_open_def)
  have "chunk_holds (Chunk_open h e) ms"
    unfolding chunk_holds_def hd sp
    using w by (elim exE) (rule exI [of _ m0], rule exI [of _ rest], use c h(2,4-7) ok sz in auto)
  then show "chunk_holds (Chunk_open h (drop (unat skip) (bb_data (c_bw c)))) ms"
    by (simp add: h(1) e_def d_def)
qed

end
