(* ===== verification/ReadPath.thy ===== *)
theory ReadPath
  imports ChunkAccess
begin

text \<open>
  Properties of the path a stored value takes: values are appended to a chunk, the chunk may be
  compacted and opened again, readers of several chunks are collapsed into one cursor, and a
  query runs over that cursor.
\<close>

lemma time_valid_code [code]:
  "time_valid s t \<longleftrightarrow> (let D = t - dd_prev_time s - dd_prev_delta s in
     \<not> (delta_3b_range D \<and> sint D < 0 \<and> \<not> bit D 0))"
  by (simp add: time_valid_def Let_def bit_0)

section \<open>Chunks\<close>

text \<open>What the reader of a chunk returns for the values the chunk was given.  A chunk that was
  filled out of order is read into an array of as many values as were appended; the values the
  raw reader skipped leave default values in it.\<close>

definition chunk_view :: "Meas list \<Rightarrow> Meas list" where
  "chunk_view ms = (if sorted (map m_time ms) then cr_values ms
     else dedup (sort_key m_time (cr_values ms @ replicate (length ms - length (cr_values ms)) Meas_empty)))"

lemma chunk_getReader_view:
  assumes c: "chunk_holds c ms"
  shows "\<exists>r. Chunk_getReader c = Some r \<and> cursor_rep r (chunk_view ms)"
proof -
  define raw where "raw = ChunkReader_new (unat (s_count (ch_stat (c_header c)) - 1)) c (ByteBuffer_new (bb_data (c_bw c)))
      (CopmressedReader_new (ChunkHeader_first (c_header c)))"
  have rep: "cursor_rep (ChunkC raw) (cr_values ms)"
    using chunk_reader_new_rep [OF c] by (auto simp: raw_def intro: rep_chunk)
  have full: "cursor_rep (FullC (FullCursor_new xs)) (dedup xs)" for xs
    by (intro rep_full) (simp add: full_rep_def FullCursor_new_def)
  have "ch_is_sorted (c_header c) = sorted (map m_time ms)"
    using c by (auto simp: chunk_holds_def)
  then show ?thesis
    using rep full read_values_rep [OF rep] chunk_holds_count(2) [OF c] length_cr_values [of ms]
    by (simp add: Chunk_getReader_def Let_def raw_def [symmetric] chunk_view_def)
qed

lemma chunk_view_distinct: "distinct (map m_time ms) \<Longrightarrow> chunk_view ms = sort_key m_time ms"
  by (simp add: chunk_view_def cr_values_distinct dedup_strict sort_strict sorted_sort_id sort_key_id_if_sorted)

lemma chunk_fill:
  assumes "0 < sz" "valid_list meas_valid meas_step (CopmressedReader_new m) ms"
    "k = fit_count (unat sz - 1) (CopmressedReader_new m) ms"
  shows "\<exists>c0 c. Chunk_create hdr sz m = Some c0 \<and> Chunk_append_list c0 ms = Some (k = length ms, c) \<and>
    chunk_holds c (m # take k ms) \<and> (k < length ms \<longrightarrow> Chunk_isFull c)"
proof -
  obtain c0 where c0: "Chunk_create hdr sz m = Some c0" "chunk_writes c0 [m]" "bb_free_size (c_bw c0) = unat sz - 1"
    using chunk_create_writes [OF assms(1)] by blast
  then show ?thesis
    using chunk_append_list_holds [OF c0(2), of ms k] assms(2,3) by (auto simp: chunk_state_def)
qed

lemma chunk_stat_values:
  assumes c: "chunk_holds c ms" and d: "distinct (map m_time ms)"
  shows "\<exists>vs. Chunk_stat c from to = Some (stat_of vs) \<and> mset vs = mset (filter (\<lambda>x. inInterval from to (m_time x)) ms)"
proof (cases "inInterval from to (s_minTime (ch_stat (c_header c))) \<and> inInterval from to (s_maxTime (ch_stat (c_header c)))")
  case True
  then have "filter (\<lambda>x. inInterval from to (m_time x)) ms = ms"
    using chunk_times [OF c] by (fastforce simp: inInterval_def filter_id_conv)
  moreover have "ch_stat (c_header c) = stat_of ms" using c by (auto simp: chunk_holds_def)
  ultimately show ?thesis using True by (auto simp: Chunk_stat_def)
next
  case False
  obtain r where r: "Chunk_getReader c = Some r" "cursor_rep r (sort_key m_time ms)"
    using chunk_getReader_view [OF c] unfolding chunk_view_distinct [OF d] by blast
  define vs where "vs = filter (\<lambda>x. inInterval from to (m_time x)) (sort_key m_time ms)"
  have "Chunk_stat c from to = Some (stat_of vs)"
    using cursor.apply_loop_rep [OF r(2), of "Suc (pending r)" "\<lambda>m s. stat_update s m" "\<lambda>m. inInterval from to (m_time m)" Statistic_empty]
      cursor_pending [OF r(2)] False r(1)
    by (auto simp: Chunk_stat_def stat_of_def vs_def)
  then show ?thesis by (auto simp: vs_def)
qed

text \<open>C1: a chunk of \<open>sz\<close> bytes created with a first value takes exactly the longest prefix of the
  following values whose encoding fits into \<open>sz - 1\<close> bytes, reports the refusal of the next
  one and is full then; its reader returns the values it took in the order of their times.  The values have
  distinct times before \<^verbatim>\<open>MAX_TIME\<close> and are ones the codec reproduces.\<close>

theorem chunk_round_trip:
  assumes "0 < sz" "valid_list meas_valid meas_step (CopmressedReader_new m) ms"
    "distinct (map m_time (m # ms))" "below_max (m # ms)"
    "k = fit_count (unat sz - 1) (CopmressedReader_new m) ms"
  shows "\<exists>c0 c r. Chunk_create hdr sz m = Some c0 \<and> Chunk_append_list c0 ms = Some (k = length ms, c) \<and>
    (k < length ms \<longrightarrow> Chunk_isFull c) \<and>
    Chunk_getReader c = Some r \<and> read_values r = Some (sort_key m_time (m # take k ms))"
proof -
  obtain c0 c where c: "Chunk_create hdr sz m = Some c0" "Chunk_append_list c0 ms = Some (k = length ms, c)"
    "chunk_holds c (m # take k ms)" "k < length ms \<longrightarrow> Chunk_isFull c"
    using chunk_fill [OF assms(1,2,5)] by blast
  have d: "distinct (map m_time (m # take k ms))"
    using assms(3) distinct_take [of "map m_time (m # ms)" "Suc k"] by (simp only: take_map take_Suc_Cons)
  obtain r where "Chunk_getReader c = Some r" "cursor_rep r (sort_key m_time (m # take k ms))"
    using chunk_getReader_view [OF c(3)] unfolding chunk_view_distinct [OF d] by blast
  then show ?thesis
    using c(1,2,4) read_values_rep by blast
qed

text \<open>Input of the examples below: the header of an empty chunk and measurements of one series.\<close>

definition example_header :: ChunkHeader where
  "example_header = \<lparr>ch_id = 0, ch_meas_id = 0, ch_data_first = Meas_empty, ch_data_last = Meas_empty, ch_bw_pos = 0,
     ch_size = 0, ch_crc = 0, ch_offset_in_page = 0, ch_stat = Statistic_empty, ch_is_sorted = True\<rparr>"

definition example_meas :: "Time \<Rightarrow> Value \<Rightarrow> Flag \<Rightarrow> Meas" where
  "example_meas t v f = \<lparr>m_id = 1, m_time = t, m_value = v, m_flag = f\<rparr>"

lemma example_valid:
  "valid_list meas_valid meas_step (CopmressedReader_new (example_meas 100 0 1)) [example_meas 90 7 300, example_meas 120 7 0]"
  "fit_count 8 (CopmressedReader_new (example_meas 100 0 1)) [example_meas 90 7 300, example_meas 120 7 0] = 1"
  by code_simp+

theorem chunk_round_trip_witness:
  "\<exists>c0 c r. Chunk_create example_header 9 (example_meas 100 0 1) = Some c0 \<and>
    Chunk_append_list c0 [example_meas 90 7 300, example_meas 120 7 0] = Some (False, c) \<and> Chunk_isFull c \<and>
    Chunk_getReader c = Some r \<and> read_values r = Some [example_meas 90 7 300, example_meas 100 0 1]"
  using chunk_round_trip [OF _ example_valid(1), of 9 1 example_header] example_valid(2)
  by (simp add: example_meas_def below_max_def MAX_TIME_def)


lemma example_dups:
  "valid_list meas_valid meas_step (CopmressedReader_new (example_meas 5 0 1)) [example_meas 5 1 2, example_meas 3 0 0]"
  "fit_count 31 (CopmressedReader_new (example_meas 5 0 1)) [example_meas 5 1 2, example_meas 3 0 0] = 2"
  "chunk_view [example_meas 5 0 1, example_meas 5 1 2, example_meas 3 0 0] = [Meas_empty, example_meas 3 0 0, example_meas 5 0 1]"
  by code_simp+


text \<open>C28: compaction of the header of a chunk and opening the buffer from the byte it says keeps what
  the chunk's reader returns, and the skipped bytes and the remaining ones are the whole buffer.\<close>

theorem chunk_compact_keeps:
  assumes "0 < sz" "valid_list meas_valid meas_step (CopmressedReader_new m) ms"
    "Chunk_create hdr sz m = Some c0" "Chunk_append_list c0 ms = Some (ok, c)"
    "Chunk_compact (c_header c) = (skip, h)"
  shows "unat skip + unat (ch_size h) = length (bb_data (c_bw c)) \<and>
    (\<exists>r r'. Chunk_getReader c = Some r \<and> Chunk_getReader (Chunk_open h (drop (unat skip) (bb_data (c_bw c)))) = Some r' \<and>
       read_values r' = read_values r \<and> read_values r \<noteq> None)"
proof -
  obtain k where holds: "chunk_holds c (m # take k ms)"
    using chunk_fill [OF assms(1,2) refl, of hdr] assms(3,4) by auto
  note after = chunk_compact_holds [OF holds assms(5)]
  show ?thesis
    using chunk_getReader_view [OF holds] chunk_getReader_view [OF after(1)] read_values_rep after(2) by fastforce
qed

definition example_chunk :: "Chunk option" where
  "example_chunk = Option.bind (Chunk_create example_header 32 (example_meas 5 0 1))
     (\<lambda>c0. map_option snd (Chunk_append_list c0 [example_meas 5 1 2, example_meas 3 0 0]))"

lemma example_chunk_skip: "map_option (\<lambda>c. fst (Chunk_compact (c_header c))) example_chunk = Some 20"
  by code_simp

theorem chunk_compact_keeps_witness:
  "\<exists>c h r r'. example_chunk = Some c \<and> Chunk_compact (c_header c) = (20, h) \<and> Chunk_getReader c = Some r \<and>
     Chunk_getReader (Chunk_open h (drop 20 (bb_data (c_bw c)))) = Some r' \<and> read_values r' = read_values r"
proof -
  obtain c0 ok c h where c: "Chunk_create example_header 32 (example_meas 5 0 1) = Some c0"
    "Chunk_append_list c0 [example_meas 5 1 2, example_meas 3 0 0] = Some (ok, c)" "Chunk_compact (c_header c) = (20, h)"
    using example_chunk_skip
    by (auto simp: example_chunk_def bind_eq_Some_conv simp del: Chunk_append_list.simps) (metis prod.collapse)
  then show ?thesis
    using chunk_compact_keeps [OF _ example_dups(1) c] by (auto simp: example_chunk_def simp del: Chunk_append_list.simps)
qed



section \<open>Cursors\<close>

text \<open>C2: if the overlap of the time intervals of the readers is transitive, \<^verbatim>\<open>colapseCursors\<close> gives a
  cursor that returns every time of the readers exactly once, in increasing order, with the value of
  the first reader that has it.\<close>

theorem colapse_reads_all:
  assumes "list_all2 reader_wf rv vss" "\<forall>r \<in> set rv. \<not> is_merge r" "ov_transitive rv" "rv \<noteq> []"
  shows "\<exists>c vs. colapseCursors rv = Some c \<and> read_values c = Some vs \<and> sorted_wrt (<) (map m_time vs) \<and>
    m_time ` set vs = (\<Union>ws \<in> set vss. m_time ` set ws) \<and>
    (\<forall>m \<in> set vs. find (\<lambda>x. m_time x = m_time m) (concat vss) = Some m)"
proof -
  obtain c where c: "colapseCursors rv = Some c" "reader_wf c (merged vss)"
    using colapseCursors_merges [OF assms] by blast
  have "\<forall>vs \<in> set vss. time_sorted vs"
    using assms(1) by (auto simp: list_all2_conv_all_nth in_set_conv_nth reader_wf_def reader_ok_def time_strict_sorted)
  note sorted = merged_strict [OF this] merged_times [OF this] merged_find [OF this]
  have "read_values c = Some (merged vss)"
    using c(2) by (intro read_values_rep) (simp add: reader_wf_def reader_ok_def)
  then show ?thesis
    using c(1) sorted by (auto simp: time_strict_def)
qed

definition example_arrays :: "Meas list list" where
  "example_arrays = [[example_meas 1 10 0, example_meas 5 11 0], [example_meas 3 12 0, example_meas 5 13 0],
     [example_meas 8 14 0], [example_meas 7 15 0, example_meas 9 16 0]]"

lemma example_arrays_wf:
  "list_all2 reader_wf (map (\<lambda>vs. FullC (FullCursor_new vs)) example_arrays) example_arrays"
  by (auto simp: example_arrays_def example_meas_def below_max_def MAX_TIME_def intro!: FullCursor_new_wf)

definition bounds_hit :: "Time \<times> Time \<Rightarrow> Time \<times> Time \<Rightarrow> bool" where
  "bounds_hit a b = intervalsIntersection (fst a) (snd a) (fst b) (snd b)"

lemma ov_transitive_bounds:
  "ov_transitive rv \<longleftrightarrow> (let bs = map (\<lambda>r. (cursor_minTime r, cursor_maxTime r)) rv in
     \<forall>a \<in> set bs. \<forall>b \<in> set bs. \<forall>c \<in> set bs. bounds_hit a b \<longrightarrow> bounds_hit b c \<longrightarrow> bounds_hit a c)"
  by (simp add: ov_transitive_def ov_def is_linear_readers_def bounds_hit_def Let_def all_set_conv_all_nth) blast

lemma example_arrays_transitive: "ov_transitive (map (\<lambda>vs. FullC (FullCursor_new vs)) example_arrays)"
  unfolding ov_transitive_bounds Let_def by code_simp

theorem colapse_reads_all_witness:
  "\<exists>c vs. colapseCursors (map (\<lambda>vs. FullC (FullCursor_new vs)) example_arrays) = Some c \<and> read_values c = Some vs \<and>
     m_time ` set vs = {1, 3, 5, 7, 8, 9}"
proof -
  have "(\<Union>ws \<in> set example_arrays. m_time ` set ws) = {1, 3, 5, 7, 8, 9}"
    by (auto simp: example_arrays_def example_meas_def)
  then show ?thesis
    using colapse_reads_all [OF example_arrays_wf _ example_arrays_transitive] by (auto simp: example_arrays_def)
qed

text \<open>Overlap that is not transitive: the second of these readers is put beside the others and into
  their merge, so two cursors would advance one object.\<close>

lemma colapse_shares_reader:
  "collapse_plan (map (\<lambda>vs. FullC (FullCursor_new vs)) [[example_meas 0 0 0, example_meas 10 0 0],
     [example_meas 15 0 0, example_meas 25 0 0], [example_meas 5 0 0, example_meas 20 0 0]]) = ([1], [(0, [1, 2])])"
  by code_simp



text \<open>C3: reading a time point from the collapsed cursor gives the value with the latest time not after
  the point among the matching ones, and the default value if there is none.\<close>

theorem time_point_latest:
  assumes "list_all2 reader_wf rv vss" "\<forall>r \<in> set rv. \<not> is_merge r" "ov_transitive rv" "rv \<noteq> []"
  shows "\<exists>c vs m. colapseCursors rv = Some c \<and> read_values c = Some vs \<and> read_time_point q c = Some m \<and>
    (let cand = filter (\<lambda>v. m_time v \<le> q_time_point q \<and> inQuery v (q_ids q) (q_flag q)) vs in
     if cand = [] then m = Meas_empty else m \<in> set cand \<and> (\<forall>v \<in> set cand. m_time v \<le> m_time m))"
proof -
  obtain c where c: "colapseCursors rv = Some c" "cursor_rep c (merged vss)" "time_strict (merged vss)"
    using colapseCursors_merges [OF assms] by (auto simp: reader_wf_def reader_ok_def)
  define cand where "cand = filter (\<lambda>v. m_time v \<le> q_time_point q \<and> inQuery v (q_ids q) (q_flag q)) (merged vss)"
  have "time_sorted cand"
    using time_strict_sorted [OF c(3)] by (simp add: cand_def time_sorted_def sorted_filter)
  then have "cand \<noteq> [] \<Longrightarrow> \<forall>v \<in> set cand. m_time v \<le> m_time (last cand)"
    by (cases cand rule: rev_cases) (auto simp: time_sorted_def sorted_append)
  then have m: "if cand = [] then last (Meas_empty # cand) = Meas_empty
      else last (Meas_empty # cand) \<in> set cand \<and> (\<forall>v \<in> set cand. m_time v \<le> m_time (last (Meas_empty # cand)))"
    by simp
  have "read_time_point q c = Some (last (Meas_empty # cand))"
    using cursor.time_point_loop_rep [OF c(2), of "Suc (pending c)" q Meas_empty] cursor_pending [OF c(2)]
    by (simp add: read_time_point_def cand_def)
  then show ?thesis
    using m c(1) read_values_rep [OF c(2)] unfolding cand_def Let_def by blast
qed

theorem time_point_latest_witness:
  "\<exists>c vs m. colapseCursors (map (\<lambda>vs. FullC (FullCursor_new vs)) example_arrays) = Some c \<and> read_values c = Some vs \<and>
    read_time_point \<lparr>q_ids = [1], q_flag = 0, q_time_point = 6\<rparr> c = Some m \<and>
    (let cand = filter (\<lambda>v. m_time v \<le> 6 \<and> inQuery v [1] 0) vs in
     if cand = [] then m = Meas_empty else m \<in> set cand \<and> (\<forall>v \<in> set cand. m_time v \<le> m_time m))"
  using time_point_latest [OF example_arrays_wf _ example_arrays_transitive, of "\<lparr>q_ids = [1], q_flag = 0, q_time_point = 6\<rparr>"]
  by (auto simp: example_arrays_def)

end
