(* ===== verification/StripedMap.thy ===== *)
theory StripedMap
  imports Stat
begin

text \<open>
  \<^verbatim>\<open>utils/striped_map.h\<close>: a hash map whose buckets are linked lists and whose locks are striped over
  the buckets, and \<^verbatim>\<open>minmax_append\<close> of \<^verbatim>\<open>meas.cpp\<close>, its simplest client.  The hash function is a
  template argument of the class and an argument \<open>hasher\<close> here; \<open>jenkins_one_hash\<close> is its default.
  A cell is hash, key and data, a bucket is the list of its cells, an iterator is the place of a
  cell: bucket and position.  \<^verbatim>\<open>size_t\<close> is \<^typ>\<open>nat\<close>: the sizes are bounded by the memory.
\<close>

section \<open>State\<close>

datatype ('k, 'd) bucket_t = Bucket (cell_hash: nat) (cell_key: 'k) (cell_data: 'd)

record ('k, 'd) stripped_map =
  sm_buckets :: "('k, 'd) bucket_t list list"
  sm_size :: nat
  sm_N :: nat
  sm_L :: nat

definition jenkins_one_hash :: "'a::len word \<Rightarrow> nat" where
  "jenkins_one_hash k = unat (jenkins_one_at_a_time_hash k)"

section \<open>Operations\<close>

definition sm_clear :: "('k, 'd) stripped_map \<Rightarrow> ('k, 'd) stripped_map" where
  "sm_clear m = m\<lparr>sm_buckets := map (\<lambda>_. []) (sm_buckets m)\<rparr>"

definition sm_reserve :: "nat \<Rightarrow> ('k, 'd) stripped_map \<Rightarrow> ('k, 'd) stripped_map" where
  "sm_reserve n m = (sm_clear m)\<lparr>sm_buckets := replicate n [], sm_N := n, sm_L := n\<rparr>"

definition sm_new :: "nat \<Rightarrow> ('k, 'd) stripped_map" where
  "sm_new n = sm_reserve n \<lparr>sm_buckets = [], sm_size = 0, sm_N = n, sm_L = n\<rparr>"

definition sm_default_n :: nat where
  "sm_default_n = 1000"

definition sm_empty :: "('k, 'd) stripped_map \<Rightarrow> bool" where
  "sm_empty m \<longleftrightarrow> sm_size m = 0"

text \<open>The loop of \<^verbatim>\<open>find\<close>.\<close>

fun chain_find :: "'k \<Rightarrow> ('k, 'd) bucket_t list \<Rightarrow> 'd option" where
  "chain_find k [] = None"
| "chain_find k (c # cs) = (if cell_key c = k then Some (cell_data c) else chain_find k cs)"

definition sm_find :: "('k \<Rightarrow> nat) \<Rightarrow> ('k, 'd) stripped_map \<Rightarrow> 'k \<Rightarrow> 'd option" where
  "sm_find hasher m k = chain_find k (sm_buckets m ! (hasher k mod sm_N m))"

text \<open>The private \<^verbatim>\<open>find_bucket\<close>: the bucket after the call, the position of the cell and whether the
  cell is new.  \<open>dflt\<close> is the value the default constructor of the data type gives.\<close>

fun chain_find_bucket :: "'d \<Rightarrow> nat \<Rightarrow> 'k::linorder \<Rightarrow> ('k, 'd) bucket_t list \<Rightarrow> ('k, 'd) bucket_t list \<times> nat \<times> bool" where
  "chain_find_bucket dflt h k [] = ([Bucket h k dflt], 0, True)"
| "chain_find_bucket dflt h k [c] =
    (if cell_key c = k then ([c], 0, False) else ([c, Bucket h k dflt], 1, True))"
| "chain_find_bucket dflt h k (c # n # cs) =
    (if cell_key c = k then (c # n # cs, 0, False)
     else if cell_key n > k then (c # Bucket h k dflt # n # cs, 1, True)
     else let (cs1, p, new) = chain_find_bucket dflt h k (n # cs) in (c # cs1, Suc p, new))"

text \<open>\<^verbatim>\<open>double(_size) / _N > 1.0\<close>; exact for sizes below \<open>2 ^ 53\<close>.\<close>

definition sm_overloaded :: "('k, 'd) stripped_map \<Rightarrow> bool" where
  "sm_overloaded m \<longleftrightarrow> sm_size m > sm_N m"

text \<open>The place of a moved cell in its new bucket.\<close>

fun chain_link :: "('k::linorder, 'd) bucket_t \<Rightarrow> ('k, 'd) bucket_t list \<Rightarrow> ('k, 'd) bucket_t list" where
  "chain_link s [] = [s]"
| "chain_link s [c] = [c, s]"
| "chain_link s (c # n # cs) = (if cell_key n > cell_key s then c # s # n # cs else c # chain_link s (n # cs))"

definition sm_move :: "nat \<Rightarrow> ('k::linorder, 'd) bucket_t \<Rightarrow> ('k, 'd) bucket_t list list \<Rightarrow> ('k, 'd) bucket_t list list" where
  "sm_move n s bs = (let i = cell_hash s mod n in bs[i := chain_link s (bs ! i)])"

definition sm_rehash :: "('k::linorder, 'd) stripped_map \<Rightarrow> ('k, 'd) stripped_map" where
  "sm_rehash m =
    (if sm_overloaded m then
       let n = sm_N m * 2 in
       m\<lparr>sm_N := n, sm_buckets := fold (\<lambda>b bs. fold (sm_move n) b bs) (sm_buckets m) (replicate n [])\<rparr>
     else m)"

text \<open>The public \<^verbatim>\<open>find_bucket\<close> returns an iterator.\<close>

definition sm_find_bucket :: "('k::linorder \<Rightarrow> nat) \<Rightarrow> 'd \<Rightarrow> ('k, 'd) stripped_map \<Rightarrow> 'k \<Rightarrow>
    ('k, 'd) stripped_map \<times> nat \<times> nat" where
  "sm_find_bucket hasher dflt m0 k = (
     let m = sm_rehash m0; i = hasher k mod sm_N m;
         (b, p, new) = chain_find_bucket dflt (hasher k) k (sm_buckets m ! i)
     in (m\<lparr>sm_buckets := (sm_buckets m)[i := b], sm_size := (if new then sm_size m + 1 else sm_size m)\<rparr>, i, p))"

text \<open>Access to the data of a cell through an iterator.\<close>

definition sm_at :: "('k, 'd) stripped_map \<Rightarrow> nat \<times> nat \<Rightarrow> 'd" where
  "sm_at m ip = cell_data (sm_buckets m ! fst ip ! snd ip)"

definition sm_put :: "('k, 'd) stripped_map \<Rightarrow> nat \<times> nat \<Rightarrow> 'd \<Rightarrow> ('k, 'd) stripped_map" where
  "sm_put m ip v = m\<lparr>sm_buckets := (sm_buckets m)[fst ip := (sm_buckets m ! fst ip)[snd ip :=
     (let c = sm_buckets m ! fst ip ! snd ip in Bucket (cell_hash c) (cell_key c) v)]]\<rparr>"

definition sm_insert :: "('k::linorder \<Rightarrow> nat) \<Rightarrow> 'd \<Rightarrow> ('k, 'd) stripped_map \<Rightarrow> 'k \<Rightarrow> 'd \<Rightarrow> ('k, 'd) stripped_map" where
  "sm_insert hasher dflt m k v = (let (m1, ip) = sm_find_bucket hasher dflt m k in sm_put m1 ip v)"

text \<open>\<^verbatim>\<open>apply\<close> calls a function on every key and value, bucket after bucket.\<close>

definition sm_items :: "('k, 'd) stripped_map \<Rightarrow> ('k \<times> 'd) list" where
  "sm_items m = map (\<lambda>c. (cell_key c, cell_data c)) (concat (sm_buckets m))"

definition sm_apply :: "('k \<times> 'd \<Rightarrow> 's \<Rightarrow> 's) \<Rightarrow> ('k, 'd) stripped_map \<Rightarrow> 's \<Rightarrow> 's" where
  "sm_apply func m s = fold (\<lambda>b s. fold (\<lambda>c s. func (cell_key c, cell_data c) s) b s) (sm_buckets m) s"

section \<open>Merging minima and maxima\<close>

type_synonym Id2MinMax = "(Id, MeasMinMax) stripped_map"

definition minmax_step :: "Id \<times> MeasMinMax \<Rightarrow> Id2MinMax \<Rightarrow> Id2MinMax" where
  "minmax_step v out = (
     let (out1, fres) = sm_find_bucket jenkins_one_hash MeasMinMax_empty out (fst v);
         out2 = sm_put out1 fres (updateMax (sm_at out1 fres) (mm_max (snd v)))
     in sm_put out2 fres (updateMin (sm_at out2 fres) (mm_min (snd v))))"

definition minmax_append :: "Id2MinMax \<Rightarrow> Id2MinMax \<Rightarrow> Id2MinMax" where
  "minmax_append out source = sm_apply minmax_step source out"

section \<open>Chains\<close>

text \<open>In a bucket the keys are distinct, and from the second cell on they increase.\<close>

definition chain_ok :: "('k::linorder, 'd) bucket_t list \<Rightarrow> bool" where
  "chain_ok b \<longleftrightarrow> distinct (map cell_key b) \<and> sorted (map cell_key (tl b))"

lemma chain_find_iff:
  "distinct (map cell_key b) \<Longrightarrow> chain_find k b = Some v \<longleftrightarrow> (\<exists>c \<in> set b. cell_key c = k \<and> cell_data c = v)"
  by (induction b) (auto simp: rev_image_eqI)

lemma chain_find_bucket_ok:
  assumes "chain_find_bucket d h k b = (b', p, new)" "chain_ok b"
  shows "chain_ok b' \<and> p < length b' \<and> cell_key (b' ! p) = k \<and>
    (if new then k \<notin> cell_key ` set b \<and> mset b' = add_mset (Bucket h k d) (mset b) else b' = b) \<and>
    (b \<noteq> [] \<longrightarrow> hd b' = hd b) \<and> (b \<noteq> [] \<and> sorted (map cell_key b) \<and> cell_key (hd b) \<le> k \<longrightarrow> sorted (map cell_key b'))"
  using assms
proof (induction d h k b arbitrary: b' p rule: chain_find_bucket.induct)
  case (3 d h k c n cs)
  consider "cell_key c = k" | "cell_key c \<noteq> k" "k < cell_key n" | "cell_key c \<noteq> k" "\<not> k < cell_key n" by blast
  then show ?case
  proof cases
    case 1
    then have e: "b' = c # n # cs" "p = 0" "new = False" using "3.prems"(1) by simp_all
    show ?thesis unfolding e using "3.prems"(2) 1 by simp
  next
    case 2
    have cs: "x \<in> set cs \<Longrightarrow> k < cell_key x" for x
      using "3.prems"(2) 2 by (auto simp: chain_ok_def)
    then have "k \<notin> cell_key ` set cs" "\<forall>x \<in> set cs. k \<le> cell_key x" by (auto simp: less_imp_le)
    moreover have "k \<noteq> cell_key n" "k \<le> cell_key n" using 2 by auto
    ultimately have "chain_ok (c # Bucket h k d # n # cs)"
      "cell_key c \<le> k \<Longrightarrow> sorted (map cell_key (c # n # cs)) \<Longrightarrow> sorted (map cell_key (c # Bucket h k d # n # cs))"
      using "3.prems"(2) 2 unfolding chain_ok_def by simp_all
    then show ?thesis
      using "3.prems"(1) 2 \<open>k \<notin> cell_key ` set cs\<close> by auto
  next
    case 3
    then have False: "\<not> (cell_key c = k \<or> k < cell_key n)" by blast
    obtain b1 q where rec: "chain_find_bucket d h k (n # cs) = (b1, q, new)" "b' = c # b1" "p = Suc q"
      using "3.prems"(1) False by (auto split: prod.splits)
    have ok: "chain_ok (n # cs)" "sorted (map cell_key (n # cs))" "cell_key n \<le> k"
      using "3.prems"(2) False by (auto simp: chain_ok_def)
    have ih: "chain_ok b1" "q < length b1" "cell_key (b1 ! q) = k" "hd b1 = n" "sorted (map cell_key b1)"
      "if new then k \<notin> cell_key ` set (n # cs) \<and> mset b1 = add_mset (Bucket h k d) (mset (n # cs)) else b1 = n # cs"
      using "3.IH" [OF _ _ rec(1) ok(1)] False ok by (simp_all cong: if_cong)
    have keys: "set b1 \<subseteq> insert (Bucket h k d) (set (n # cs))"
    proof (cases new)
      case True
      then have "set_mset (mset b1) = set_mset (add_mset (Bucket h k d) (mset (n # cs)))" using ih(6) by simp
      then show ?thesis unfolding set_mset_mset by simp
    qed (use ih(6) in auto)
    have "cell_key c \<notin> cell_key ` set b1"
      using keys "3.prems"(2) False by (auto simp: chain_ok_def)
    moreover have "sorted (map cell_key (c # n # cs)) \<Longrightarrow> sorted (map cell_key (c # b1))"
      using keys ih(5) False ok(3) by (auto simp: chain_ok_def)
    ultimately have "chain_ok (c # b1)" "sorted (map cell_key (c # n # cs)) \<Longrightarrow> sorted (map cell_key (c # b1))"
      using ih(1,5) by (auto simp: chain_ok_def)
    moreover have "if new then k \<notin> cell_key ` set (c # n # cs) \<and> mset (c # b1) = add_mset (Bucket h k d) (mset (c # n # cs))
        else c # b1 = c # n # cs"
    proof (cases new)
      case True
      then have "k \<notin> cell_key ` set (n # cs)" "mset b1 = add_mset (Bucket h k d) (mset (n # cs))" using ih(6) by simp_all
      then show ?thesis using True False by auto
    qed (use ih(6) in simp)
    ultimately show ?thesis
      unfolding rec(2,3) using ih(2,3) by (simp only: list.sel length_Cons nth_Cons_Suc Suc_less_eq) blast
  qed
qed (auto simp: chain_ok_def split: if_splits)

lemma chain_link_ok:
  assumes "chain_ok b" "cell_key s \<notin> cell_key ` set b"
  shows "chain_ok (chain_link s b) \<and> mset (chain_link s b) = add_mset s (mset b) \<and> (b \<noteq> [] \<longrightarrow> hd (chain_link s b) = hd b) \<and>
    (b \<noteq> [] \<and> sorted (map cell_key b) \<and> cell_key (hd b) \<le> cell_key s \<longrightarrow> sorted (map cell_key (chain_link s b)))"
  using assms
proof (induction s b rule: chain_link.induct)
  case (3 s c n cs)
  show ?case
  proof (cases "cell_key s < cell_key n")
    case True
    then show ?thesis using "3.prems" by (auto simp: chain_ok_def)
  next
    case False
    define b1 where "b1 = chain_link s (n # cs)"
    have ok: "chain_ok (n # cs)" "sorted (map cell_key (n # cs))" "cell_key n \<le> cell_key s"
      using "3.prems" False by (auto simp: chain_ok_def)
    then have ih: "chain_ok b1" "mset b1 = add_mset s (mset (n # cs))" "hd b1 = n" "sorted (map cell_key b1)"
      using "3.IH" [OF False ok(1)] "3.prems"(2) by (auto simp: b1_def)
    then have keys: "set b1 = insert s (set (n # cs))"
      by (metis set_mset_mset set_mset_add_mset_insert)
    have "sorted (map cell_key (c # n # cs)) \<Longrightarrow> sorted (map cell_key (c # b1))"
      using keys ih(4) ok(3) by auto
    then show ?thesis
      using ih keys False "3.prems" by (auto simp: chain_ok_def b1_def [symmetric])
  qed
qed (auto simp: chain_ok_def)

section \<open>Buckets\<close>

definition buckets_ok :: "('k::linorder \<Rightarrow> nat) \<Rightarrow> nat \<Rightarrow> ('k, 'd) bucket_t list list \<Rightarrow> bool" where
  "buckets_ok hasher n bs \<longleftrightarrow> length bs = n \<and>
     (\<forall>i < n. chain_ok (bs ! i) \<and> (\<forall>c \<in> set (bs ! i). cell_hash c = hasher (cell_key c) \<and> hasher (cell_key c) mod n = i))"

definition sm_ok :: "('k::linorder \<Rightarrow> nat) \<Rightarrow> ('k, 'd) stripped_map \<Rightarrow> bool" where
  "sm_ok hasher m \<longleftrightarrow> buckets_ok hasher (sm_N m) (sm_buckets m) \<and> 0 < sm_N m \<and> sm_L m dvd sm_N m \<and>
     sm_size m = length (concat (sm_buckets m))"

lemma buckets_okD:
  assumes "buckets_ok hasher n bs" "i < n"
  shows "chain_ok (bs ! i)" "c \<in> set (bs ! i) \<Longrightarrow> cell_hash c = hasher (cell_key c)"
    "c \<in> set (bs ! i) \<Longrightarrow> hasher (cell_key c) mod n = i" "length bs = n"
  using assms unfolding buckets_ok_def by metis+

lemma mset_concat_update:
  "i < length bs \<Longrightarrow> mset (concat (bs[i := b])) + mset (bs ! i) = mset (concat bs) + mset b"
proof (induction bs arbitrary: i)
  case (Cons a bs)
  then show ?case by (cases i) (auto simp: ac_simps)
qed simp

lemma in_concat_iff: "c \<in> set (concat bs) \<longleftrightarrow> (\<exists>j < length bs. c \<in> set (bs ! j))"
  by simp (metis in_set_conv_nth)

lemma in_concat_update_iff:
  "i < length bs \<Longrightarrow> c \<in> set (concat (bs[i := b])) \<longleftrightarrow> c \<in> set b \<or> (\<exists>j < length bs. j \<noteq> i \<and> c \<in> set (bs ! j))"
  unfolding in_concat_iff by (auto simp: nth_list_update)

lemma buckets_ok_home:
  assumes "buckets_ok hasher n bs" "c \<in> set (concat bs)"
  shows "c \<in> set (bs ! (hasher (cell_key c) mod n)) \<and> cell_hash c = hasher (cell_key c)"
proof -
  obtain j where "j < n" "c \<in> set (bs ! j)" using assms by (auto simp: in_concat_iff buckets_ok_def simp del: set_concat)
  then show ?thesis using assms(1) unfolding buckets_ok_def by metis
qed

lemma buckets_ok_distinct:
  assumes "buckets_ok hasher n bs"
  shows "distinct (map cell_key (concat bs))"
proof -
  have "distinct (map cell_key (concat (take j bs)))" if "j \<le> n" for j
    using that
  proof (induction j)
    case (Suc j)
    have split: "concat (take (Suc j) bs) = concat (take j bs) @ bs ! j"
      using Suc.prems assms by (simp add: take_Suc_conv_app_nth buckets_ok_def)
    have "cell_key c \<noteq> cell_key c'" if c: "c \<in> set (concat (take j bs))" "c' \<in> set (bs ! j)" for c c'
    proof -
      obtain i where "i < j" "c \<in> set (bs ! i)" using c(1) unfolding in_concat_iff by auto
      then have "hasher (cell_key c) mod n = i" "hasher (cell_key c') mod n = j"
        using buckets_okD(3) [OF assms] c(2) Suc.prems by auto
      then show ?thesis using \<open>i < j\<close> by auto
    qed
    then show ?case
      using Suc assms by (auto simp: split buckets_ok_def chain_ok_def)
  qed simp
  from this [of n] show ?thesis using assms by (simp add: buckets_ok_def)
qed

lemma sm_find_iff:
  assumes "sm_ok hasher m"
  shows "sm_find hasher m k = Some v \<longleftrightarrow> Bucket (hasher k) k v \<in> set (concat (sm_buckets m))"
proof -
  define i where "i = hasher k mod sm_N m"
  have b: "buckets_ok hasher (sm_N m) (sm_buckets m)" "i < sm_N m" using assms by (auto simp: sm_ok_def i_def)
  have d: "distinct (map cell_key (sm_buckets m ! i))" using b by (auto simp: buckets_ok_def chain_ok_def)
  have "sm_find hasher m k = Some v \<longleftrightarrow> Bucket (hasher k) k v \<in> set (sm_buckets m ! i)"
    unfolding sm_find_def i_def [symmetric] chain_find_iff [OF d]
    using b unfolding buckets_ok_def by (metis bucket_t.sel bucket_t.collapse)
  also have "\<dots> \<longleftrightarrow> Bucket (hasher k) k v \<in> set (concat (sm_buckets m))"
    using b buckets_ok_home [OF b(1), of "Bucket (hasher k) k v"] unfolding in_concat_iff by (auto simp: i_def buckets_ok_def)
  finally show ?thesis .
qed

lemma sm_items_map:
  assumes "sm_ok hasher m"
  shows "distinct (map fst (sm_items m))" "map_of (sm_items m) = sm_find hasher m" "length (sm_items m) = sm_size m"
proof -
  have b: "buckets_ok hasher (sm_N m) (sm_buckets m)" using assms by (simp add: sm_ok_def)
  show d: "distinct (map fst (sm_items m))"
    using buckets_ok_distinct [OF b] by (simp add: sm_items_def comp_def)
  have "map_of (sm_items m) k = Some v \<longleftrightarrow> sm_find hasher m k = Some v" for k v
  proof -
    have "c = Bucket (hasher k) k v" if "c \<in> set (concat (sm_buckets m))" "cell_key c = k" "cell_data c = v" for c
      using buckets_ok_home [OF b that(1)] that(2,3) by (cases c) simp
    then have "(k, v) \<in> set (sm_items m) \<longleftrightarrow> Bucket (hasher k) k v \<in> set (concat (sm_buckets m))"
      unfolding sm_items_def set_map image_iff by (metis bucket_t.sel(2,3) prod.inject)
    then show ?thesis
      unfolding sm_find_iff [OF assms] map_of_eq_Some_iff [OF d] .
  qed
  then show "map_of (sm_items m) = sm_find hasher m"
    by (intro ext) (metis option.exhaust)
  show "length (sm_items m) = sm_size m" using assms by (simp add: sm_items_def sm_ok_def)
qed

lemma buckets_ok_update:
  assumes "buckets_ok hasher n bs" "i < n" "chain_ok b" "\<forall>c \<in> set b. cell_hash c = hasher (cell_key c) \<and> hasher (cell_key c) mod n = i"
  shows "buckets_ok hasher n (bs[i := b])"
  using assms by (auto simp: buckets_ok_def nth_list_update)

lemma buckets_ok_replicate: "buckets_ok hasher n (replicate n [])"
  by (simp add: buckets_ok_def chain_ok_def)

section \<open>Rehashing\<close>

lemma sm_move_ok:
  assumes "buckets_ok hasher n bs" "0 < n" "cell_hash s = hasher (cell_key s)" "cell_key s \<notin> cell_key ` set (concat bs)"
  shows "buckets_ok hasher n (sm_move n s bs) \<and> mset (concat (sm_move n s bs)) = add_mset s (mset (concat bs))"
proof -
  define i where "i = cell_hash s mod n"
  have i: "i < n" "length bs = n" using assms(1,2) by (simp_all add: i_def buckets_ok_def)
  have new: "cell_key s \<notin> cell_key ` set (bs ! i)"
    using assms(4) i in_concat_iff [of _ bs] by blast
  note link = chain_link_ok [OF buckets_okD(1) [OF assms(1) i(1)] new]
  then have "set (chain_link s (bs ! i)) = insert s (set (bs ! i))"
    by (metis set_mset_mset set_mset_add_mset_insert)
  then have "buckets_ok hasher n (bs[i := chain_link s (bs ! i)])"
    using link buckets_okD [OF assms(1) i(1)] assms(3)
    by (intro buckets_ok_update [OF assms(1) i(1)]) (auto simp: i_def)
  moreover have "mset (concat (bs[i := chain_link s (bs ! i)])) = add_mset s (mset (concat bs))"
    using mset_concat_update [of i bs "chain_link s (bs ! i)"] i link by simp
  ultimately show ?thesis by (simp add: sm_move_def i_def Let_def)
qed

lemma fold_sm_move_ok:
  assumes "buckets_ok hasher n bs" "0 < n" "\<forall>c \<in> set cs. cell_hash c = hasher (cell_key c)"
    "distinct (map cell_key (cs @ concat bs))"
  shows "buckets_ok hasher n (fold (sm_move n) cs bs) \<and> mset (concat (fold (sm_move n) cs bs)) = mset (cs @ concat bs)"
  using assms
proof (induction cs arbitrary: bs)
  case (Cons c cs)
  have m: "buckets_ok hasher n (sm_move n c bs)" "mset (concat (sm_move n c bs)) = add_mset c (mset (concat bs))"
    using sm_move_ok [OF Cons.prems(1,2), of c] Cons.prems(3,4) by auto
  have "mset (map cell_key (cs @ concat (sm_move n c bs))) = mset (map cell_key ((c # cs) @ concat bs))"
    using m(2) by simp
  then have "distinct (map cell_key (cs @ concat (sm_move n c bs)))"
    using Cons.prems(4) by (metis mset_eq_imp_distinct_iff)
  then show ?case
    using Cons.IH [OF m(1) Cons.prems(2)] Cons.prems(3) m(2) by simp
qed simp

lemma fold_concat: "fold (\<lambda>b bs. fold f b bs) bss s = fold f (concat bss) s"
  by (induction bss arbitrary: s) simp_all

lemma sm_rehash_ok:
  assumes "sm_ok hasher m"
  shows "sm_ok hasher (sm_rehash m)" "mset (concat (sm_buckets (sm_rehash m))) = mset (concat (sm_buckets m))"
    "sm_L (sm_rehash m) = sm_L m" "sm_size (sm_rehash m) = sm_size m"
proof -
  have b: "buckets_ok hasher (sm_N m) (sm_buckets m)" "0 < sm_N m * 2" using assms by (auto simp: sm_ok_def)
  have fs: "\<forall>c \<in> set (concat (sm_buckets m)). cell_hash c = hasher (cell_key c)"
    using buckets_ok_home [OF b(1)] by blast
  have "distinct (map cell_key (concat (sm_buckets m) @ concat (replicate (sm_N m * 2) [])))"
    using buckets_ok_distinct [OF b(1)] by simp
  note moved = fold_sm_move_ok [OF buckets_ok_replicate b(2) fs this]
  then have "length (concat (fold (sm_move (sm_N m * 2)) (concat (sm_buckets m)) (replicate (sm_N m * 2) []))) = sm_size m"
    using assms by (metis append_Nil2 concat_replicate_trivial mset_eq_length sm_ok_def)
  then show "sm_ok hasher (sm_rehash m)"
    using moved assms by (simp add: sm_rehash_def sm_ok_def Let_def fold_concat)
  show "mset (concat (sm_buckets (sm_rehash m))) = mset (concat (sm_buckets m))"
    using moved by (simp add: sm_rehash_def Let_def fold_concat)
qed (simp_all add: sm_rehash_def Let_def)

section \<open>Insertion\<close>

lemma sm_find_eqI:
  assumes "sm_ok hasher m" "\<And>k v. Bucket (hasher k) k v \<in> set (concat (sm_buckets m)) \<longleftrightarrow> f k = Some v"
  shows "sm_find hasher m = f"
  using assms sm_find_iff [OF assms(1)] by (intro ext) (metis option.exhaust)

lemma sm_rehash_find:
  assumes "sm_ok hasher m"
  shows "sm_find hasher (sm_rehash m) = sm_find hasher m"
proof (rule sm_find_eqI [OF sm_rehash_ok(1) [OF assms]])
  fix k v
  show "Bucket (hasher k) k v \<in> set (concat (sm_buckets (sm_rehash m))) \<longleftrightarrow> sm_find hasher m k = Some v"
    unfolding sm_find_iff [OF assms] by (metis sm_rehash_ok(2) [OF assms] set_mset_mset)
qed

text \<open>An iterator that stands at the cell of a key.\<close>

definition sm_place :: "('k \<Rightarrow> nat) \<Rightarrow> ('k, 'd) stripped_map \<Rightarrow> nat \<times> nat \<Rightarrow> 'k \<Rightarrow> bool" where
  "sm_place hasher m ip k \<longleftrightarrow> fst ip = hasher k mod sm_N m \<and> fst ip < sm_N m \<and>
     snd ip < length (sm_buckets m ! fst ip) \<and> cell_key (sm_buckets m ! fst ip ! snd ip) = k"

lemma sm_place_at:
  assumes "sm_ok hasher m" "sm_place hasher m ip k"
  shows "sm_find hasher m k = Some (sm_at m ip)"
proof -
  define c where "c = sm_buckets m ! fst ip ! snd ip"
  have b: "buckets_ok hasher (sm_N m) (sm_buckets m)" using assms(1) by (simp add: sm_ok_def)
  have c: "c \<in> set (sm_buckets m ! fst ip)" "cell_key c = k" "fst ip < sm_N m"
    using assms(2) by (auto simp: sm_place_def c_def)
  then have "c = Bucket (hasher k) k (sm_at m ip)"
    using buckets_okD(2) [OF b c(3) c(1)] by (metis bucket_t.collapse sm_at_def c_def)
  moreover have "c \<in> set (concat (sm_buckets m))"
    unfolding in_concat_iff using c buckets_okD(4) [OF b c(3)] by auto
  ultimately show ?thesis unfolding sm_find_iff [OF assms(1)] by simp
qed

lemma sm_find_None_bucket:
  assumes "buckets_ok hasher n bs" "k \<notin> cell_key ` set (bs ! (hasher k mod n))" "length bs = n"
  shows "c \<in> set (concat bs) \<Longrightarrow> cell_key c \<noteq> k"
  using buckets_ok_home [OF assms(1)] assms(2) by blast

text \<open>A cell for a key that was absent is put into the bucket of the key.\<close>

lemma sm_new_cell:
  assumes ok: "sm_ok hasher r" and i: "i = hasher k mod sm_N r" and b: "chain_ok b"
    "mset b = add_mset (Bucket (hasher k) k d) (mset (sm_buckets r ! i))" "k \<notin> cell_key ` set (sm_buckets r ! i)"
    and m1: "m1 = r\<lparr>sm_buckets := (sm_buckets r)[i := b], sm_size := sm_size r + 1\<rparr>"
  shows "sm_ok hasher m1 \<and> sm_find hasher m1 = (sm_find hasher r)(k \<mapsto> d) \<and> sm_find hasher r k = None"
proof -
  define n where "n = Bucket (hasher k) k d"
  have bs: "buckets_ok hasher (sm_N r) (sm_buckets r)" "i < sm_N r" "length (sm_buckets r) = sm_N r"
    using ok by (auto simp: sm_ok_def i buckets_ok_def)
  have sb: "set b = insert n (set (sm_buckets r ! i))"
    using b(2) by (metis n_def set_mset_mset set_mset_add_mset_insert)
  have mc: "mset (concat (sm_buckets m1)) = add_mset n (mset (concat (sm_buckets r)))"
    using mset_concat_update [of i "sm_buckets r" b] bs b(2) by (simp add: m1 n_def)
  have "buckets_ok hasher (sm_N r) (sm_buckets m1)"
    using sb buckets_okD(2,3) [OF bs(1,2)] b(1)
    by (simp add: m1) (intro buckets_ok_update [OF bs(1,2)], auto simp: n_def i)
  moreover have "length (concat (sm_buckets m1)) = Suc (length (concat (sm_buckets r)))"
    using mc by (metis size_mset size_add_mset)
  ultimately have ok1: "sm_ok hasher m1" using ok by (simp add: sm_ok_def m1)
  have none: "c \<in> set (concat (sm_buckets r)) \<Longrightarrow> cell_key c \<noteq> k" for c
    using sm_find_None_bucket [OF bs(1) _ bs(3)] b(3) by (simp add: i)
  have kn: "sm_find hasher r k = None"
    using none sm_find_iff [OF ok, of k] by (metis bucket_t.sel(2) option.exhaust)
  have ms: "set (concat (sm_buckets m1)) = insert n (set (concat (sm_buckets r)))"
    using mc by (metis set_mset_mset set_mset_add_mset_insert)
  have "sm_find hasher m1 = (sm_find hasher r)(k \<mapsto> d)"
  proof (rule sm_find_eqI [OF ok1])
    fix k' v
    show "Bucket (hasher k') k' v \<in> set (concat (sm_buckets m1)) \<longleftrightarrow> ((sm_find hasher r)(k \<mapsto> d)) k' = Some v"
      unfolding ms using none [of "Bucket (hasher k) k v"] sm_find_iff [OF ok, of k' v] by (auto simp: n_def simp del: set_concat)
  qed
  then show ?thesis using ok1 kn by blast
qed

lemma sm_find_bucket_ok:
  assumes ok: "sm_ok hasher m" and fb: "sm_find_bucket hasher d m k = (m1, ip)"
  shows "sm_ok hasher m1 \<and> sm_place hasher m1 ip k \<and> sm_L m1 = sm_L m \<and>
    sm_find hasher m1 = (sm_find hasher m)(k \<mapsto> case sm_find hasher m k of None \<Rightarrow> d | Some v \<Rightarrow> v) \<and>
    sm_size m1 = (if sm_find hasher m k = None then Suc (sm_size m) else sm_size m)"
proof -
  define r where "r = sm_rehash m"
  define i where "i = hasher k mod sm_N r"
  obtain b p new where cf: "chain_find_bucket d (hasher k) k (sm_buckets r ! i) = (b, p, new)" by (metis prod_cases3)
  have m1: "m1 = r\<lparr>sm_buckets := (sm_buckets r)[i := b], sm_size := (if new then sm_size r + 1 else sm_size r)\<rparr>" "ip = (i, p)"
    using fb cf by (simp_all add: sm_find_bucket_def Let_def r_def [symmetric] i_def [symmetric])
  have rok: "sm_ok hasher r" "sm_find hasher r = sm_find hasher m" "sm_size r = sm_size m" "sm_L r = sm_L m"
    using sm_rehash_ok [OF ok] sm_rehash_find [OF ok] by (simp_all add: r_def)
  have bs: "buckets_ok hasher (sm_N r) (sm_buckets r)" "i < sm_N r" "length (sm_buckets r) = sm_N r"
    using rok(1) by (auto simp: sm_ok_def i_def buckets_ok_def)
  note cf_ok = chain_find_bucket_ok [OF cf buckets_okD(1) [OF bs(1,2)]]
  have place: "sm_place hasher m1 ip k" using cf_ok bs by (simp add: sm_place_def m1 i_def)
  show ?thesis
  proof (cases new)
    case False
    then have same: "m1 = r" using cf_ok by (simp add: m1)
    have "sm_find hasher r k = Some (sm_at r ip)" using sm_place_at [OF rok(1)] place same by simp
    then show ?thesis using rok same place by (auto simp: fun_upd_idem)
  next
    case True
    then show ?thesis
      using sm_new_cell [OF rok(1) i_def, of b d m1] cf_ok rok place by (simp add: m1)
  qed
qed

lemma chain_ok_keys: "map cell_key b = map cell_key b' \<Longrightarrow> chain_ok b = chain_ok b'"
  unfolding chain_ok_def map_tl by (simp only:)

lemma sm_put_ok:
  fixes m :: "('a::linorder, 'b) stripped_map"
  assumes ok: "sm_ok hasher m" and place: "sm_place hasher m ip k"
  shows "sm_ok hasher (sm_put m ip v) \<and> sm_place hasher (sm_put m ip v) ip k \<and>
    sm_find hasher (sm_put m ip v) = (sm_find hasher m)(k \<mapsto> v) \<and>
    sm_L (sm_put m ip v) = sm_L m \<and> sm_size (sm_put m ip v) = sm_size m \<and> sm_at (sm_put m ip v) ip = v"
proof -
  obtain i p where ip: "ip = (i, p)" by (cases ip)
  define b where "b = sm_buckets m ! i"
  define n where "n = Bucket (hasher k) k v"
  have bs: "buckets_ok hasher (sm_N m) (sm_buckets m)" "i < sm_N m" "length (sm_buckets m) = sm_N m" "i = hasher k mod sm_N m"
    "p < length b" "cell_key (b ! p) = k"
    using ok place by (auto simp: sm_ok_def sm_place_def ip b_def buckets_ok_def)
  note bi = buckets_okD [OF bs(1,2), folded b_def]
  have put: "sm_put m ip v = m\<lparr>sm_buckets := (sm_buckets m)[i := b[p := n]]\<rparr>"
    using bi(2) [of "b ! p"] bs(5,6) by (simp add: sm_put_def ip b_def n_def Let_def)
  have keys: "map cell_key (b[p := n]) = map cell_key b"
    using bs(5,6) by (simp add: map_update n_def list_update_same_conv)
  have cells: "c \<in> set (b[p := n]) \<longleftrightarrow> c = n \<or> c \<in> set b \<and> cell_key c \<noteq> k" for c
    using bi(1) bs(5,6) unfolding chain_ok_def in_set_conv_nth distinct_conv_nth
    by (auto simp: nth_list_update n_def)
  have "buckets_ok hasher (sm_N m) (sm_buckets (sm_put m ip v))"
    using chain_ok_keys [OF keys] bi cells
    by (simp add: put) (intro buckets_ok_update [OF bs(1,2)], auto simp: n_def bs(4))
  moreover have "map length ((sm_buckets m)[i := b[p := n]]) = map length (sm_buckets m)"
    using bs(2,3) by (simp add: map_update b_def list_update_same_conv)
  ultimately have ok1: "sm_ok hasher (sm_put m ip v)" using ok by (simp add: sm_ok_def put length_concat)
  have "sm_find hasher (sm_put m ip v) = (sm_find hasher m)(k \<mapsto> v)"
  proof (rule sm_find_eqI [OF ok1])
    fix k' :: 'a and w :: 'b
    have home: "j < sm_N m \<Longrightarrow> c \<in> set (sm_buckets m ! j) \<Longrightarrow> cell_key c = k \<Longrightarrow> j = i" for j c
      using buckets_okD(3) [OF bs(1)] bs(4) by blast
    define x where "x = Bucket (hasher k') k' w"
    have upd: "x \<in> set (concat (sm_buckets (sm_put m ip v))) \<longleftrightarrow>
        x \<in> set (b[p := n]) \<or> (\<exists>j < sm_N m. j \<noteq> i \<and> x \<in> set (sm_buckets m ! j))"
      using bs(2,3) by (simp add: put in_concat_update_iff del: set_concat)
    have old: "sm_find hasher m k' = Some w \<longleftrightarrow> (\<exists>j < sm_N m. x \<in> set (sm_buckets m ! j))"
      unfolding sm_find_iff [OF ok] in_concat_iff bs(3) x_def ..
    have "x \<in> set (concat (sm_buckets (sm_put m ip v))) \<longleftrightarrow> ((sm_find hasher m)(k \<mapsto> v)) k' = Some w"
    proof (cases "k' = k")
      case True
      then have "x \<in> set (concat (sm_buckets (sm_put m ip v))) \<longleftrightarrow> x = n"
        unfolding upd cells using home [of _ x] by (auto simp: x_def)
      then show ?thesis using True by (auto simp: x_def n_def)
    next
      case False
      then have "x \<in> set (concat (sm_buckets (sm_put m ip v))) \<longleftrightarrow> (\<exists>j < sm_N m. x \<in> set (sm_buckets m ! j))"
        unfolding upd cells using bs(2) unfolding b_def by (auto simp: x_def n_def)
      then show ?thesis using False old by simp
    qed
    then show "Bucket (hasher k') k' w \<in> set (concat (sm_buckets (sm_put m ip v))) \<longleftrightarrow> ((sm_find hasher m)(k \<mapsto> v)) k' = Some w"
      by (simp only: x_def)
  qed
  then show ?thesis
    using ok1 bs put by (simp add: sm_place_def ip n_def sm_at_def)
qed

lemma sm_insert_ok:
  assumes "sm_ok hasher m"
  shows "sm_ok hasher (sm_insert hasher d m k v)"
    "sm_find hasher (sm_insert hasher d m k v) = (sm_find hasher m)(k \<mapsto> v)"
    "sm_L (sm_insert hasher d m k v) = sm_L m"
proof -
  obtain m1 ip where fb: "sm_find_bucket hasher d m k = (m1, ip)" by (cases "sm_find_bucket hasher d m k")
  note m1 = sm_find_bucket_ok [OF assms fb]
  show "sm_ok hasher (sm_insert hasher d m k v)"
    "sm_find hasher (sm_insert hasher d m k v) = (sm_find hasher m)(k \<mapsto> v)"
    "sm_L (sm_insert hasher d m k v) = sm_L m"
    using m1 sm_put_ok [of hasher m1 ip k v] by (simp_all add: sm_insert_def fb)
qed

lemma sm_new_ok:
  assumes "0 < n"
  shows "sm_ok hasher (sm_new n)" "sm_find hasher (sm_new n) = Map.empty" "sm_L (sm_new n) = n"
  using assms by (auto simp: sm_ok_def sm_new_def sm_reserve_def sm_clear_def buckets_ok_replicate sm_find_def)

section \<open>The contract of a map\<close>

locale assoc_map =
  fixes upd :: "'m \<Rightarrow> 'k \<Rightarrow> 'd \<Rightarrow> 'm"
    and look :: "'m \<Rightarrow> 'k \<Rightarrow> 'd option"
    and items :: "'m \<Rightarrow> ('k \<times> 'd) list"
    and inv :: "'m \<Rightarrow> bool"
  assumes inv_upd: "inv m \<Longrightarrow> inv (upd m k v)"
    and look_upd: "inv m \<Longrightarrow> look (upd m k v) = (look m)(k \<mapsto> v)"
    and items_distinct: "inv m \<Longrightarrow> distinct (map fst (items m))"
    and items_look: "inv m \<Longrightarrow> map_of (items m) = look m"
begin

lemma fold_upd:
  "inv m \<Longrightarrow> inv (fold (\<lambda>(k, v) m. upd m k v) kvs m) \<and>
     look (fold (\<lambda>(k, v) m. upd m k v) kvs m) = look m ++ map_of (rev kvs)"
proof (induction kvs arbitrary: m)
  case (Cons kv kvs)
  then show ?case by (cases kv) (auto simp: inv_upd look_upd map_add_def fun_eq_iff split: option.splits)
qed simp

lemma length_items: "inv m \<Longrightarrow> length (items m) = card (dom (look m))"
  using items_distinct [of m] items_look [of m]
  by (metis distinct_card dom_map_of_conv_image_fst length_map list.set_map)

text \<open>A client that updates, for each key of a source, the value of the key.\<close>

lemma fold_step:
  assumes step: "\<And>k v m. inv m \<Longrightarrow> inv (step (k, v) m) \<and> look (step (k, v) m) = (look m)(k \<mapsto> f v (look m k))"
    and m: "inv m" and d: "distinct (map fst kvs)"
  shows "inv (fold step kvs m) \<and>
    look (fold step kvs m) k = (case map_of kvs k of None \<Rightarrow> look m k | Some v \<Rightarrow> Some (f v (look m k)))"
  using m d
proof (induction kvs arbitrary: m)
  case (Cons kv kvs)
  obtain j v where kv: "kv = (j, v)" by (cases kv)
  have "inv (step (j, v) m)" "look (step (j, v) m) = (look m)(j \<mapsto> f v (look m j))"
    using step [OF Cons.prems(1), of j v] by simp_all
  moreover have "map_of kvs j = None" using Cons.prems(2) by (auto simp: kv map_of_eq_None_iff)
  ultimately show ?case
    using Cons.IH [of "step (j, v) m"] Cons.prems(2) by (auto simp: kv split: option.splits)
qed simp

end

interpretation striped: assoc_map "sm_insert hasher dflt" "sm_find hasher" sm_items "sm_ok hasher"
  for hasher :: "'k::linorder \<Rightarrow> nat" and dflt :: 'd
  by unfold_locales (simp_all add: sm_insert_ok sm_items_map)

lemma sm_apply_items: "sm_apply func m s = fold func (sm_items m) s"
  unfolding sm_apply_def sm_items_def fold_concat by (simp add: fold_map comp_def)

section \<open>Load\<close>

lemma sm_insert_load:
  assumes "sm_ok hasher m" "sm_size m \<le> Suc (sm_N m)"
  shows "sm_size (sm_insert hasher d m k v) \<le> Suc (sm_N (sm_insert hasher d m k v))"
proof -
  obtain m1 ip where fb: "sm_find_bucket hasher d m k = (m1, ip)" by (cases "sm_find_bucket hasher d m k")
  have "0 < sm_N m" using assms(1) by (simp add: sm_ok_def)
  then have "sm_size (sm_rehash m) \<le> sm_N (sm_rehash m)"
    using assms(2) by (auto simp: sm_rehash_def sm_overloaded_def Let_def)
  then have "sm_size m1 \<le> Suc (sm_N m1)"
    using fb by (auto simp: sm_find_bucket_def Let_def split: prod.splits if_splits)
  then show ?thesis by (simp add: sm_insert_def fb sm_put_def)
qed

text \<open>Maps built by insertions.\<close>

lemma sm_built_ok:
  fixes hasher :: "'k::linorder \<Rightarrow> nat" and dflt :: 'd
  assumes "0 < n" "m = fold (\<lambda>(k, v) m. sm_insert hasher dflt m k v) kvs (sm_new n)"
  shows "sm_ok hasher m" "sm_find hasher m = map_of (rev kvs)" "sm_L m = n" "sm_size m \<le> Suc (sm_N m)"
proof -
  have new: "sm_ok hasher (sm_new n :: ('k, 'd) stripped_map)" "sm_find hasher (sm_new n :: ('k, 'd) stripped_map) = Map.empty"
    using sm_new_ok [OF assms(1)] by blast+
  show "sm_ok hasher m" "sm_find hasher m = map_of (rev kvs)"
    using striped.fold_upd [OF new(1), of dflt kvs] new(2) by (simp_all add: assms(2))
  have "sm_ok hasher m' \<Longrightarrow> sm_L (fold (\<lambda>(k, v) m. sm_insert hasher dflt m k v) kvs m') = sm_L m'" for m'
    by (induction kvs arbitrary: m') (auto simp: sm_insert_ok)
  from this [OF new(1)] show "sm_L m = n" by (simp add: assms(2) sm_new_ok(3) [OF assms(1)])
  have "sm_ok hasher m' \<Longrightarrow> sm_size m' \<le> Suc (sm_N m') \<Longrightarrow>
      sm_size (fold (\<lambda>(k, v) m. sm_insert hasher dflt m k v) kvs m') \<le>
        Suc (sm_N (fold (\<lambda>(k, v) m. sm_insert hasher dflt m k v) kvs m'))" for m'
    by (induction kvs arbitrary: m') (auto simp: sm_insert_load sm_insert_ok(1))
  from this [OF new(1)] show "sm_size m \<le> Suc (sm_N m)"
    by (simp add: assms(2)) (simp add: sm_new_def sm_reserve_def sm_clear_def)
qed

section \<open>Properties\<close>

text \<open>C33: after any sequence of insertions into a new map, through every rehash, \<^verbatim>\<open>find\<close> returns the
  value inserted last for a key and nothing for other keys, the size is the number of keys, and the
  buckets are never more than one cell over the load limit.\<close>

theorem striped_map_lookup:
  assumes "0 < n"
  shows "let m = fold (\<lambda>(k, v) m. sm_insert hasher dflt m k v) kvs (sm_new n) in
    sm_find hasher m = map_of (rev kvs) \<and> sm_size m = card (fst ` set kvs) \<and> sm_size m \<le> Suc (sm_N m)"
proof -
  define m where "m = fold (\<lambda>(k, v) m. sm_insert hasher dflt m k v) kvs (sm_new n)"
  note m = sm_built_ok [OF assms m_def]
  have "sm_size m = card (fst ` set kvs)"
    using striped.length_items [OF m(1)] sm_items_map(3) [OF m(1)] m(2) by (simp add: dom_map_of_conv_image_fst)
  then show ?thesis
    using m by (simp add: m_def [symmetric] Let_def)
qed

theorem striped_map_lookup_witness:
  "let m = fold (\<lambda>(k, v) m. sm_insert jenkins_one_hash 0 m k v) [(7, 1), (8, 2), (9, 3), (7, 4)] (sm_new 1) in
    sm_find jenkins_one_hash m (7 :: Id) = Some (4 :: nat) \<and> sm_size m = 3"
  using striped_map_lookup [where n = 1 and hasher = jenkins_one_hash and dflt = 0 and kvs = "[(7 :: Id, 1 :: nat), (8, 2), (9, 3), (7, 4)]"]
  by (simp add: Let_def insert_commute [of 9 7] insert_commute [of 8 7])

text \<open>C34: \<^verbatim>\<open>apply\<close> calls its function exactly once for every key of the map, with the value of the key,
  for every map built by insertions.\<close>

theorem striped_map_apply:
  assumes "0 < n" "m = fold (\<lambda>(k, v) m. sm_insert hasher dflt m k v) kvs (sm_new n)"
  shows "\<exists>xs. (\<forall>func s. sm_apply func m s = fold func xs s) \<and> distinct (map fst xs) \<and> map_of xs = map_of (rev kvs)"
  using sm_items_map [OF sm_built_ok(1) [OF assms]] sm_built_ok(2) [OF assms]
  by (intro exI [of _ "sm_items m"]) (simp add: sm_apply_items)

theorem striped_map_apply_witness:
  "\<exists>xs. (\<forall>func s. sm_apply func (sm_insert jenkins_one_hash 0 (sm_new 1) (7 :: Id) (5 :: nat)) (s :: nat) = fold func xs s) \<and>
     distinct (map fst xs) \<and> map_of xs = [7 \<mapsto> 5]"
  using striped_map_apply [OF _ refl, where n = 1 and hasher = jenkins_one_hash and dflt = 0 and kvs = "[(7 :: Id, 5 :: nat)]"] by simp

text \<open>C35: the number of locks never changes and divides the number of buckets, so two keys of one bucket
  are always protected by the same lock.\<close>

theorem striped_map_lock_covers_bucket:
  assumes "0 < n" "m = fold (\<lambda>(k, v) m. sm_insert hasher dflt m k v) kvs (sm_new n)"
    "hasher k mod sm_N m = hasher k' mod sm_N m"
  shows "sm_L m = n \<and> hasher k mod sm_L m = hasher k' mod sm_L m"
proof -
  have "sm_L m dvd sm_N m"
    using sm_built_ok(1) [OF assms(1,2)] by (simp add: sm_ok_def)
  then show ?thesis
    using assms(3) sm_built_ok(3) [OF assms(1,2)] by (metis mod_mod_cancel)
qed

theorem striped_map_lock_covers_bucket_witness:
  "sm_L (sm_insert id 0 (sm_new 2) (3 :: nat) (1 :: nat)) = 2 \<and> (3 :: nat) mod 2 = 5 mod 2"
  using striped_map_lock_covers_bucket [OF _ refl, where n = 2 and hasher = id and dflt = 0 and
      kvs = "[(3 :: nat, 1 :: nat)]" and k = 3 and k' = 5]
  by (simp add: sm_insert_def sm_find_bucket_def sm_rehash_def sm_overloaded_def sm_new_def sm_reserve_def sm_clear_def sm_put_def Let_def)

lemma minmax_step_ok:
  assumes "sm_ok jenkins_one_hash out"
  shows "sm_ok jenkins_one_hash (minmax_step (k, v) out) \<and> sm_find jenkins_one_hash (minmax_step (k, v) out) =
    (sm_find jenkins_one_hash out)(k \<mapsto>
      updateMin (updateMax (case sm_find jenkins_one_hash out k of None \<Rightarrow> MeasMinMax_empty | Some o1 \<Rightarrow> o1) (mm_max v)) (mm_min v))"
proof -
  obtain m1 ip where fb: "sm_find_bucket jenkins_one_hash MeasMinMax_empty out k = (m1, ip)"
    by (cases "sm_find_bucket jenkins_one_hash MeasMinMax_empty out k")
  define m2 where "m2 = sm_put m1 ip (updateMax (sm_at m1 ip) (mm_max v))"
  note m1 = sm_find_bucket_ok [OF assms fb]
  have at: "sm_at m1 ip = (case sm_find jenkins_one_hash out k of None \<Rightarrow> MeasMinMax_empty | Some o1 \<Rightarrow> o1)"
    using sm_place_at [of jenkins_one_hash m1 ip k] m1 by simp
  have m2: "sm_ok jenkins_one_hash m2" "sm_place jenkins_one_hash m2 ip k"
    "sm_find jenkins_one_hash m2 = (sm_find jenkins_one_hash m1)(k \<mapsto> updateMax (sm_at m1 ip) (mm_max v))"
    "sm_at m2 ip = updateMax (sm_at m1 ip) (mm_max v)"
    using sm_put_ok [of jenkins_one_hash m1 ip k "updateMax (sm_at m1 ip) (mm_max v)"] m1 by (simp_all add: m2_def)
  have "minmax_step (k, v) out = sm_put m2 ip (updateMin (sm_at m2 ip) (mm_min v))"
    by (simp add: minmax_step_def fb m2_def Let_def)
  then show ?thesis
    using sm_put_ok [OF m2(1,2), of "updateMin (sm_at m2 ip) (mm_min v)"] m1 m2(3,4) at by simp
qed

text \<open>C36: \<^verbatim>\<open>minmax_append\<close> combines, for every id of the source, its extrema with those of the target,
  and leaves the other ids alone.  For an id the target does not have yet the combination starts
  from default measurements, whose time is 0: the minimum stays the default one.\<close>

theorem minmax_append_combines:
  assumes "sm_ok jenkins_one_hash out" "sm_ok jenkins_one_hash source"
  shows "sm_ok jenkins_one_hash (minmax_append out source) \<and>
    sm_find jenkins_one_hash (minmax_append out source) k =
      (case sm_find jenkins_one_hash source k of None \<Rightarrow> sm_find jenkins_one_hash out k
       | Some v \<Rightarrow> Some (case sm_find jenkins_one_hash out k of
            None \<Rightarrow> \<lparr>mm_min = Meas_empty, mm_max = (if 0 < m_time (mm_max v) then mm_max v else Meas_empty)\<rparr>
          | Some o1 \<Rightarrow> \<lparr>mm_min = (if m_time (mm_min v) < m_time (mm_min o1) then mm_min v else mm_min o1),
                        mm_max = (if m_time (mm_max o1) < m_time (mm_max v) then mm_max v else mm_max o1)\<rparr>))"
proof -
  have "sm_ok jenkins_one_hash (minmax_append out source) \<and>
    sm_find jenkins_one_hash (minmax_append out source) k =
      (case map_of (sm_items source) k of None \<Rightarrow> sm_find jenkins_one_hash out k
       | Some v \<Rightarrow> Some (updateMin (updateMax (case sm_find jenkins_one_hash out k of None \<Rightarrow> MeasMinMax_empty | Some o1 \<Rightarrow> o1)
           (mm_max v)) (mm_min v)))"
    unfolding minmax_append_def sm_apply_items
    by (rule striped.fold_step [OF minmax_step_ok assms(1) sm_items_map(1) [OF assms(2)]])
  then show ?thesis
    unfolding sm_items_map(2) [OF assms(2)]
    by (auto simp: updateMin_def updateMax_def MeasMinMax_empty_def Meas_empty_def split: option.splits)
qed

theorem minmax_append_combines_witness:
  "sm_find jenkins_one_hash (minmax_append (sm_new 1)
      (sm_insert jenkins_one_hash MeasMinMax_empty (sm_new 1) 3
        \<lparr>mm_min = \<lparr>m_id = 3, m_time = 5, m_value = 0, m_flag = 0\<rparr>, mm_max = \<lparr>m_id = 3, m_time = 9, m_value = 0, m_flag = 0\<rparr>\<rparr>)) 3 =
    Some \<lparr>mm_min = Meas_empty, mm_max = \<lparr>m_id = 3, m_time = 9, m_value = 0, m_flag = 0\<rparr>\<rparr>"
  using minmax_append_combines [OF sm_new_ok(1) sm_insert_ok(1) [OF sm_new_ok(1)], of 1 1 MeasMinMax_empty 3
      "\<lparr>mm_min = \<lparr>m_id = 3, m_time = 5, m_value = 0, m_flag = 0\<rparr>, mm_max = \<lparr>m_id = 3, m_time = 9, m_value = 0, m_flag = 0\<rparr>\<rparr>" 3]
  by (simp add: sm_insert_ok sm_new_ok)

end
