(* ===== verification/Memory.thy ===== *)
theory Memory
  imports ReadPath StripedMap
begin

text \<open>
  \<^verbatim>\<open>storage/memstorage/allocators.h\<close>, \<^verbatim>\<open>allocators.cpp\<close>, \<^verbatim>\<open>memchunk.h\<close>, \<^verbatim>\<open>memchunk.cpp\<close>,
  \<^verbatim>\<open>timetrack.h\<close>, \<^verbatim>\<open>timetrack.cpp\<close>: the chunks of one series in memory.  The members of a track are a record, the
  allocator and the counter of \<^verbatim>\<open>MemoryChunkContainer\<close> it shares with other tracks are threaded.  A chunk
  is owned by the track that holds it; its destructor runs when the track gives it up, no cursor
  being open then.  \<^term>\<open>None\<close> is a call whose behaviour is undefined; an exception is a value, with
  the state the exception leaves.
\<close>

section \<open>Allocators\<close>

record UnlimitMemoryAllocator =
  ua_chunkSize :: u32
  ua_allocated :: nat

record RegionChunkAllocator =
  ra_chunkSize :: u32
  ra_allocated :: nat
  ra_capacity :: nat
  ra_free_list :: "nat list"

datatype IMemoryAllocator = Unlimit UnlimitMemoryAllocator | Region RegionChunkAllocator

definition UnlimitMemoryAllocator_new :: "u32 \<Rightarrow> IMemoryAllocator" where
  "UnlimitMemoryAllocator_new bufferSize = Unlimit \<lparr>ua_chunkSize = bufferSize, ua_allocated = 0\<rparr>"

text \<open>\<open>capacity\<close> is \<^verbatim>\<open>(int)(float(maxSize) / _one_chunk_size)\<close>.  The lock-free queue of free positions is a
  list; a push into it succeeds as long as it holds at most \<open>capacity\<close> positions.\<close>

definition RegionChunkAllocator_new :: "nat \<Rightarrow> u32 \<Rightarrow> IMemoryAllocator" where
  "RegionChunkAllocator_new capacity bufferSize = Region \<lparr>ra_chunkSize = bufferSize, ra_allocated = 0,
     ra_capacity = capacity, ra_free_list = [0..<capacity]\<rparr>"

fun al_chunkSize :: "IMemoryAllocator \<Rightarrow> u32" where
  "al_chunkSize (Unlimit a) = ua_chunkSize a"
| "al_chunkSize (Region a) = ra_chunkSize a"

fun al_allocated :: "IMemoryAllocator \<Rightarrow> nat" where
  "al_allocated (Unlimit a) = ua_allocated a"
| "al_allocated (Region a) = ra_allocated a"

text \<open>The position of the allocated chunk; \<^term>\<open>None\<close> is \<^verbatim>\<open>EMPTY\<close>.  \<^verbatim>\<open>new\<close> does not run out of memory.\<close>

definition UnlimitMemoryAllocator_allocate :: "UnlimitMemoryAllocator \<Rightarrow> nat option \<times> UnlimitMemoryAllocator" where
  "UnlimitMemoryAllocator_allocate a = (Some (ua_allocated a), a\<lparr>ua_allocated := ua_allocated a + 1\<rparr>)"

definition UnlimitMemoryAllocator_free :: "UnlimitMemoryAllocator \<Rightarrow> UnlimitMemoryAllocator" where
  "UnlimitMemoryAllocator_free a = a\<lparr>ua_allocated := ua_allocated a - 1\<rparr>"

definition RegionChunkAllocator_allocate :: "RegionChunkAllocator \<Rightarrow> nat option \<times> RegionChunkAllocator" where
  "RegionChunkAllocator_allocate a = (case ra_free_list a of
     [] \<Rightarrow> (None, a)
   | pos # rest \<Rightarrow> (Some pos, a\<lparr>ra_allocated := ra_allocated a + 1, ra_free_list := rest\<rparr>))"

definition RegionChunkAllocator_free :: "nat \<Rightarrow> RegionChunkAllocator \<Rightarrow> RegionChunkAllocator" where
  "RegionChunkAllocator_free position a =
     a\<lparr>ra_allocated := ra_allocated a - 1, ra_free_list := ra_free_list a @ [position]\<rparr>"

fun allocate :: "IMemoryAllocator \<Rightarrow> nat option \<times> IMemoryAllocator" where
  "allocate (Unlimit a) = map_prod id Unlimit (UnlimitMemoryAllocator_allocate a)"
| "allocate (Region a) = map_prod id Region (RegionChunkAllocator_allocate a)"

fun al_free :: "nat \<Rightarrow> IMemoryAllocator \<Rightarrow> IMemoryAllocator" where
  "al_free position (Unlimit a) = Unlimit (UnlimitMemoryAllocator_free a)"
| "al_free position (Region a) = Region (RegionChunkAllocator_free position a)"

section \<open>Chunks in memory\<close>

record MemChunk =
  mc_chunk :: Chunk
  mc_is_from_pool :: bool
  mc_position :: nat

abbreviation mc_header :: "MemChunk \<Rightarrow> ChunkHeader" where
  "mc_header mc \<equiv> c_header (mc_chunk mc)"

abbreviation mc_stat :: "MemChunk \<Rightarrow> Statistic" where
  "mc_stat mc \<equiv> ch_stat (c_header (mc_chunk mc))"

text \<open>What the tracks share: the allocator, \<^verbatim>\<open>_chunks_count\<close> of the container, what the memory of a
  header holds before the constructor of a chunk writes it, and what the memory of a local status
  holds before its constructor.\<close>

record MemPool =
  mp_allocator :: IMemoryAllocator
  mp_chunks_count :: u64
  mp_junk :: ChunkHeader
  mp_stack :: u64

definition addChunk :: "MemPool \<Rightarrow> MemPool" where
  "addChunk w = w\<lparr>mp_chunks_count := mp_chunks_count w + 1\<rparr>"

definition freeChunk :: "MemPool \<Rightarrow> MemPool" where
  "freeChunk w = w\<lparr>mp_chunks_count := mp_chunks_count w - 1\<rparr>"

text \<open>The destructor: memory of the pool goes back to the allocator.\<close>

definition MemChunk_delete :: "MemChunk \<Rightarrow> MemPool \<Rightarrow> MemPool" where
  "MemChunk_delete mc w =
    (if \<not> mc_is_from_pool mc then w
     else w\<lparr>mp_allocator := al_free (mc_position mc) (mp_allocator w)\<rparr>)"

definition MemChunk_new :: "bool \<Rightarrow> nat \<Rightarrow> ChunkHeader \<Rightarrow> u32 \<Rightarrow> Meas \<Rightarrow> MemChunk option" where
  "MemChunk_new is_from_pool position index sz first_m = do {
     c \<leftarrow> Chunk_create index sz first_m;
     Some \<lparr>mc_chunk = c, mc_is_from_pool = is_from_pool, mc_position = position\<rparr> }"

section \<open>Ordered maps\<close>

text \<open>\<^verbatim>\<open>std::map\<close> as the list of its entries in the order of the keys: \<^verbatim>\<open>insert\<close> keeps an entry that is
  there, \<^verbatim>\<open>lower_bound\<close> and \<^verbatim>\<open>upper_bound\<close> are positions.\<close>

fun omap_insert :: "'k::linorder \<Rightarrow> 'v \<Rightarrow> ('k \<times> 'v) list \<Rightarrow> ('k \<times> 'v) list" where
  "omap_insert k v [] = [(k, v)]"
| "omap_insert k v ((j, w) # xs) =
    (if k < j then (k, v) # (j, w) # xs else if k = j then (j, w) # xs else (j, w) # omap_insert k v xs)"

definition omap_erase :: "'k \<Rightarrow> ('k \<times> 'v) list \<Rightarrow> ('k \<times> 'v) list" where
  "omap_erase k xs = filter (\<lambda>e. fst e \<noteq> k) xs"

definition lower_bound :: "('k::linorder \<times> 'v) list \<Rightarrow> 'k \<Rightarrow> nat" where
  "lower_bound xs t = length (takeWhile (\<lambda>e. fst e < t) xs)"

definition upper_bound :: "('k::linorder \<times> 'v) list \<Rightarrow> 'k \<Rightarrow> nat" where
  "upper_bound xs t = length (takeWhile (\<lambda>e. fst e \<le> t) xs)"

text \<open>The entries a loop \<^verbatim>\<open>for (it = begin; it != end; ++it)\<close> that stops at the end of the map visits.\<close>

definition omap_range :: "nat \<Rightarrow> nat \<Rightarrow> ('k \<times> 'v) list \<Rightarrow> 'v list" where
  "omap_range b e xs = map snd (if b \<le> e then drop b (take e xs) else drop b xs)"

section \<open>Tracks\<close>

record TimeTrack =
  tt_meas_id :: Id
  tt_min_max :: MeasMinMax
  tt_max_sync_time :: Time
  tt_step :: Time
  tt_cur_chunk :: "MemChunk option"
  tt_index :: "(Time \<times> MemChunk) list"

datatype 'a outcome = Returned 'a | Thrown string

definition TimeTrack_new :: "Time \<Rightarrow> Id \<Rightarrow> TimeTrack" where
  "TimeTrack_new step meas_id = \<lparr>tt_meas_id = meas_id,
     tt_min_max = \<lparr>mm_min = Meas_empty\<lparr>m_time := MAX_TIME\<rparr>, mm_max = Meas_empty\<lparr>m_time := MIN_TIME\<rparr>\<rparr>,
     tt_max_sync_time = MIN_TIME, tt_step = step, tt_cur_chunk = None, tt_index = []\<rparr>"

definition updateMinMax :: "TimeTrack \<Rightarrow> Meas \<Rightarrow> TimeTrack" where
  "updateMinMax tr value = tr\<lparr>tt_min_max := updateMin (updateMax (tt_min_max tr) value) value\<rparr>"

definition create_new_chunk :: "TimeTrack \<Rightarrow> Meas \<Rightarrow> MemPool \<Rightarrow> (bool \<times> TimeTrack \<times> MemPool) option" where
  "create_new_chunk tr value w = (
     let tr1 = (case tt_cur_chunk tr of None \<Rightarrow> tr
                | Some c \<Rightarrow> tr\<lparr>tt_index := omap_insert (s_maxTime (mc_stat c)) c (tt_index tr), tt_cur_chunk := None\<rparr>)
     in case allocate (mp_allocator w) of
       (None, a) \<Rightarrow> Some (False, tr1, w\<lparr>mp_allocator := a\<rparr>)
     | (Some pos, a) \<Rightarrow> do {
         mc \<leftarrow> MemChunk_new True pos (mp_junk w) (al_chunkSize a) value;
         Some (True, tr1\<lparr>tt_cur_chunk := Some mc\<rparr>, addChunk (w\<lparr>mp_allocator := a\<rparr>)) })"

text \<open>The loop of \<^verbatim>\<open>get_target_to_replace_from_index\<close> over the potential targets.  The access
  \<^verbatim>\<open>potential_targets[i + 1]\<close> is not checked; past the end it is undefined.\<close>

function target_loop :: "Time \<Rightarrow> MemChunk list \<Rightarrow> nat \<Rightarrow> MemChunk option" where
  "target_loop t targets i =
    (if Suc i < length targets then
       let nxt = targets ! Suc i; c = targets ! i in
       if s_minTime (mc_stat nxt) > t \<or> inInterval (s_minTime (mc_stat c)) (s_maxTime (mc_stat c)) t then Some c
       else target_loop t targets (Suc i)
     else None)"
  by pat_completeness auto

termination target_loop
  by (relation "measure (\<lambda>(t, targets, i). length targets - i)") auto

declare target_loop.simps [simp del]

definition potential_targets :: "(Time \<times> MemChunk) list \<Rightarrow> Time \<Rightarrow> MemChunk list" where
  "potential_targets index t =
    (if length index = 1 then [snd (hd index)]
     else let e = upper_bound index t; b = lower_bound index t
       in omap_range b (if e \<noteq> length index then Suc e else e) index)"

definition get_target_to_replace_from_index :: "TimeTrack \<Rightarrow> Time \<Rightarrow> MemChunk option" where
  "get_target_to_replace_from_index tr t = (
     let targets = potential_targets (tt_index tr) t in
     if length targets = 1 then Some (hd targets) else target_loop t targets 0)"

text \<open>\<^verbatim>\<open>MeasSet\<close>, a set ordered by time: a value whose time is there is not inserted.\<close>

definition MeasSet_insert :: "Meas \<Rightarrow> (Time \<times> Meas) list \<Rightarrow> (Time \<times> Meas) list" where
  "MeasSet_insert m s = omap_insert (m_time m) m s"

definition sizeof_Meas :: u32 where
  "sizeof_Meas = 24"

text \<open>The loop that appends the values after the first to the new chunk; \<^verbatim>\<open>THROW_EXCEPTION\<close> if one does
  not fit.\<close>

fun append_rest :: "Chunk \<Rightarrow> Meas list \<Rightarrow> Chunk outcome option" where
  "append_rest c [] = Some (Returned c)"
| "append_rest c (v # vs) = do {
     (status, c1) \<leftarrow> Chunk_append c v;
     if \<not> status then Some (Thrown ''logic error.'') else append_rest c1 vs }"

text \<open>The second half of \<^verbatim>\<open>append_to_past\<close>: the values of the target but for one of the same time, the
  target freed, and a new chunk of memory of its own with the value among them.\<close>

definition rewrite_target :: "MemChunk \<Rightarrow> Meas \<Rightarrow> MemPool \<Rightarrow> (MemChunk outcome \<times> MemPool) option" where
  "rewrite_target target value w = do {
     rdr \<leftarrow> Chunk_getReader (mc_chunk target);
     vs \<leftarrow> read_values rdr;
     let mset0 = fold MeasSet_insert (filter (\<lambda>v. m_time v \<noteq> m_time value) vs) [];
         w1 = MemChunk_delete target (if mc_is_from_pool target then freeChunk w else w);
         mar = map snd (MeasSet_insert value mset0);
         buffer_size = ch_size (mc_header target) + sizeof_Meas * 2
     in do {
       new_chunk \<leftarrow> MemChunk_new False 0 (mp_junk w) buffer_size (hd mar);
       r \<leftarrow> append_rest (mc_chunk new_chunk) (tl mar);
       Some (case r of Thrown e \<Rightarrow> Thrown e | Returned c \<Rightarrow> Returned (new_chunk\<lparr>mc_chunk := c\<rparr>), w1) }}"

definition append_to_past :: "TimeTrack \<Rightarrow> Meas \<Rightarrow> MemPool \<Rightarrow> (unit outcome \<times> TimeTrack \<times> MemPool) option" where
  "append_to_past tr value w = do {
     cur \<leftarrow> tt_cur_chunk tr;
     let is_cur_chunk = (tt_index tr = [] \<or> s_minTime (mc_stat cur) \<le> m_time value) in do {
     target \<leftarrow> (if is_cur_chunk then Some cur else get_target_to_replace_from_index tr (m_time value));
     let tr1 = (if is_cur_chunk then tr\<lparr>tt_cur_chunk := None\<rparr>
                else tr\<lparr>tt_index := omap_erase (s_maxTime (mc_stat target)) (tt_index tr)\<rparr>) in do {
     (r, w1) \<leftarrow> rewrite_target target value w;
     Some (case r of
         Thrown e \<Rightarrow> (Thrown e, tr1, w1)
       | Returned nc \<Rightarrow>
           (Returned (),
            if is_cur_chunk then tr1\<lparr>tt_cur_chunk := Some nc\<rparr>
            else tr1\<lparr>tt_index := omap_insert (s_maxTime (mc_stat nc)) nc (tt_index tr1)\<rparr>, w1)) }}}"

definition TimeTrack_append :: "TimeTrack \<Rightarrow> Meas \<Rightarrow> MemPool \<Rightarrow> (Status outcome \<times> TimeTrack \<times> MemPool) option" where
  "TimeTrack_append tr value w = (
     let full = (case tt_cur_chunk tr of None \<Rightarrow> True | Some c \<Rightarrow> Chunk_isFull (mc_chunk c)) in
     if full then do {
       (ok, tr1, w1) \<leftarrow> create_new_chunk tr value w;
       Some (if \<not> ok then (Returned (Status_error (mp_stack w) 1 bad_alloc), tr1, w1)
             else (Returned (Status_writed 1), updateMinMax tr1 value, w1)) }
     else do {
       cur \<leftarrow> tt_cur_chunk tr;
       if s_maxTime (mc_stat cur) < m_time value then do {
         (ok, c) \<leftarrow> Chunk_append (mc_chunk cur) value;
         let tr1 = tr\<lparr>tt_cur_chunk := Some (cur\<lparr>mc_chunk := c\<rparr>)\<rparr> in
         if \<not> ok then do {
           (ok2, tr2, w2) \<leftarrow> create_new_chunk tr1 value w;
           Some (if \<not> ok2 then (Returned (Status_error (mp_stack w) 1 bad_alloc), tr2, w2)
                 else (Returned (Status_writed 1), updateMinMax (updateMinMax tr2 value) value, w2)) }
         else Some (Returned (Status_writed 1), updateMinMax tr1 value, w) }
       else do {
         (r, tr1, w1) \<leftarrow> append_to_past tr value w;
         Some (case r of
           Thrown e \<Rightarrow> (Thrown e, tr1, w1)
         | Returned _ \<Rightarrow> (Returned (Status_writed 1), updateMinMax tr1 value, w1)) } })"

definition rereadMinMax :: "TimeTrack \<Rightarrow> TimeTrack" where
  "rereadMinMax tr = (
     let mm = tt_min_max tr;
         mm1 = mm\<lparr>mm_max := (mm_max mm)\<lparr>m_time := MIN_TIME\<rparr>, mm_min := (mm_min mm)\<lparr>m_time := MIN_TIME\<rparr>\<rparr>;
         mm2 = (if length (tt_index tr) \<noteq> 0 then mm1\<lparr>mm_min := ChunkHeader_first (mc_header (snd (hd (tt_index tr))))\<rparr>
                else case tt_cur_chunk tr of None \<Rightarrow> mm1
                | Some c \<Rightarrow> mm1\<lparr>mm_min := ChunkHeader_first (mc_header c)\<rparr>);
         mm3 = (case tt_cur_chunk tr of None \<Rightarrow> mm2 | Some c \<Rightarrow> mm2\<lparr>mm_max := ChunkHeader_last (mc_header c)\<rparr>)
     in tr\<lparr>tt_min_max := mm3\<rparr>)"

text \<open>The loop of \<^verbatim>\<open>drop_N\<close>; the counter is decremented before it is compared with 0.\<close>

fun drop_loop :: "u64 \<Rightarrow> (Time \<times> MemChunk) list \<Rightarrow> MemChunk list \<times> (Time \<times> MemChunk) list" where
  "drop_loop cnt [] = ([], [])"
| "drop_loop cnt (front # rest) =
    (if cnt - 1 = 0 then ([snd front], rest)
     else let (result, index) = drop_loop (cnt - 1) rest in (snd front # result, index))"

definition drop_N :: "TimeTrack \<Rightarrow> u64 \<Rightarrow> MemChunk list \<times> TimeTrack" where
  "drop_N tr n = (let (result, index) = drop_loop n (tt_index tr) in (result, rereadMinMax (tr\<lparr>tt_index := index\<rparr>)))"

definition drop_Old :: "TimeTrack \<Rightarrow> Time \<Rightarrow> MemPool \<Rightarrow> (nat \<times> TimeTrack \<times> MemPool) option" where
  "drop_Old tr t w = (
     let old = takeWhile (\<lambda>e. s_maxTime (mc_stat (snd e)) < t) (tt_index tr);
         rest = dropWhile (\<lambda>e. s_maxTime (mc_stat (snd e)) < t) (tt_index tr);
         w1 = fold (\<lambda>e. MemChunk_delete (snd e)) old w
     in do {
       cur \<leftarrow> tt_cur_chunk tr;
       Some (if s_maxTime (mc_stat cur) < t
             then (length old + 1, tr\<lparr>tt_index := rest, tt_cur_chunk := None\<rparr>, MemChunk_delete cur w1)
             else (length old, tr\<lparr>tt_index := rest\<rparr>, w1)) })"

section \<open>Queries of a track\<close>

definition TimeTrack_minTime :: "TimeTrack \<Rightarrow> Time" where
  "TimeTrack_minTime tr = m_time (mm_min (tt_min_max tr))"

definition TimeTrack_maxTime :: "TimeTrack \<Rightarrow> Time" where
  "TimeTrack_maxTime tr = m_time (mm_max (tt_min_max tr))"

definition TimeTrack_minMaxTime :: "TimeTrack \<Rightarrow> Id \<Rightarrow> (Time \<times> Time) option" where
  "TimeTrack_minMaxTime tr i =
    (if i \<noteq> tt_meas_id tr then None
     else
       let step = (\<lambda>c (mn, mx). (min (s_minTime (mc_stat c)) mn, max (s_maxTime (mc_stat c)) mx));
           r = fold step (map snd (tt_index tr)) (MAX_TIME, MIN_TIME)
       in Some (case tt_cur_chunk tr of None \<Rightarrow> r | Some c \<Rightarrow> step c r))"

definition chunkInQuery :: "Time \<Rightarrow> Time \<Rightarrow> Chunk \<Rightarrow> bool" where
  "chunkInQuery from to c \<longleftrightarrow> (let st = ch_stat (c_header c) in
     inInterval (s_minTime st) (s_maxTime st) from \<or> inInterval (s_minTime st) (s_maxTime st) to \<or>
     inInterval from to (s_minTime st) \<or> inInterval from to (s_maxTime st))"

text \<open>The chunks of the index the loops over an interval visit.\<close>

definition interval_chunks :: "TimeTrack \<Rightarrow> Time \<Rightarrow> Time \<Rightarrow> MemChunk list" where
  "interval_chunks tr from to = (let b = lower_bound (tt_index tr) from in
     omap_range (if b \<noteq> 0 then b - 1 else b) (upper_bound (tt_index tr) to) (tt_index tr))"

text \<open>The chunks a query over an interval reads: those of the index in order, then the current one.\<close>

definition interval_selected :: "TimeTrack \<Rightarrow> Time \<Rightarrow> Time \<Rightarrow> MemChunk list" where
  "interval_selected tr from to = filter (\<lambda>c. chunkInQuery from to (mc_chunk c)) (interval_chunks tr from to) @
     (case tt_cur_chunk tr of None \<Rightarrow> [] | Some c \<Rightarrow> if chunkInQuery from to (mc_chunk c) then [c] else [])"

definition TimeTrack_intervalReader :: "TimeTrack \<Rightarrow> QueryInterval \<Rightarrow> (Id \<times> cursor) list option" where
  "TimeTrack_intervalReader tr q = do {
     readers \<leftarrow> those (map (\<lambda>c. Chunk_getReader (mc_chunk c)) (interval_selected tr (q_from q) (q_to q)));
     if readers = [] then Some []
     else do { result \<leftarrow> colapseCursors readers; Some [(tt_meas_id tr, result)] } }"

definition TimeTrack_stat :: "TimeTrack \<Rightarrow> Time \<Rightarrow> Time \<Rightarrow> Statistic option" where
  "TimeTrack_stat tr from to = do {
     sts \<leftarrow> those (map (\<lambda>c. Chunk_stat (mc_chunk c) from to) (interval_selected tr from to));
     Some (fold (\<lambda>st result. stat_update_stat result st) sts Statistic_empty) }"

definition TimeTrack_foreach :: "('s \<Rightarrow> bool) \<Rightarrow> (Meas \<Rightarrow> 's \<Rightarrow> 's) \<Rightarrow> TimeTrack \<Rightarrow> QueryInterval \<Rightarrow> 's \<Rightarrow> 's option" where
  "TimeTrack_foreach is_canceled clbk tr q s = do {
     rdrs \<leftarrow> TimeTrack_intervalReader tr q;
     (case rdrs of [] \<Rightarrow> Some s | (_, c) # _ \<Rightarrow> map_option fst (cursor_apply_query is_canceled clbk q c s)) }"

text \<open>The loop over the chunks of the index that contain the time point, and the one over the values
  of the current chunk.\<close>

fun time_point_chunks :: "QueryTimePoint \<Rightarrow> MemChunk list \<Rightarrow> Meas \<Rightarrow> Meas option" where
  "time_point_chunks q [] result = Some result"
| "time_point_chunks q (c # cs) result =
    (if s_minTime (mc_stat c) \<le> q_time_point q \<and> q_time_point q \<le> s_maxTime (mc_stat c) then do {
       rdr \<leftarrow> Chunk_getReader (mc_chunk c);
       m \<leftarrow> read_time_point q rdr;
       time_point_chunks q cs (if m_time result < m_time m then m else result) }
     else time_point_chunks q cs result)"

definition TimeTrack_readTimePoint :: "TimeTrack \<Rightarrow> QueryTimePoint \<Rightarrow> Meas option" where
  "TimeTrack_readTimePoint tr q = (
     let t = q_time_point q; index = tt_index tr;
         e = upper_bound index t; b = lower_bound index t;
         cs = omap_range (if b \<noteq> 0 then b - 1 else b) (if e \<noteq> length index then Suc e else e) index
     in do {
       r1 \<leftarrow> time_point_chunks q cs (Meas_empty\<lparr>m_flag := NO_DATA\<rparr>);
       r2 \<leftarrow> (case tt_cur_chunk tr of None \<Rightarrow> Some r1
              | Some c \<Rightarrow> if s_maxTime (mc_stat c) \<le> t then do {
                    rdr \<leftarrow> Chunk_getReader (mc_chunk c);
                    vs \<leftarrow> read_values rdr;
                    Some (fold (\<lambda>v r. if m_time r \<le> m_time v \<and> m_time v \<le> t then v else r) vs r1) }
                  else Some r1);
       Some (if m_flag r2 = NO_DATA then r2\<lparr>m_time := t\<rparr> else r2) })"

definition TimeTrack_currentValue :: "TimeTrack \<Rightarrow> Flag \<Rightarrow> Meas" where
  "TimeTrack_currentValue tr flag =
    (case tt_cur_chunk tr of
       Some c \<Rightarrow> if inFlag (ChunkHeader_last (mc_header c)) flag then ChunkHeader_last (mc_header c)
                 else Meas_empty\<lparr>m_flag := NO_DATA\<rparr>
     | None \<Rightarrow> Meas_empty\<lparr>m_flag := NO_DATA\<rparr>)"

end
