(* ===== verification/TrackCorrect.thy ===== *)
theory TrackCorrect
  imports Memory
begin

text \<open>
  What a track of \<^verbatim>\<open>timetrack.cpp\<close> stores: the chunks of the index and the current chunk hold
  consecutive parts of one time-ordered list.  Appending in order extends the list, an interval
  query returns the part of it the visited chunks hold, and a value of the past replaces or is
  inserted into the chunk of its time.
\<close>

section \<open>Ordered maps\<close>

lemma omap_insert_last: "\<forall>e \<in> set xs. fst e < k \<Longrightarrow> omap_insert k v xs = xs @ [(k, v)]"
  by (induction xs) force+

lemma takeWhile_eq_filter_sorted:
  "sorted_wrt (\<le>) (map f xs) \<Longrightarrow> (\<And>x y. f x \<le> f y \<Longrightarrow> P y \<Longrightarrow> P x) \<Longrightarrow> takeWhile P xs = filter P xs"
proof (induction xs)
  case (Cons x xs)
  show ?case
  proof (cases "P x")
    case False
    then have "\<forall>y \<in> set xs. \<not> P y" using Cons.prems by auto
    then show ?thesis using False by (simp add: filter_empty_conv)
  qed (use Cons in auto)
qed simp

lemma length_takeWhile_mono: "(\<And>x. P x \<Longrightarrow> Q x) \<Longrightarrow> length (takeWhile P xs) \<le> length (takeWhile Q xs)"
  by (induction xs) auto

lemma takeWhile_less: "sorted (map fst xs) \<Longrightarrow> takeWhile (\<lambda>e. fst e < t) xs = filter (\<lambda>e. fst e < t) xs"
  by (rule takeWhile_eq_filter_sorted [of fst]) auto

lemma takeWhile_le: "sorted (map fst xs) \<Longrightarrow> takeWhile (\<lambda>e. fst e \<le> t) xs = filter (\<lambda>e. fst e \<le> t) xs"
  by (rule takeWhile_eq_filter_sorted [of fst]) auto

section \<open>What a track holds\<close>

lemma chunk_bounds:
  assumes "chunk_holds c ms" "time_sorted ms"
  shows "s_minTime (ch_stat (c_header c)) = m_time (hd ms)" "s_maxTime (ch_stat (c_header c)) = m_time (last ms)" "ms \<noteq> []"
proof -
  have ms: "ch_stat (c_header c) = stat_of ms" "ms \<noteq> []" using assms(1) by (auto simp: chunk_holds_def)
  have "Min (m_time ` set ms) = m_time (hd ms)"
    using assms(2) ms(2) by (intro Min_eqI) (cases ms, auto)+
  moreover have "Max (m_time ` set ms) = m_time (last ms)"
    using assms(2) ms(2) by (intro Max_eqI) (cases ms rule: rev_cases, auto simp: time_sorted_def sorted_append)+
  ultimately show "s_minTime (ch_stat (c_header c)) = m_time (hd ms)" "s_maxTime (ch_stat (c_header c)) = m_time (last ms)" "ms \<noteq> []"
    using ms by (simp_all add: stat_minTime stat_maxTime)
qed

lemma chunk_holds_ne: "chunk_holds c ms \<Longrightarrow> ms \<noteq> []"
  by (auto simp: chunk_holds_def)

text \<open>\<open>tt_rep tr vss vc\<close>: the chunks of the index hold the lists \<open>vss\<close>, the current chunk, if there is one,
  holds \<open>vc\<close> and takes further values.\<close>

definition tt_rep :: "TimeTrack \<Rightarrow> Meas list list \<Rightarrow> Meas list \<Rightarrow> bool" where
  "tt_rep tr vss vc \<longleftrightarrow>
     list_all2 (\<lambda>e vs. chunk_holds (mc_chunk (snd e)) vs \<and> fst e = m_time (last vs)) (tt_index tr) vss \<and>
     (case tt_cur_chunk tr of None \<Rightarrow> vc = [] | Some c \<Rightarrow> chunk_writes (mc_chunk c) vc) \<and>
     time_strict (concat vss @ vc) \<and> below_max (concat vss @ vc)"

lemma tt_rep_new: "tt_rep (TimeTrack_new step i) [] []"
  by (simp add: tt_rep_def TimeTrack_new_def time_strict_def below_max_def)

lemma tt_rep_parts:
  assumes "tt_rep tr vss vc" "vs \<in> set vss"
  shows "vs \<noteq> []" "time_strict vs" "below_max vs"
proof -
  show "vs \<noteq> []"
    using assms by (auto simp: tt_rep_def list_all2_conv_all_nth in_set_conv_nth chunk_holds_def)
  obtain xs ys where "vss = xs @ vs # ys" using split_list [OF assms(2)] by blast
  then show "time_strict vs" "below_max vs"
    using assms(1) by (auto simp: tt_rep_def time_strict_def sorted_wrt_append below_max_def)
qed

lemma time_strict_append:
  "time_strict (xs @ ys) \<longleftrightarrow> time_strict xs \<and> time_strict ys \<and> (\<forall>x \<in> set xs. \<forall>y \<in> set ys. m_time x < m_time y)"
  by (auto simp: time_strict_def sorted_wrt_append)

lemma tt_rep_keys:
  assumes "tt_rep tr vss vc"
  shows "map fst (tt_index tr) = map (\<lambda>vs. m_time (last vs)) vss"
    "\<forall>e \<in> set (tt_index tr). \<exists>m \<in> set (concat vss). fst e = m_time m"
proof -
  show keys: "map fst (tt_index tr) = map (\<lambda>vs. m_time (last vs)) vss"
    using assms by (auto simp: tt_rep_def list_all2_conv_all_nth intro!: nth_equalityI)
  have "\<exists>m \<in> set (concat vss). k = m_time m" if k: "k \<in> set (map fst (tt_index tr))" for k
  proof -
    obtain vs where "vs \<in> set vss" "k = m_time (last vs)" using k unfolding keys by auto
    then show ?thesis using tt_rep_parts(1) [OF assms] last_in_set by fastforce
  qed
  then show "\<forall>e \<in> set (tt_index tr). \<exists>m \<in> set (concat vss). fst e = m_time m" by simp
qed

text \<open>Moving the current chunk into the index.\<close>

lemma tt_close_cur:
  assumes rep: "tt_rep tr vss vc" and cur: "tt_cur_chunk tr = Some c"
    and c': "chunk_holds (mc_chunk c') vc"
  shows "tt_rep (tr\<lparr>tt_index := omap_insert (s_maxTime (mc_stat c')) c' (tt_index tr), tt_cur_chunk := None\<rparr>) (vss @ [vc]) []"
proof -
  have vc: "time_sorted vc" "vc \<noteq> []" "\<forall>x \<in> set (concat vss). m_time x < m_time (last vc)"
    using rep cur by (auto simp: tt_rep_def time_strict_append time_strict_sorted chunk_writes_def chunk_holds_def)
  have "\<forall>e \<in> set (tt_index tr). fst e < s_maxTime (mc_stat c')"
    using tt_rep_keys(2) [OF rep] vc(3) chunk_bounds(2) [OF c' vc(1)] by force
  then have "omap_insert (s_maxTime (mc_stat c')) c' (tt_index tr) = tt_index tr @ [(s_maxTime (mc_stat c'), c')]"
    by (rule omap_insert_last)
  then show ?thesis
    using rep c' chunk_bounds(2) [OF c' vc(1)] by (auto simp: tt_rep_def intro!: list_all2_appendI)
qed

section \<open>Appending in order\<close>

lemma MemChunk_new_writes:
  assumes "0 < sz"
  shows "\<exists>mc. MemChunk_new b pos hdr sz m = Some mc \<and> chunk_writes (mc_chunk mc) [m] \<and>
    bb_free_size (c_bw (mc_chunk mc)) = unat sz - 1 \<and> mc_is_from_pool mc = b \<and> mc_position mc = pos"
  using chunk_create_writes [OF assms, of hdr m] by (auto simp: MemChunk_new_def)

lemma allocate_chunkSize [simp]: "al_chunkSize (snd (allocate a)) = al_chunkSize a"
  by (cases a) (auto simp: UnlimitMemoryAllocator_allocate_def RegionChunkAllocator_allocate_def split: list.splits)

lemma tt_rep_fields [simp]:
  "tt_rep (updateMinMax tr v) vss vc = tt_rep tr vss vc" "tt_meas_id (updateMinMax tr v) = tt_meas_id tr"
  by (simp_all add: updateMinMax_def tt_rep_def)

text \<open>\<^verbatim>\<open>create_new_chunk\<close> on a track whose current chunk, if any, holds \<open>vc\<close>.\<close>

lemma create_new_chunk_rep:
  assumes closed: "tt_rep (case tt_cur_chunk tr of None \<Rightarrow> tr
      | Some c \<Rightarrow> tr\<lparr>tt_index := omap_insert (s_maxTime (mc_stat c)) c (tt_index tr), tt_cur_chunk := None\<rparr>) vss []"
    and m: "\<forall>x \<in> set (concat vss). m_time x < m_time m" "m_time m < MAX_TIME" and sz: "0 < al_chunkSize (mp_allocator w)"
  shows "\<exists>ok tr' w'. create_new_chunk tr m w = Some (ok, tr', w') \<and> tt_rep tr' vss (if ok then [m] else []) \<and>
    (ok \<longleftrightarrow> fst (allocate (mp_allocator w)) \<noteq> None) \<and> tt_meas_id tr' = tt_meas_id tr"
proof -
  define tr1 where "tr1 = (case tt_cur_chunk tr of None \<Rightarrow> tr
      | Some c \<Rightarrow> tr\<lparr>tt_index := omap_insert (s_maxTime (mc_stat c)) c (tt_index tr), tt_cur_chunk := None\<rparr>)"
  have tr1: "tt_rep tr1 vss []" "tt_meas_id tr1 = tt_meas_id tr" using closed by (auto simp: tr1_def split: option.splits)
  obtain p a where al: "allocate (mp_allocator w) = (p, a)" by (cases "allocate (mp_allocator w)")
  show ?thesis
  proof (cases p)
    case None
    then have "create_new_chunk tr m w = Some (False, tr1, w\<lparr>mp_allocator := a\<rparr>)"
      using al by (simp add: create_new_chunk_def tr1_def [symmetric])
    then show ?thesis using tr1 al None by (auto intro: exI [of _ False])
  next
    case (Some pos)
    have "0 < al_chunkSize a" using sz allocate_chunkSize [of "mp_allocator w"] al by simp
    then obtain mc where mc: "MemChunk_new True pos (mp_junk w) (al_chunkSize a) m = Some mc" "chunk_writes (mc_chunk mc) [m]"
      using MemChunk_new_writes by blast
    have "tt_rep (tr1\<lparr>tt_cur_chunk := Some mc\<rparr>) vss [m]"
      using tr1(1) mc(2) m by (auto simp: tt_rep_def time_strict_def sorted_wrt_append below_max_def)
    then show ?thesis
      using tr1 mc(1) al Some by (auto simp: create_new_chunk_def tr1_def [symmetric] intro: exI [of _ True])
  qed
qed

lemma chunk_append_cases:
  assumes "chunk_writes c ms" "meas_valid (chunk_state ms) m"
  shows "\<exists>ok c'. Chunk_append c m = Some (ok, c') \<and> (if ok then chunk_writes c' (ms @ [m]) else chunk_holds c' ms)"
proof (cases "length (meas_enc (chunk_state ms) m) \<le> bb_free_size (c_bw c)")
  case True
  then show ?thesis using chunk_append_fits [OF assms] by auto
next
  case False
  then show ?thesis using chunk_append_refused [OF assms] by auto
qed

text \<open>A value that can follow the values of the current chunk.\<close>

definition tt_follows :: "Meas list list \<Rightarrow> Meas list \<Rightarrow> Meas \<Rightarrow> bool" where
  "tt_follows vss vc m \<longleftrightarrow> (\<forall>x \<in> set (concat vss @ vc). m_time x < m_time m) \<and> m_time m < MAX_TIME \<and>
     (vc \<noteq> [] \<longrightarrow> meas_valid (chunk_state vc) m)"

text \<open>The result of an append in order: the value is stored at the end, or there is no memory for it
  and nothing is lost.\<close>

definition appended :: "MemPool \<Rightarrow> Meas list \<Rightarrow> Meas \<Rightarrow> (Status outcome \<times> TimeTrack \<times> MemPool) option \<Rightarrow> bool" where
  "appended w vs m r \<longleftrightarrow> (\<exists>st tr' w' vss' vc'. r = Some (Returned st, tr', w') \<and> tt_rep tr' vss' vc' \<and>
     (if st_error st = APPEND_OK then st = Status_writed 1 \<and> concat vss' @ vc' = vs @ [m]
      else st_error st = bad_alloc \<and> fst (allocate (mp_allocator w)) = None \<and> concat vss' @ vc' = vs))"

lemma appended_writed:
  "r = Some (Returned (Status_writed 1), tr', w') \<Longrightarrow> tt_rep tr' vss' vc' \<Longrightarrow> concat vss' @ vc' = vs @ [m] \<Longrightarrow> appended w vs m r"
  unfolding appended_def by (intro exI [of _ vss'] exI [of _ vc'] exI) (auto simp: Status_writed_def)

lemma appended_refused:
  "r = Some (Returned (Status_error j i bad_alloc), tr', w') \<Longrightarrow> tt_rep tr' vss' vc' \<Longrightarrow> concat vss' @ vc' = vs \<Longrightarrow>
     fst (allocate (mp_allocator w)) = None \<Longrightarrow> appended w vs m r"
  unfolding appended_def by (intro exI [of _ vss'] exI [of _ vc'] exI) (auto simp: Status_error_def)

lemma append_in_order:
  assumes rep: "tt_rep tr vss vc" and m: "tt_follows vss vc m" and sz: "0 < al_chunkSize (mp_allocator w)"
  shows "appended w (concat vss @ vc) m (TimeTrack_append tr m w)"
proof (cases "tt_cur_chunk tr")
  case None
  then have "vc = []" using rep by (simp add: tt_rep_def)
  then obtain ok tr' w' where new: "create_new_chunk tr m w = Some (ok, tr', w')" "tt_rep tr' vss (if ok then [m] else [])"
    "ok \<longleftrightarrow> fst (allocate (mp_allocator w)) \<noteq> None"
    using create_new_chunk_rep [of tr vss m w] rep m sz None by (auto simp: tt_follows_def)
  show ?thesis
  proof (cases ok)
    case True
    then show ?thesis
      using new None \<open>vc = []\<close>
      by (intro appended_writed [of _ "updateMinMax tr' m" w' vss "[m]"]) (simp_all add: TimeTrack_append_def)
  next
    case False
    then show ?thesis
      using new None \<open>vc = []\<close>
      by (intro appended_refused [of _ "mp_stack w" 1 tr' w' vss "[]"]) (simp_all add: TimeTrack_append_def)
  qed
next
  case (Some c)
  have c: "chunk_writes (mc_chunk c) vc" "\<not> Chunk_isFull (mc_chunk c)" "vc \<noteq> []" "time_sorted vc"
    using rep Some by (auto simp: tt_rep_def chunk_writes_def chunk_holds_def Chunk_isFull_def time_strict_append time_strict_sorted)
  then have later: "s_maxTime (mc_stat c) < m_time m"
    using chunk_bounds(2) [of "mc_chunk c" vc] m by (auto simp: chunk_writes_def tt_follows_def)
  have valid: "meas_valid (chunk_state vc) m" using m c(3) by (simp add: tt_follows_def)
  obtain ok c' where c': "Chunk_append (mc_chunk c) m = Some (ok, c')" "if ok then chunk_writes c' (vc @ [m]) else chunk_holds c' vc"
    using chunk_append_cases [OF c(1) valid] by blast
  define tr1 where "tr1 = tr\<lparr>tt_cur_chunk := Some (c\<lparr>mc_chunk := c'\<rparr>)\<rparr>"
  note app = TimeTrack_append_def Some c(2) later c'(1) tr1_def [symmetric] Let_def
  show ?thesis
  proof (cases ok)
    case True
    have "tt_rep tr1 vss (vc @ [m])"
      using rep Some c' True m by (auto simp: tr1_def tt_rep_def tt_follows_def time_strict_def sorted_wrt_append below_max_def)
    then show ?thesis
      using True by (intro appended_writed [of _ "updateMinMax tr1 m" w vss "vc @ [m]"]) (simp_all add: app)
  next
    case False
    have "tt_rep (tr1\<lparr>tt_index := omap_insert (s_maxTime (mc_stat (c\<lparr>mc_chunk := c'\<rparr>))) (c\<lparr>mc_chunk := c'\<rparr>) (tt_index tr1), tt_cur_chunk := None\<rparr>)
        (vss @ [vc]) []"
      using tt_close_cur [OF rep Some, of "c\<lparr>mc_chunk := c'\<rparr>"] c'(2) False by (simp add: tr1_def)
    then obtain ok2 tr' w' where new: "create_new_chunk tr1 m w = Some (ok2, tr', w')" "tt_rep tr' (vss @ [vc]) (if ok2 then [m] else [])"
      "ok2 \<longleftrightarrow> fst (allocate (mp_allocator w)) \<noteq> None"
      using create_new_chunk_rep [of tr1 "vss @ [vc]" m w] m sz by (auto simp: tt_follows_def tr1_def)
    show ?thesis
    proof (cases ok2)
      case True
      then show ?thesis
        using new False
        by (intro appended_writed [of _ "updateMinMax (updateMinMax tr' m) m" w' "vss @ [vc]" "[m]"]) (simp_all add: app)
    next
      case ok2: False
      then show ?thesis
        using new False by (intro appended_refused [of _ "mp_stack w" 1 tr' w' "vss @ [vc]" "[]"]) (simp_all add: app)
    qed
  qed
qed

section \<open>Readers of ordered chunks\<close>

lemma chunk_reader_ordered:
  assumes "chunk_holds c ms" "time_strict ms" "below_max ms"
  shows "\<exists>r. Chunk_getReader c = Some r \<and> reader_wf r ms \<and> \<not> is_merge r \<and>
    cursor_minTime r = m_time (hd ms) \<and> cursor_maxTime r = m_time (last ms)"
proof -
  have s: "time_sorted ms" "sorted (map m_time ms)" using assms(2) time_strict_sorted by (auto simp: time_sorted_def)
  have "distinct (map m_time ms)" using assms(2) by (simp add: time_strict_def strict_sorted_iff)
  then obtain r where r: "Chunk_getReader c = Some r" "reader_wf r ms" "\<not> is_merge r"
    using chunk_getReader_wf [OF assms(1) _ assms(3)] s(2) by (auto simp: sort_key_id_if_sorted)
  have "ch_is_sorted (c_header c)" using assms(1) s(2) by (auto simp: chunk_holds_def)
  then have "cursor_minTime r = s_minTime (ch_stat (c_header c))" "cursor_maxTime r = s_maxTime (ch_stat (c_header c))"
    using r(1) by (auto simp: Chunk_getReader_def Let_def ChunkReader_new_def)
  then show ?thesis using r chunk_bounds [OF assms(1) s(1)] by simp
qed

lemma concat_strict_nth:
  assumes "time_strict (concat vss)" "i < j" "j < length vss" "x \<in> set (vss ! i)" "y \<in> set (vss ! j)"
  shows "m_time x < m_time y"
proof -
  have "concat vss = concat (take j vss) @ concat (drop j vss)" by (metis append_take_drop_id concat_append)
  moreover have "x \<in> set (concat (take j vss))" using assms(2-4) by (auto simp: in_concat_iff simp del: set_concat)
  moreover have "y \<in> set (concat (drop j vss))"
    using assms(3,5) unfolding in_concat_iff by (intro exI [of _ 0]) simp
  ultimately show ?thesis using assms(1) by (auto simp: time_strict_append simp del: set_concat)
qed

lemma merged_ordered:
  assumes "time_strict (concat vss)"
  shows "merged vss = concat vss"
proof (rule merged_unique [symmetric])
  show "\<forall>vs \<in> set vss. time_sorted vs"
  proof
    fix vs assume "vs \<in> set vss"
    then obtain xs ys where "vss = xs @ vs # ys" using split_list by metis
    then show "time_sorted vs" using assms by (simp add: time_strict_append time_strict_sorted)
  qed
qed (use assms find_strict in auto)

definition ordered_reader :: "cursor \<Rightarrow> Meas list \<Rightarrow> bool" where
  "ordered_reader r vs \<longleftrightarrow> reader_wf r vs \<and> \<not> is_merge r \<and> vs \<noteq> [] \<and>
     cursor_minTime r = m_time (hd vs) \<and> cursor_maxTime r = m_time (last vs)"

lemma colapse_ordered:
  assumes rv: "list_all2 ordered_reader rv vss" and st: "time_strict (concat vss)" and ne: "rv \<noteq> []"
  shows "\<exists>c. colapseCursors rv = Some c \<and> cursor_rep c (concat vss)"
proof -
  have len: "length rv = length vss" using rv by (rule list_all2_lengthD)
  have b: "vss ! i \<noteq> []" "cursor_minTime (rv ! i) = m_time (hd (vss ! i))" "cursor_maxTime (rv ! i) = m_time (last (vss ! i))"
    if "i < length rv" for i
    using list_all2_nthD [OF rv that] by (simp_all add: ordered_reader_def)
  have lt: "cursor_maxTime (rv ! i) < cursor_minTime (rv ! j)" if "i < j" "j < length rv" for i j
    using concat_strict_nth [OF st that(1), of "last (vss ! i)" "hd (vss ! j)"] b [of i] b [of j] that len by simp
  have sp: "spans (rv ! i)" if "i < length rv" for i
    using list_all2_nthD [OF rv that] unfolding ordered_reader_def reader_wf_def by (blast intro: reader_ok_spans)
  have "ov rv i j \<Longrightarrow> i = j" if "i < length rv" "j < length rv" for i j
    using lt [of i j] lt [of j i] that
    by (cases i j rule: linorder_cases) (auto simp: ov_def linear_iff_sep sp sep_def)
  then have "ov_transitive rv" unfolding ov_transitive_def by blast
  moreover have "list_all2 reader_wf rv vss" "\<forall>r \<in> set rv. \<not> is_merge r"
    using rv by (auto simp: list_all2_conv_all_nth ordered_reader_def in_set_conv_nth)
  ultimately obtain c where "colapseCursors rv = Some c" "reader_wf c (merged vss)"
    using colapseCursors_merges ne by blast
  then show ?thesis
    by (auto simp: merged_ordered [OF st] reader_wf_def reader_ok_def)
qed

lemma those_readers:
  assumes "list_all2 (\<lambda>c vs. chunk_holds (mc_chunk c) vs) cs vss" "\<forall>vs \<in> set vss. time_strict vs \<and> below_max vs"
  shows "\<exists>rv. those (map (\<lambda>c. Chunk_getReader (mc_chunk c)) cs) = Some rv \<and> list_all2 ordered_reader rv vss"
  using assms
proof (induction rule: list_all2_induct)
  case (Cons c cs vs vss)
  then obtain r where "Chunk_getReader (mc_chunk c) = Some r" "ordered_reader r vs"
    using chunk_reader_ordered [of "mc_chunk c" vs] by (auto simp: ordered_reader_def chunk_holds_def)
  moreover obtain rv where "those (map (\<lambda>c. Chunk_getReader (mc_chunk c)) cs) = Some rv" "list_all2 ordered_reader rv vss"
    using Cons by auto
  ultimately show ?case by auto
qed simp

section \<open>The chunks an interval query visits\<close>

lemma list_all2_filter:
  "list_all2 P xs ys \<Longrightarrow> (\<And>x y. P x y \<Longrightarrow> p x = q y) \<Longrightarrow> list_all2 P (filter p xs) (filter q ys)"
  by (induction rule: list_all2_induct) auto

lemma time_strict_concat_filter: "time_strict (concat vss) \<Longrightarrow> time_strict (concat (filter P vss))"
  by (induction vss) (auto simp: time_strict_append)

text \<open>\<^verbatim>\<open>chunkInQuery\<close> on the values a chunk holds.\<close>

definition hits :: "Time \<Rightarrow> Time \<Rightarrow> Meas list \<Rightarrow> bool" where
  "hits from to vs \<longleftrightarrow> inInterval (m_time (hd vs)) (m_time (last vs)) from \<or> inInterval (m_time (hd vs)) (m_time (last vs)) to \<or>
     inInterval from to (m_time (hd vs)) \<or> inInterval from to (m_time (last vs))"

lemma chunkInQuery_hits:
  "chunk_holds c vs \<Longrightarrow> time_sorted vs \<Longrightarrow> chunkInQuery from to c = hits from to vs"
  by (simp add: chunkInQuery_def hits_def chunk_bounds Let_def)

abbreviation in_interval :: "Time \<Rightarrow> Time \<Rightarrow> Meas list \<Rightarrow> Meas list" where
  "in_interval from to vs \<equiv> filter (\<lambda>m. inInterval from to (m_time m)) vs"

lemma sorted_hd_last: "time_sorted vs \<Longrightarrow> x \<in> set vs \<Longrightarrow> m_time (hd vs) \<le> m_time x \<and> m_time x \<le> m_time (last vs)"
proof -
  assume a: "time_sorted vs" "x \<in> set vs"
  then have "m_time (hd vs) \<le> m_time x" by (cases vs) auto
  moreover have "m_time x \<le> m_time (last vs)"
    using a by (cases vs rule: rev_cases) (auto simp: time_sorted_def sorted_append)
  ultimately show ?thesis ..
qed

lemma not_hits: "time_sorted vs \<Longrightarrow> \<not> hits from to vs \<Longrightarrow> in_interval from to vs = []"
  unfolding filter_empty_conv
  by (rule ballI, drule sorted_hd_last, assumption) (auto simp: hits_def inInterval_def)

lemma in_interval_hits:
  "\<forall>vs \<in> set vss. time_sorted vs \<Longrightarrow> in_interval from to (concat (filter (hits from to) vss)) = in_interval from to (concat vss)"
  by (induction vss) (auto simp: not_hits)

lemma in_interval_drop:
  assumes "\<forall>vs \<in> set vss. time_sorted vs" "\<forall>vs \<in> set (take b vss). m_time (last vs) < from"
  shows "in_interval from to (concat (drop b vss)) = in_interval from to (concat vss)"
proof -
  have "in_interval from to (concat (take b vss)) = []"
    unfolding filter_empty_conv using assms sorted_hd_last by (fastforce simp: inInterval_def dest: in_set_takeD)
  then show ?thesis by (metis append_Nil append_take_drop_id concat_append filter_append)
qed

text \<open>The part of the values that the loops over the index see: the chunks that end in the interval or
  before.\<close>

definition seen :: "Time \<Rightarrow> Meas list list \<Rightarrow> Meas list \<Rightarrow> Meas list" where
  "seen to vss vc = concat (filter (\<lambda>vs. m_time (last vs) \<le> to) vss) @ vc"

lemma seen_subset: "set (in_interval from to (seen to vss vc)) \<subseteq> set (in_interval from to (concat vss @ vc))"
  by (auto simp: seen_def)

lemma tt_rep_ends_sorted:
  assumes "tt_rep tr vss vc"
  shows "sorted (map (\<lambda>vs. m_time (last vs)) vss)"
proof -
  have st: "time_strict (concat vss)" and ne: "\<And>vs. vs \<in> set vss \<Longrightarrow> vs \<noteq> []"
    using assms tt_rep_parts(1) by (auto simp: tt_rep_def time_strict_append)
  have "m_time (last (vss ! i)) \<le> m_time (last (vss ! j))" if "i < j" "j < length vss" for i j
    using concat_strict_nth [OF st that, of "last (vss ! i)" "last (vss ! j)"] ne that by (simp add: less_imp_le)
  then show ?thesis by (auto simp: sorted_iff_nth_mono_less)
qed

definition visited :: "nat \<Rightarrow> nat \<Rightarrow> 'a list \<Rightarrow> 'a list" where
  "visited b e xs = (if b \<le> e then drop b (take e xs) else drop b xs)"

lemma visited_strict: "time_strict (concat vss) \<Longrightarrow> time_strict (concat (visited b e vss))"
proof -
  assume st: "time_strict (concat vss)"
  then have "time_strict (concat (take e vss))" "time_strict (concat (drop b vss))" for e b
    by (metis append_take_drop_id concat_append time_strict_append)+
  then show ?thesis
    by (auto simp: visited_def) (metis append_take_drop_id concat_append time_strict_append)
qed

lemma visited_seen:
  assumes rep: "tt_rep tr vss vc" and b: "b = lower_bound (tt_index tr) from" and e: "e = upper_bound (tt_index tr) to"
  shows "in_interval from to (concat (visited (if b \<noteq> 0 then b - 1 else b) e vss) @ vc) = in_interval from to (seen to vss vc)"
proof (cases "from \<le> to")
  case False
  then have "in_interval from to xs = []" for xs by (auto simp: filter_empty_conv inInterval_def)
  then show ?thesis by simp
next
  case True
  define ends where "ends = map (\<lambda>vs. m_time (last vs)) vss"
  have keys: "map fst (tt_index tr) = ends" "sorted ends" "length vss = length ends"
    using tt_rep_keys(1) [OF rep] tt_rep_ends_sorted [OF rep] by (simp_all add: ends_def)
  have len: "length (takeWhile (\<lambda>x. P (fst x)) (tt_index tr)) = length (takeWhile (\<lambda>vs. P (m_time (last vs))) vss)" for P
  proof -
    have "length (takeWhile P (map fst (tt_index tr))) = length (takeWhile P ends)" by (simp add: keys(1))
    then show ?thesis by (simp add: takeWhile_map ends_def comp_def)
  qed
  have srt: "sorted (map (\<lambda>vs. m_time (last vs)) vss)" using keys(2) by (simp add: ends_def)
  have te: "take e vss = filter (\<lambda>vs. m_time (last vs) \<le> to) vss"
    unfolding e upper_bound_def len [of "\<lambda>k. k \<le> to"] takeWhile_eq_take [symmetric]
    by (rule takeWhile_eq_filter_sorted [of "\<lambda>vs. m_time (last vs)"]) (use srt in auto)
  have be: "b \<le> e" unfolding b e lower_bound_def upper_bound_def
    by (rule length_takeWhile_mono) (use True in auto)
  define b' where "b' = (if b \<noteq> 0 then b - 1 else b)"
  have b': "b' \<le> b" "b' \<le> e" using be by (auto simp: b'_def)
  have tb: "take b vss = takeWhile (\<lambda>vs. m_time (last vs) < from) vss"
    unfolding b lower_bound_def len [of "\<lambda>k. k < from"] by (rule takeWhile_eq_take [symmetric])
  have "\<forall>vs \<in> set (take b' (take e vss)). m_time (last vs) < from"
  proof
    fix vs assume "vs \<in> set (take b' (take e vss))"
    then have "vs \<in> set (take b vss)" using b' by (metis min.absorb1 set_take_subset_set_take subsetD take_take)
    then show "m_time (last vs) < from" unfolding tb by (rule set_takeWhileD [THEN conjunct2])
  qed
  moreover have "\<forall>vs \<in> set (take e vss). time_sorted vs"
    using tt_rep_parts(2) [OF rep] time_strict_sorted by (auto dest: in_set_takeD)
  ultimately have "in_interval from to (concat (drop b' (take e vss))) = in_interval from to (concat (take e vss))"
    by (rule in_interval_drop [rotated])
  then show ?thesis
    unfolding b'_def [symmetric] using b'(2) te by (simp add: visited_def seen_def)
qed

section \<open>Interval queries\<close>

text \<open>The values of the visited chunks and of the selected ones, the current chunk included.\<close>

definition interval_parts :: "TimeTrack \<Rightarrow> Time \<Rightarrow> Time \<Rightarrow> Meas list list \<Rightarrow> Meas list list" where
  "interval_parts tr from to vss = (let b = lower_bound (tt_index tr) from in
     visited (if b \<noteq> 0 then b - 1 else b) (upper_bound (tt_index tr) to) vss)"

definition interval_sel :: "TimeTrack \<Rightarrow> Time \<Rightarrow> Time \<Rightarrow> Meas list list \<Rightarrow> Meas list \<Rightarrow> Meas list list" where
  "interval_sel tr from to vss vc = filter (hits from to) (interval_parts tr from to vss @ (if vc = [] then [] else [vc]))"

lemma interval_selection:
  fixes lo hi :: Time
  assumes rep: "tt_rep tr vss vc"
  defines "ws \<equiv> interval_parts tr lo hi vss"
  defines "sel \<equiv> interval_sel tr lo hi vss vc"
  shows "list_all2 (\<lambda>c vs. chunk_holds (mc_chunk c) vs) (interval_selected tr lo hi) sel"
    and "\<forall>vs \<in> set sel. time_strict vs \<and> below_max vs" and "time_strict (concat sel)"
    and "in_interval lo hi (concat sel) = in_interval lo hi (seen hi vss vc)"
proof -
  have vs: "time_strict vs" "below_max vs" if "vs \<in> set vss" for vs using tt_rep_parts [OF rep that] by blast+
  have st: "time_strict (concat vss @ vc)" "below_max vc" using rep by (simp_all add: tt_rep_def below_max_def)
  have ws: "set ws \<subseteq> set vss" by (auto simp: ws_def interval_parts_def Let_def visited_def dest: in_set_dropD in_set_takeD)
  have idx: "list_all2 (\<lambda>e vs. chunk_holds (mc_chunk (snd e)) vs \<and> vs \<in> set vss) (tt_index tr) vss"
    using rep by (auto simp: tt_rep_def list_all2_conv_all_nth)
  then have cs: "list_all2 (\<lambda>c vs. chunk_holds (mc_chunk c) vs \<and> vs \<in> set vss) (interval_chunks tr lo hi) ws"
    unfolding interval_chunks_def omap_range_def ws_def interval_parts_def visited_def Let_def
    by (simp add: list_all2_map1 list_all2_dropI list_all2_takeI)
  have "list_all2 (\<lambda>c vs. chunk_holds (mc_chunk c) vs \<and> vs \<in> set vss)
      (filter (\<lambda>c. chunkInQuery lo hi (mc_chunk c)) (interval_chunks tr lo hi)) (filter (hits lo hi) ws)"
    by (rule list_all2_filter [OF cs]) (auto simp: chunkInQuery_hits vs time_strict_sorted)
  then have "list_all2 (\<lambda>c vs. chunk_holds (mc_chunk c) vs)
      (filter (\<lambda>c. chunkInQuery lo hi (mc_chunk c)) (interval_chunks tr lo hi)) (filter (hits lo hi) ws)"
    by (rule list_all2_mono) simp
  moreover have "list_all2 (\<lambda>c vs. chunk_holds (mc_chunk c) vs)
      (case tt_cur_chunk tr of None \<Rightarrow> [] | Some c \<Rightarrow> if chunkInQuery lo hi (mc_chunk c) then [c] else [])
      (filter (hits lo hi) (if vc = [] then [] else [vc]))"
    using rep st(1) by (auto simp: tt_rep_def chunk_writes_def chunkInQuery_hits time_strict_append time_strict_sorted
        split: option.splits dest: chunk_holds_ne)
  ultimately show "list_all2 (\<lambda>c vs. chunk_holds (mc_chunk c) vs) (interval_selected tr lo hi) sel"
    unfolding sel_def interval_sel_def interval_selected_def filter_append ws_def by (rule list_all2_appendI)
  show "\<forall>vs \<in> set sel. time_strict vs \<and> below_max vs"
    using vs ws st by (auto simp: sel_def interval_sel_def ws_def [symmetric] time_strict_append)
  have wst: "time_strict (concat (ws @ (if vc = [] then [] else [vc])))"
    using visited_strict [of vss] st(1) ws by (auto simp: ws_def interval_parts_def Let_def time_strict_append)
  then show "time_strict (concat sel)" unfolding sel_def interval_sel_def ws_def by (rule time_strict_concat_filter)
  have "in_interval lo hi (concat sel) = in_interval lo hi (concat ws @ vc)"
    unfolding sel_def interval_sel_def ws_def [symmetric]
  proof (subst in_interval_hits)
    show "\<forall>vs \<in> set (ws @ (if vc = [] then [] else [vc])). time_sorted vs"
      using vs ws st by (auto simp: time_strict_append time_strict_sorted)
  qed simp
  then show "in_interval lo hi (concat sel) = in_interval lo hi (seen hi vss vc)"
    using visited_seen [OF rep refl refl, of lo hi] by (simp only: ws_def interval_parts_def Let_def)
qed

lemma intervalReader_seen:
  assumes rep: "tt_rep tr vss vc"
  shows "\<exists>rs vs. TimeTrack_intervalReader tr q = Some rs \<and>
    (if rs = [] then vs = [] else \<exists>c. rs = [(tt_meas_id tr, c)] \<and> cursor_rep c vs) \<and>
    in_interval (q_from q) (q_to q) vs = in_interval (q_from q) (q_to q) (seen (q_to q) vss vc)"
proof -
  note sel = interval_selection [OF rep, where lo = "q_from q" and hi = "q_to q"]
  obtain rv where rv: "those (map (\<lambda>c. Chunk_getReader (mc_chunk c)) (interval_selected tr (q_from q) (q_to q))) = Some rv"
    and or: "list_all2 ordered_reader rv (interval_sel tr (q_from q) (q_to q) vss vc)"
    using those_readers [OF sel(1,2)] by blast
  show ?thesis
  proof (cases "rv = []")
    case True
    then have "TimeTrack_intervalReader tr q = Some []"
      using rv by (simp add: TimeTrack_intervalReader_def)
    moreover have "in_interval (q_from q) (q_to q) (seen (q_to q) vss vc) = []"
      using sel(4) or True by simp
    ultimately show ?thesis by auto
  next
    case False
    then show ?thesis
      using colapse_ordered [OF or sel(3) False] rv sel(4)
      by (auto simp: TimeTrack_intervalReader_def)
  qed
qed

section \<open>Sequences of appends\<close>

text \<open>Appends until one is not accepted: how many were, and the state after the last call.\<close>

fun TimeTrack_append_list :: "TimeTrack \<Rightarrow> Meas list \<Rightarrow> MemPool \<Rightarrow> (nat \<times> TimeTrack \<times> MemPool) option" where
  "TimeTrack_append_list tr [] w = Some (0, tr, w)"
| "TimeTrack_append_list tr (m # ms) w = do {
     (r, tr1, w1) \<leftarrow> TimeTrack_append tr m w;
     (case r of
        Returned st \<Rightarrow> if st_error st = APPEND_OK then do {
            (n, tr2, w2) \<leftarrow> TimeTrack_append_list tr1 ms w1;
            Some (Suc n, tr2, w2) } else Some (0, tr1, w1)
      | Thrown e \<Rightarrow> Some (0, tr1, w1)) }"

text \<open>Values every part of which the codec reproduces, wherever a chunk begins.\<close>

fun codec_ok :: "Meas list \<Rightarrow> bool" where
  "codec_ok [] \<longleftrightarrow> True"
| "codec_ok (m # ms) \<longleftrightarrow> valid_list meas_valid meas_step (CopmressedReader_new m) ms \<and> codec_ok ms"

lemma codec_ok_suffix: "codec_ok (pre @ ms) \<Longrightarrow> codec_ok ms"
  by (induction pre) simp_all

lemma codec_ok_follows:
  assumes "codec_ok (pre @ vc @ m # ms)" "vc \<noteq> []"
  shows "meas_valid (chunk_state vc) m"
  using codec_ok_suffix [OF assms(1)] assms(2) by (cases vc) (simp_all add: chunk_state_def valid_list_append)

definition pool_unlimited :: "MemPool \<Rightarrow> bool" where
  "pool_unlimited w \<longleftrightarrow> (case mp_allocator w of Unlimit _ \<Rightarrow> True | Region _ \<Rightarrow> False)"

lemma append_pool:
  assumes "TimeTrack_append tr m w = Some (r, tr', w')" "s_maxTime (mc_stat (the (tt_cur_chunk tr))) < m_time m \<or> tt_cur_chunk tr = None"
    "tt_cur_chunk tr \<noteq> None \<Longrightarrow> \<not> Chunk_isFull (mc_chunk (the (tt_cur_chunk tr)))"
  shows "al_chunkSize (mp_allocator w') = al_chunkSize (mp_allocator w) \<and> pool_unlimited w' = pool_unlimited w"
proof -
  have new: "al_chunkSize (mp_allocator w1) = al_chunkSize (mp_allocator w) \<and> pool_unlimited w1 = pool_unlimited w"
    if "create_new_chunk t m w = Some (ok, t1, w1)" for t ok t1 w1
  proof -
    obtain p a where al: "allocate (mp_allocator w) = (p, a)" by (cases "allocate (mp_allocator w)")
    have "al_chunkSize a = al_chunkSize (mp_allocator w)" using allocate_chunkSize [of "mp_allocator w"] al by simp
    moreover have "(case a of Unlimit _ \<Rightarrow> True | Region _ \<Rightarrow> False) = pool_unlimited w"
    proof (cases "mp_allocator w")
      case (Unlimit u)
      then show ?thesis using al by (cases "UnlimitMemoryAllocator_allocate u") (auto simp: pool_unlimited_def)
    next
      case (Region r)
      then show ?thesis using al by (cases "RegionChunkAllocator_allocate r") (auto simp: pool_unlimited_def)
    qed
    ultimately show ?thesis
      using that al by (auto simp: create_new_chunk_def pool_unlimited_def addChunk_def bind_eq_Some_conv Let_def split: option.splits)
  qed
  show ?thesis
    using assms new by (cases "tt_cur_chunk tr")
      (auto simp: TimeTrack_append_def bind_eq_Some_conv Let_def split: if_splits prod.splits)
qed

lemma create_meas_id: "create_new_chunk tr m w = Some (ok, tr', w') \<Longrightarrow> tt_meas_id tr' = tt_meas_id tr"
  by (cases "tt_cur_chunk tr"; cases "allocate (mp_allocator w)"; cases "fst (allocate (mp_allocator w))")
    (auto simp: create_new_chunk_def Let_def bind_eq_Some_conv)

lemma past_meas_id: "append_to_past tr m w = Some res \<Longrightarrow> tt_meas_id (fst (snd res)) = tt_meas_id tr"
  by (auto simp: append_to_past_def Let_def bind_eq_Some_conv split: outcome.split if_split_asm)

lemma append_meas_id: "TimeTrack_append tr m w = Some res \<Longrightarrow> tt_meas_id (fst (snd res)) = tt_meas_id tr"
  by (auto simp: TimeTrack_append_def Let_def bind_eq_Some_conv updateMinMax_def dest!: create_meas_id past_meas_id
      split: outcome.split if_split_asm option.split_asm)

lemma append_one:
  assumes rep: "tt_rep tr vss vc" and all: "time_strict ((concat vss @ vc) @ m # ms)" "below_max ((concat vss @ vc) @ m # ms)"
    "codec_ok ((concat vss @ vc) @ m # ms)" and sz: "0 < al_chunkSize (mp_allocator w)"
  obtains st tr1 w1 vss1 vc1 where "TimeTrack_append tr m w = Some (Returned st, tr1, w1)" "tt_rep tr1 vss1 vc1"
    "tt_meas_id tr1 = tt_meas_id tr"
    "al_chunkSize (mp_allocator w1) = al_chunkSize (mp_allocator w)" "pool_unlimited w1 = pool_unlimited w"
    "st = Status_writed 1 \<and> concat vss1 @ vc1 = (concat vss @ vc) @ [m] \<or>
     st_error st = bad_alloc \<and> \<not> pool_unlimited w \<and> fst (allocate (mp_allocator w)) = None \<and> concat vss1 @ vc1 = concat vss @ vc"
proof -
  have cur: "tt_cur_chunk tr = None \<or> (\<exists>c. tt_cur_chunk tr = Some c \<and> chunk_writes (mc_chunk c) vc \<and> time_sorted vc)"
    using rep by (auto simp: tt_rep_def time_strict_append time_strict_sorted split: option.splits)
  have f: "tt_follows vss vc m"
    using all codec_ok_follows [of "concat vss" vc m ms] unfolding tt_follows_def
    by (auto simp: time_strict_append below_max_def)
  obtain st tr1 w1 vss1 vc1 where a: "TimeTrack_append tr m w = Some (Returned st, tr1, w1)" "tt_rep tr1 vss1 vc1"
    "if st_error st = APPEND_OK then st = Status_writed 1 \<and> concat vss1 @ vc1 = (concat vss @ vc) @ [m]
     else st_error st = bad_alloc \<and> fst (allocate (mp_allocator w)) = None \<and> concat vss1 @ vc1 = concat vss @ vc"
    using append_in_order [OF rep f sz] unfolding appended_def by blast
  have pool: "al_chunkSize (mp_allocator w1) = al_chunkSize (mp_allocator w)" "pool_unlimited w1 = pool_unlimited w"
    using append_pool [OF a(1)] cur f chunk_bounds(2) chunk_bounds(3)
    by (auto simp: chunk_writes_def Chunk_isFull_def tt_follows_def)
  have "fst (allocate (mp_allocator w)) = None \<Longrightarrow> \<not> pool_unlimited w"
    by (auto simp: pool_unlimited_def UnlimitMemoryAllocator_allocate_def split: IMemoryAllocator.splits)
  moreover have "tt_meas_id tr1 = tt_meas_id tr" using append_meas_id [OF a(1)] by simp
  ultimately show thesis using that [OF a(1,2) _ pool] a(3) by (cases "st_error st = APPEND_OK") simp_all
qed

lemma append_list_rep:
  assumes "tt_rep tr vss vc" "concat vss @ vc = pre" "time_strict (pre @ ms)" "below_max (pre @ ms)" "codec_ok (pre @ ms)"
    "0 < al_chunkSize (mp_allocator w)"
  shows "\<exists>k tr' w' vss' vc'. TimeTrack_append_list tr ms w = Some (k, tr', w') \<and> k \<le> length ms \<and> tt_rep tr' vss' vc' \<and>
    concat vss' @ vc' = pre @ take k ms \<and> (pool_unlimited w \<longrightarrow> k = length ms)"
  using assms
proof (induction ms arbitrary: tr vss vc pre w)
  case Nil
  then show ?case by auto
next
  case (Cons m ms)
  obtain st tr1 w1 vss1 vc1 where a: "TimeTrack_append tr m w = Some (Returned st, tr1, w1)" "tt_rep tr1 vss1 vc1"
    "al_chunkSize (mp_allocator w1) = al_chunkSize (mp_allocator w)" "pool_unlimited w1 = pool_unlimited w"
    "st = Status_writed 1 \<and> concat vss1 @ vc1 = (concat vss @ vc) @ [m] \<or>
     st_error st = bad_alloc \<and> \<not> pool_unlimited w \<and> fst (allocate (mp_allocator w)) = None \<and> concat vss1 @ vc1 = concat vss @ vc"
    using append_one [OF Cons.prems(1), of m ms w] Cons.prems(2-6) by metis
  show ?case
  proof (cases "st_error st = APPEND_OK")
    case True
    obtain k tr' w' vss' vc' where "TimeTrack_append_list tr1 ms w1 = Some (k, tr', w')" "k \<le> length ms" "tt_rep tr' vss' vc'"
      "concat vss' @ vc' = (pre @ [m]) @ take k ms" "pool_unlimited w1 \<longrightarrow> k = length ms"
      using Cons.IH [OF a(2), of "pre @ [m]" w1] Cons.prems a(3,5) True by auto
    then show ?thesis
      using a(1,4) True by (intro exI [of _ "Suc k"] exI [of _ tr'] exI [of _ w'] exI [of _ vss'] exI [of _ vc']) simp
  next
    case False
    then have "\<not> pool_unlimited w" "concat vss1 @ vc1 = concat vss @ vc" using a(5) by (auto simp: Status_writed_def)
    then show ?thesis
      using a(1,2) False Cons.prems(2) by (intro exI [of _ 0] exI [of _ tr1] exI [of _ w1] exI [of _ vss1] exI [of _ vc1]) simp
  qed
qed

end
