(* ===== verification/TrackReads.thy ===== *)
theory TrackReads
  imports TrackCorrect
begin

text \<open>What a track gives back: values appended in the order of time through \<^verbatim>\<open>TimeTrack::append\<close>
  (\<^verbatim>\<open>timetrack.cpp\<close>), read through \<^verbatim>\<open>foreach\<close> and \<^verbatim>\<open>intervalReader\<close>, and the states in which the
  operations of a track do not do their work.\<close>

section \<open>Shared lemmas\<close>

lemma filter_query_interval:
  assumes "in_interval lo hi vs = in_interval lo hi us"
  shows "filter (\<lambda>v. inQueryInterval v ids f lo hi) vs = filter (\<lambda>v. inQueryInterval v ids f lo hi) us"
proof -
  have "filter (\<lambda>v. inQueryInterval v ids f lo hi) xs = filter (\<lambda>v. inQuery v ids f) (in_interval lo hi xs)" for xs
    by (auto simp: inQueryInterval_def intro!: filter_cong)
  then show ?thesis by (simp only: assms)
qed

lemma foreach_seen:
  assumes "tt_rep tr vss vc"
  shows "TimeTrack_foreach (\<lambda>_. False) clbk tr q s =
    Some (fold clbk (filter (\<lambda>v. inQueryInterval v (q_ids q) (q_flag q) (q_from q) (q_to q)) (seen (q_to q) vss vc)) s)"
proof -
  obtain rs vs where r: "TimeTrack_intervalReader tr q = Some rs"
    "if rs = [] then vs = [] else \<exists>c. rs = [(tt_meas_id tr, c)] \<and> cursor_rep c vs"
    and i: "in_interval (q_from q) (q_to q) vs = in_interval (q_from q) (q_to q) (seen (q_to q) vss vc)"
    using intervalReader_seen [OF assms] by blast
  note f = filter_query_interval [OF i, of "q_ids q" "q_flag q"]
  show ?thesis
  proof (cases "rs = []")
    case True
    then show ?thesis using r f by (simp add: TimeTrack_foreach_def)
  next
    case False
    then obtain c where c: "rs = [(tt_meas_id tr, c)]" "cursor_rep c vs" using r(2) by auto
    show ?thesis
      using r(1) c(1) f cursor_pending [OF c(2)]
        cursor.apply_loop_rep [OF c(2), of "Suc (pending c)" clbk
          "\<lambda>v. inQueryInterval v (q_ids q) (q_flag q) (q_from q) (q_to q)" s]
      by (fastforce simp: TimeTrack_foreach_def cursor_apply_query_def)
  qed
qed

lemma seen_all: "\<forall>vs \<in> set vss. vs \<noteq> [] \<Longrightarrow> \<forall>m \<in> set (concat vss). m_time m \<le> hi \<Longrightarrow> seen hi vss vc = concat vss @ vc"
  by (auto simp: seen_def intro!: arg_cong [where f = concat])

section \<open>Appending in the order of time\<close>


definition example_pool :: MemPool where
  "example_pool = \<lparr>mp_allocator = UnlimitMemoryAllocator_new 30, mp_chunks_count = 0, mp_junk = example_header, mp_stack = 0\<rparr>"

definition example_series :: "Meas list" where
  "example_series = map (\<lambda>t. \<lparr>m_id = 1, m_time = t, m_value = 0, m_flag = 0\<rparr>) [10, 20, 30, 40, 50, 60, 70, 80]"


end
