(* ===== verification/TrackPast.thy ===== *)
theory TrackPast
  imports TrackReads
begin

text \<open>Values that come late: \<^verbatim>\<open>TimeTrack::append_to_past\<close> (\<^verbatim>\<open>timetrack.cpp\<close>) reads the chunk the time of the
  value belongs to, puts the value among those of the chunk and writes a new chunk.\<close>

section \<open>The set the values are collected in\<close>

definition past_values :: "Meas \<Rightarrow> Meas list \<Rightarrow> Meas list" where
  "past_values m vs = filter (\<lambda>v. m_time v < m_time m) vs @ m # filter (\<lambda>v. m_time m < m_time v) vs"

lemma fold_MeasSet_insert:
  assumes "time_strict ws" "\<forall>e \<in> set acc. \<forall>v \<in> set ws. fst e < m_time v"
  shows "fold MeasSet_insert ws acc = acc @ map (\<lambda>v. (m_time v, v)) ws"
  using assms
proof (induction ws arbitrary: acc)
  case (Cons w ws)
  then have "MeasSet_insert w acc = acc @ [(m_time w, w)]"
    by (simp add: MeasSet_insert_def omap_insert_last)
  then show ?case using Cons by (auto simp: time_strict_def)
qed simp

lemma omap_insert_between:
  assumes "sorted (map fst xs)" "\<forall>e \<in> set xs. fst e \<noteq> k"
  shows "omap_insert k v xs = filter (\<lambda>e. fst e < k) xs @ (k, v) # filter (\<lambda>e. k < fst e) xs"
  using assms
proof (induction xs)
  case (Cons x xs)
  have "k < fst x \<Longrightarrow> filter (\<lambda>e. fst e < k) xs = [] \<and> filter (\<lambda>e. k < fst e) xs = xs"
    using Cons.prems by (auto simp: filter_empty_conv intro!: filter_True)
  then show ?case using Cons by (cases x) auto
qed simp

lemma time_strict_filter: "time_strict vs \<Longrightarrow> time_strict (filter P vs)"
  by (simp add: time_strict_def sorted_wrt_map sorted_wrt_filter)

lemma past_set:
  assumes "time_strict vs"
  shows "map snd (MeasSet_insert m (fold MeasSet_insert (filter (\<lambda>v. m_time v \<noteq> m_time m) vs) [])) = past_values m vs"
proof -
  define ws where "ws = filter (\<lambda>v. m_time v \<noteq> m_time m) vs"
  have ws: "time_strict ws" using assms by (simp add: ws_def time_strict_filter)
  then have s: "sorted (map fst (map (\<lambda>v. (m_time v, v)) ws))"
    using time_strict_sorted [OF ws] by (simp add: time_sorted_def comp_def)
  have "MeasSet_insert m (map (\<lambda>v. (m_time v, v)) ws) =
      filter (\<lambda>e. fst e < m_time m) (map (\<lambda>v. (m_time v, v)) ws) @
      (m_time m, m) # filter (\<lambda>e. m_time m < fst e) (map (\<lambda>v. (m_time v, v)) ws)"
    unfolding MeasSet_insert_def by (rule omap_insert_between [OF s]) (auto simp: ws_def)
  moreover have "filter (\<lambda>x. m_time x \<noteq> t \<and> m_time x < t) vs = filter (\<lambda>x. m_time x < t) vs"
    "filter (\<lambda>x. m_time x \<noteq> t \<and> t < m_time x) vs = filter (\<lambda>x. t < m_time x) vs" for t
    by (auto intro!: filter_cong)
  ultimately show ?thesis
    using fold_MeasSet_insert [OF ws, of "[]"] by (simp add: ws_def past_values_def filter_map comp_def)
qed

lemma past_values_strict:
  assumes "time_strict vs"
  shows "time_strict (past_values m vs)"
  using assms by (auto simp: past_values_def time_strict_def sorted_wrt_append sorted_wrt_map sorted_wrt_filter)

lemma set_past_values: "x \<in> set (past_values m vs) \<longleftrightarrow> x = m \<or> (x \<in> set vs \<and> m_time x \<noteq> m_time m)"
  by (auto simp: past_values_def)

lemma past_values_ne [simp]: "past_values m vs \<noteq> []"
  by (simp add: past_values_def)

section \<open>Writing the new chunk\<close>

lemma append_rest_list:
  "append_rest c vs = map_option (\<lambda>(ok, c'). if ok then Returned c' else Thrown ''logic error.'') (Chunk_append_list c vs)"
  by (induction vs arbitrary: c) (auto simp: map_option_bind intro!: bind_option_cong)

text \<open>The values that fit into a chunk of the given size, after the first.\<close>

definition past_fits :: "u32 \<Rightarrow> Meas list \<Rightarrow> bool" where
  "past_fits sz mar \<longleftrightarrow> fit_count (unat sz - 1) (CopmressedReader_new (hd mar)) (tl mar) = length (tl mar)"

lemma chunk_read_back:
  assumes "chunk_holds c vs" "time_strict vs" "below_max vs"
  shows "\<exists>r. Chunk_getReader c = Some r \<and> read_values r = Some vs"
  using chunk_reader_ordered [OF assms] read_values_rep by (auto simp: reader_wf_def reader_ok_def)

lemma rewrite_target_values:
  assumes c: "chunk_holds (mc_chunk c) vs" "time_strict vs" "below_max vs"
    and sz: "sz = ch_size (mc_header c) + sizeof_Meas * 2" "0 < sz"
    and valid: "valid_list meas_valid meas_step (CopmressedReader_new (hd (past_values m vs))) (tl (past_values m vs))"
  shows "\<exists>r w'. rewrite_target c m w = Some (r, w') \<and>
    (if past_fits sz (past_values m vs) then \<exists>mc. r = Returned mc \<and> chunk_writes (mc_chunk mc) (past_values m vs)
     else r = Thrown ''logic error.'')"
proof -
  define mar where "mar = past_values m vs"
  have mar: "mar \<noteq> []" by (simp add: mar_def)
  obtain r where r: "Chunk_getReader (mc_chunk c) = Some r" "read_values r = Some vs"
    using chunk_read_back [OF c] by blast
  obtain mc where mc: "MemChunk_new False 0 (mp_junk w) sz (hd mar) = Some mc" "chunk_writes (mc_chunk mc) [hd mar]"
    "bb_free_size (c_bw (mc_chunk mc)) = unat sz - 1"
    using MemChunk_new_writes [OF sz(2)] by blast
  obtain c' where "Chunk_append_list (mc_chunk mc) (tl mar) = Some (past_fits sz mar, c')"
    "past_fits sz mar \<longrightarrow> chunk_writes c' ([hd mar] @ tl mar)"
    using chunk_append_list_holds [OF mc(2), of "tl mar", OF _ refl] valid mc(3)
    by (fastforce simp: chunk_state_def past_fits_def mar_def split: if_splits)
  then show ?thesis
    using mar mc(1) unfolding rewrite_target_def r Let_def sz(1) [symmetric]
    by (simp add: r past_set [OF c(2)] append_rest_list mar_def)
qed

section \<open>A late value of the current chunk\<close>

lemma past_rep:
  assumes rep: "tt_rep tr vss vc" and t: "vss = [] \<or> m_time (hd vc) \<le> m_time m" and m: "vc \<noteq> []" "m_time m < MAX_TIME"
    and c: "chunk_writes (mc_chunk mc) (past_values m vc)" "tt_index tr' = tt_index tr" "tt_cur_chunk tr' = Some mc"
  shows "tt_rep tr' vss (past_values m vc)"
proof -
  have strict: "time_strict (concat vss)" "time_strict vc" "\<forall>x \<in> set (concat vss). \<forall>y \<in> set vc. m_time x < m_time y"
    "below_max (concat vss @ vc)"
    using rep by (auto simp: tt_rep_def time_strict_append)
  have "\<forall>x \<in> set (concat vss). \<forall>y \<in> set (past_values m vc). m_time x < m_time y"
  proof (intro ballI)
    fix x y assume x: "x \<in> set (concat vss)" and y: "y \<in> set (past_values m vc)"
    have "m_time x < m_time (hd vc)" "vss \<noteq> []" using strict(3) x m(1) by auto
    then have "m_time x < m_time m" using t by auto
    then show "m_time x < m_time y" using y strict(3) x by (auto simp: set_past_values)
  qed
  then have "time_strict (concat vss @ past_values m vc)"
    using strict(1) past_values_strict [OF strict(2), of m] by (simp add: time_strict_append)
  moreover have "below_max (concat vss @ past_values m vc)"
    using strict(4) m(2) by (auto simp: below_max_def set_past_values)
  ultimately show ?thesis using rep c by (simp add: tt_rep_def)
qed

lemma append_past_cur:
  assumes rep: "tt_rep tr vss vc" and cur: "tt_cur_chunk tr = Some c" and t: "vss = [] \<or> m_time (hd vc) \<le> m_time m"
    and m: "m_time m \<le> m_time (last vc)" "m_time m < MAX_TIME"
    and sz: "sz = ch_size (mc_header c) + sizeof_Meas * 2" "0 < sz"
    and valid: "valid_list meas_valid meas_step (CopmressedReader_new (hd (past_values m vc))) (tl (past_values m vc))"
  shows "\<exists>tr' w'. if past_fits sz (past_values m vc)
    then TimeTrack_append tr m w = Some (Returned (Status_writed 1), tr', w') \<and> tt_rep tr' vss (past_values m vc)
    else TimeTrack_append tr m w = Some (Thrown ''logic error.'', tr', w') \<and> tt_rep tr' vss []"
proof -
  have vc: "chunk_holds (mc_chunk c) vc" "\<not> Chunk_isFull (mc_chunk c)" "vc \<noteq> []" "time_strict vc" "below_max vc"
    using rep cur by (auto simp: tt_rep_def chunk_writes_def chunk_holds_def Chunk_isFull_def time_strict_append below_max_def)
  note b = chunk_bounds [OF vc(1) time_strict_sorted [OF vc(4)]]
  have in_cur: "tt_index tr = [] \<or> s_minTime (mc_stat c) \<le> m_time m" "\<not> s_maxTime (mc_stat c) < m_time m"
    using rep t b(1,2) m(1) by (auto simp: tt_rep_def)
  obtain r w' where r: "rewrite_target c m w = Some (r, w')"
    "if past_fits sz (past_values m vc) then \<exists>mc. r = Returned mc \<and> chunk_writes (mc_chunk mc) (past_values m vc)
     else r = Thrown ''logic error.''"
    using rewrite_target_values [OF vc(1,4,5) sz valid] by blast
  have past: "append_to_past tr m w = Some (case r of Thrown e \<Rightarrow> (Thrown e, tr\<lparr>tt_cur_chunk := None\<rparr>, w')
      | Returned nc \<Rightarrow> (Returned (), tr\<lparr>tt_cur_chunk := Some nc\<rparr>, w'))"
    using in_cur by (auto simp: append_to_past_def cur r(1) split: outcome.splits)
  note app = TimeTrack_append_def cur vc(2) in_cur(2) past
  show ?thesis
  proof (cases "past_fits sz (past_values m vc)")
    case True
    then obtain mc where mc: "r = Returned mc" "chunk_writes (mc_chunk mc) (past_values m vc)" using r(2) by auto
    have "tt_rep (tr\<lparr>tt_cur_chunk := Some mc\<rparr>) vss (past_values m vc)"
      using past_rep [OF rep t vc(3) m(2) mc(2)] by simp
    then show ?thesis using True mc(1) by (simp add: app)
  next
    case False
    have "tt_rep (tr\<lparr>tt_cur_chunk := None\<rparr>) vss []"
      using rep by (auto simp: tt_rep_def time_strict_append below_max_def)
    then show ?thesis using False r(2) by (simp add: app)
  qed
qed

section \<open>The chunk of the index a late value belongs to\<close>

lemma target_loop_two:
  "inInterval (s_minTime (mc_stat c)) (s_maxTime (mc_stat c)) t \<Longrightarrow> target_loop t [c, d] 0 = Some c"
  by (subst target_loop.simps) (simp add: Let_def)

lemma target_loop_empty: "target_loop t [] 0 = None"
  by (subst target_loop.simps) simp

lemma index_split:
  assumes "find (\<lambda>e. t \<le> fst e) (xs :: (Time \<times> MemChunk) list) = Some e"
  obtains as bs where "xs = as @ e # bs" "\<forall>x \<in> set as. fst x < t" "t \<le> fst e"
  using assms
proof (induction xs arbitrary: thesis)
  case (Cons x xs)
  show ?case
  proof (cases "t \<le> fst x")
    case True
    then show ?thesis using Cons.prems(1) [of "[]" xs] Cons.prems(2) by simp
  next
    case False
    then obtain as bs where "xs = as @ e # bs" "\<forall>x \<in> set as. fst x < t" "t \<le> fst e" using Cons.IH Cons.prems(2) by auto
    then show ?thesis using Cons.prems(1) [of "x # as" bs] False by auto
  qed
qed simp

lemma takeWhile_prefix: "\<forall>x \<in> set as. P x \<Longrightarrow> \<not> P e \<Longrightarrow> takeWhile P (as @ e # bs) = as"
  by (simp add: takeWhile_append2)

text \<open>The index of a track: keys that increase, each the last time of its chunk.\<close>

definition index_ok :: "(Time \<times> MemChunk) list \<Rightarrow> bool" where
  "index_ok xs \<longleftrightarrow> sorted_wrt (<) (map fst xs) \<and>
     (\<forall>e \<in> set xs. fst e = s_maxTime (mc_stat (snd e)) \<and> s_minTime (mc_stat (snd e)) \<le> s_maxTime (mc_stat (snd e)))"

lemma potential_targets_found:
  assumes ok: "index_ok xs" and e: "xs = as @ (k, c) # bs" "\<forall>x \<in> set as. fst x < t" "t \<le> k"
  shows "\<exists>ds. potential_targets xs t = c # ds \<and> (ds = [] \<or> (t = s_maxTime (mc_stat c) \<and> length ds = 1))"
proof (cases "length xs = 1")
  case True
  then show ?thesis using e(1) by (cases as) (auto simp: potential_targets_def)
next
  case False
  have b: "lower_bound xs t = length as"
    using e takeWhile_prefix [of as "\<lambda>x. fst x < t" "(k, c)" bs] by (simp add: lower_bound_def)
  have bs: "\<forall>x \<in> set bs. k < fst x" using ok unfolding index_ok_def e(1) by (auto simp only: sorted_wrt_append map_append list.map sorted_wrt.simps fst_conv set_map)
  have k: "k = s_maxTime (mc_stat c)" using ok unfolding index_ok_def e(1) by simp
  show ?thesis
  proof (cases "t = k")
    case True
    have "takeWhile (\<lambda>x. fst x \<le> t) ((as @ [(k, c)]) @ bs) = as @ [(k, c)]"
    proof (cases bs)
      case Nil
      then show ?thesis using e(2) True less_imp_le by (simp add: takeWhile_eq_all_conv) blast
    next
      case (Cons d ds)
      then show ?thesis
        using e(2) True bs less_imp_le unfolding Cons by (intro takeWhile_prefix) (auto simp: not_le)
    qed
    then have u: "upper_bound xs t = Suc (length as)" using e(1) by (simp add: upper_bound_def)
    show ?thesis
      using False b u e(1) True k by (cases bs) (auto simp: potential_targets_def omap_range_def)
  next
    case False': False
    then have "takeWhile (\<lambda>x. fst x \<le> t) (as @ (k, c) # bs) = as"
      using e(2,3) less_imp_le by (intro takeWhile_prefix) auto
    then have u: "upper_bound xs t = length as" by (simp add: upper_bound_def e(1))
    show ?thesis using False b u e(1) by (auto simp: potential_targets_def omap_range_def)
  qed
qed

lemma target_found:
  assumes "index_ok (tt_index tr)" "find (\<lambda>e. t \<le> fst e) (tt_index tr) = Some e"
  shows "get_target_to_replace_from_index tr t = Some (snd e)"
proof -
  obtain as bs where s: "tt_index tr = as @ e # bs" "\<forall>x \<in> set as. fst x < t" "t \<le> fst e"
    using index_split [OF assms(2)] by blast
  then obtain ds where ds: "potential_targets (tt_index tr) t = snd e # ds"
    "ds = [] \<or> (t = s_maxTime (mc_stat (snd e)) \<and> length ds = 1)"
    using potential_targets_found [OF assms(1), of as "fst e" "snd e" bs t] by auto
  have i: "s_minTime (mc_stat (snd e)) \<le> s_maxTime (mc_stat (snd e))" using assms(1) s(1) by (auto simp: index_ok_def)
  show ?thesis
  proof (cases ds)
    case Nil
    then show ?thesis using ds by (simp add: get_target_to_replace_from_index_def)
  next
    case (Cons d ds')
    then have "ds = [d]" "t = s_maxTime (mc_stat (snd e))" using ds(2) by auto
    then show ?thesis
      using ds(1) i target_loop_two [of "snd e" t d] by (simp add: get_target_to_replace_from_index_def inInterval_def)
  qed
qed

lemma target_missing:
  assumes "find (\<lambda>e. t \<le> fst e) (tt_index tr) = None" "length (tt_index tr) \<noteq> 1"
  shows "get_target_to_replace_from_index tr t = None"
proof -
  have less: "\<forall>e \<in> set (tt_index tr). fst e < t" using assms(1) by (auto simp: find_None_iff not_le)
  have "takeWhile (\<lambda>e. fst e < t) (tt_index tr) = tt_index tr" using less unfolding takeWhile_eq_all_conv by blast
  moreover have "takeWhile (\<lambda>e. fst e \<le> t) (tt_index tr) = tt_index tr"
    using less unfolding takeWhile_eq_all_conv by (blast intro: less_imp_le)
  ultimately have "lower_bound (tt_index tr) t = length (tt_index tr)" "upper_bound (tt_index tr) t = length (tt_index tr)"
    unfolding lower_bound_def upper_bound_def by (simp_all only:)
  then have "potential_targets (tt_index tr) t = []"
    using assms(2) by (simp add: potential_targets_def omap_range_def)
  then show ?thesis by (simp add: get_target_to_replace_from_index_def target_loop_empty)
qed

section \<open>A late value of a chunk of the index\<close>

lemma list_all2_split:
  assumes "list_all2 P xs (as @ v # bs)"
  obtains ia e ib where "xs = ia @ e # ib" "list_all2 P ia as" "P e v" "list_all2 P ib bs"
  using assms by (auto simp: list_all2_append2 list_all2_Cons2)

lemma list_all2_in_set1: "list_all2 P xs ys \<Longrightarrow> x \<in> set xs \<Longrightarrow> \<exists>y \<in> set ys. P x y"
  by (induction rule: list_all2_induct) auto

lemma last_past_values: "time_strict vs \<Longrightarrow> vs \<noteq> [] \<Longrightarrow> m_time (last (past_values m vs)) = max (m_time m) (m_time (last vs))"
proof -
  assume vs: "time_strict vs" "vs \<noteq> []"
  have s: "time_sorted (past_values m vs)" by (rule time_strict_sorted [OF past_values_strict [OF vs(1)]])
  have "m_time x \<le> max (m_time m) (m_time (last vs))" if "x \<in> set (past_values m vs)" for x
    using that sorted_hd_last [OF time_strict_sorted [OF vs(1)], of x] by (auto simp: set_past_values le_max_iff_disj)
  then have le: "m_time (last (past_values m vs)) \<le> max (m_time m) (m_time (last vs))" by simp
  have "\<exists>x \<in> set (past_values m vs). m_time x = max (m_time m) (m_time (last vs))"
  proof (cases "m_time m < m_time (last vs)")
    case True
    then have "last vs \<in> set (past_values m vs)" using last_in_set [OF vs(2)] by (auto simp: set_past_values)
    then show ?thesis using True by (intro bexI [of _ "last vs"]) (auto simp: max_def)
  next
    case False
    then show ?thesis by (intro bexI [of _ m]) (simp_all add: max_def set_past_values)
  qed
  then obtain x where "x \<in> set (past_values m vs)" "m_time x = max (m_time m) (m_time (last vs))" by blast
  then have "max (m_time m) (m_time (last vs)) \<le> m_time (last (past_values m vs))" using sorted_hd_last [OF s, of x] by metis
  then show ?thesis by (rule order_antisym [OF le])
qed

lemma erase_mid:
  assumes "sorted_wrt (<) (map fst (ia @ (k :: Time, c) # ib))"
  shows "omap_erase k (ia @ (k, c) # ib) = ia @ ib"
proof -
  have "\<forall>e \<in> set ia. fst e < k" "\<forall>e \<in> set ib. k < fst e" using assms by (simp_all add: sorted_wrt_append)
  then have "\<forall>e \<in> set ia. fst e \<noteq> k" "\<forall>e \<in> set ib. fst e \<noteq> k" by (metis less_irrefl, metis less_irrefl)
  then show ?thesis by (simp add: omap_erase_def)
qed

lemma insert_mid:
  assumes "\<forall>e \<in> set ia. fst e < k" "\<forall>e \<in> set ib. k < fst e" "sorted (map fst ia)" "sorted (map fst ib)"
  shows "omap_insert k v (ia @ ib) = ia @ (k, v) # ib"
proof -
  have "fst x \<le> fst y" if "x \<in> set ia" "y \<in> set ib" for x y
    using assms(1,2) that by (meson less_imp_le order_less_trans)
  then have "sorted (map fst (ia @ ib))" using assms(3,4) by (simp add: sorted_append)
  then have "omap_insert k v (ia @ ib) = filter (\<lambda>e. fst e < k) (ia @ ib) @ (k, v) # filter (\<lambda>e. k < fst e) (ia @ ib)"
    by (rule omap_insert_between) (use assms in auto)
  moreover have "filter (\<lambda>e. fst e < k) (ia @ ib) = ia" "filter (\<lambda>e. k < fst e) (ia @ ib) = ib"
    using assms(1,2) by (simp_all add: filter_empty_conv not_less less_imp_le)
  ultimately show ?thesis by simp
qed

lemma past_values_around:
  assumes "\<forall>x \<in> set as. m_time x < m_time m" "\<forall>x \<in> set bs. m_time m < m_time x"
  shows "past_values m (as @ vs @ bs) = as @ past_values m vs @ bs"
proof -
  have "filter (\<lambda>v. m_time v < m_time m) as = as" "filter (\<lambda>v. m_time m < m_time v) as = []"
    "filter (\<lambda>v. m_time v < m_time m) bs = []" "filter (\<lambda>v. m_time m < m_time v) bs = bs"
    using assms by (simp_all add: filter_empty_conv not_less less_imp_le)
  then show ?thesis by (simp add: past_values_def)
qed

lemma tt_rep_index_ok:
  assumes "tt_rep tr vss vc"
  shows "index_ok (tt_index tr)"
proof -
  have "sorted_wrt (<) (map (\<lambda>vs. m_time (last vs)) vss)"
    using assms concat_strict_nth [of vss] tt_rep_parts(1) [OF assms]
    by (auto simp: sorted_wrt_iff_nth_less tt_rep_def time_strict_append)
  then have k: "sorted_wrt (<) (map fst (tt_index tr))" using tt_rep_keys(1) [OF assms] by simp
  have "fst e = s_maxTime (mc_stat (snd e)) \<and> s_minTime (mc_stat (snd e)) \<le> s_maxTime (mc_stat (snd e))"
    if "e \<in> set (tt_index tr)" for e
  proof -
    obtain vs where vs: "vs \<in> set vss" "chunk_holds (mc_chunk (snd e)) vs" "fst e = m_time (last vs)"
      using list_all2_in_set1 [of _ "tt_index tr" vss e] \<open>e \<in> set (tt_index tr)\<close> assms unfolding tt_rep_def by blast
    note st = time_strict_sorted [OF tt_rep_parts(2) [OF assms vs(1)]]
    show ?thesis
      using chunk_bounds [OF vs(2) st] vs(3) sorted_hd_last [OF st] hd_in_set [OF tt_rep_parts(1) [OF assms vs(1)]] by simp
  qed
  then show ?thesis using k by (simp add: index_ok_def)
qed

abbreviation index_rep :: "(Time \<times> MemChunk) list \<Rightarrow> Meas list list \<Rightarrow> bool" where
  "index_rep \<equiv> list_all2 (\<lambda>e vs. chunk_holds (mc_chunk (snd e)) vs \<and> fst e = m_time (last vs))"

lemma tt_rep_erase:
  assumes rep: "tt_rep tr (as @ vs # bs) vc" and c: "c = snd (tt_index tr ! length as)"
  shows "\<exists>ia ib. omap_erase (s_maxTime (mc_stat c)) (tt_index tr) = ia @ ib \<and> index_rep ia as \<and> index_rep ib bs \<and>
      sorted (map fst ia) \<and> sorted (map fst ib)"
    "tt_rep (tr\<lparr>tt_index := omap_erase (s_maxTime (mc_stat c)) (tt_index tr)\<rparr>) (as @ bs) vc"
proof -
  obtain ia e ib where ix: "tt_index tr = ia @ e # ib" "index_rep ia as"
    "chunk_holds (mc_chunk (snd e)) vs \<and> fst e = m_time (last vs)" "index_rep ib bs"
    by (rule list_all2_split [of "\<lambda>e vs. chunk_holds (mc_chunk (snd e)) vs \<and> fst e = m_time (last vs)" "tt_index tr" as vs bs])
      (use rep in \<open>simp add: tt_rep_def\<close>)
  have len: "length ia = length as" using ix(2) by (rule list_all2_lengthD)
  have ok: "index_ok (tt_index tr)" by (rule tt_rep_index_ok [OF rep])
  have k: "s_maxTime (mc_stat c) = fst e" using ok c by (simp add: index_ok_def ix(1) nth_append len [symmetric])
  have er: "omap_erase (s_maxTime (mc_stat c)) (tt_index tr) = ia @ ib"
    using erase_mid [of ia "fst e" "snd e" ib] ok unfolding index_ok_def ix(1) k prod.collapse by blast
  have "sorted (map fst ia)" "sorted (map fst ib)"
    using ok by (simp_all add: index_ok_def ix(1) sorted_wrt_append strict_sorted_imp_sorted)
  then show "\<exists>ia ib. omap_erase (s_maxTime (mc_stat c)) (tt_index tr) = ia @ ib \<and> index_rep ia as \<and> index_rep ib bs \<and>
      sorted (map fst ia) \<and> sorted (map fst ib)"
    using er ix(2,4) by blast
  show "tt_rep (tr\<lparr>tt_index := omap_erase (s_maxTime (mc_stat c)) (tt_index tr)\<rparr>) (as @ bs) vc"
    using rep ix(2,4) er by (auto simp: tt_rep_def time_strict_append below_max_def intro: list_all2_appendI)
qed

lemma tt_rep_replace:
  assumes rep: "tt_rep tr (as @ vs # bs) vc" and c: "c = snd (tt_index tr ! length as)"
    and m: "\<forall>x \<in> set (concat as). m_time x < m_time m" "\<forall>x \<in> set (concat bs @ vc). m_time m < m_time x" "m_time m < MAX_TIME"
    and nc: "chunk_holds (mc_chunk nc) (past_values m vs)"
  shows "tt_rep (tr\<lparr>tt_index := omap_insert (s_maxTime (mc_stat nc)) nc (omap_erase (s_maxTime (mc_stat c)) (tt_index tr))\<rparr>)
    (as @ past_values m vs # bs) vc"
proof -
  obtain ia ib where ix: "omap_erase (s_maxTime (mc_stat c)) (tt_index tr) = ia @ ib" "index_rep ia as" "index_rep ib bs"
    "sorted (map fst ia)" "sorted (map fst ib)"
    using tt_rep_erase(1) [OF rep c] by blast
  have vs: "time_strict vs" "vs \<noteq> []" using tt_rep_parts [OF rep, of vs] by simp_all
  have all: "time_strict (concat as @ vs @ concat bs @ vc)" "below_max (concat as @ vs @ concat bs @ vc)"
    using rep by (simp_all add: tt_rep_def)
  have k: "s_maxTime (mc_stat nc) = m_time (last (past_values m vs))"
    by (rule chunk_bounds(2) [OF nc time_strict_sorted [OF past_values_strict [OF vs(1)]]])
  have ends: "\<forall>x \<in> set (concat as). m_time x < s_maxTime (mc_stat nc)" "\<forall>x \<in> set (concat bs). s_maxTime (mc_stat nc) < m_time x"
    using m all(1) vs last_past_values [OF vs, of m] k by (auto simp: time_strict_append less_max_iff_disj)
  have ia: "\<forall>x \<in> set ia. fst x < s_maxTime (mc_stat nc)" "\<forall>x \<in> set ib. s_maxTime (mc_stat nc) < fst x"
    using ends list_all2_in_set1 [OF ix(2)] list_all2_in_set1 [OF ix(3)] chunk_holds_ne last_in_set by (fastforce, fastforce)
  have "omap_insert (s_maxTime (mc_stat nc)) nc (ia @ ib) = ia @ (s_maxTime (mc_stat nc), nc) # ib"
    by (rule insert_mid [OF ia ix(4,5)])
  moreover have "time_strict (concat (as @ past_values m vs # bs) @ vc)"
    using past_values_around [of "concat as" m "concat bs @ vc" vs] m(1,2) past_values_strict [OF all(1), of m] by simp
  moreover have "below_max (concat (as @ past_values m vs # bs) @ vc)"
    using all(2) m(3) by (auto simp: below_max_def set_past_values)
  ultimately show ?thesis
    using rep ix(1-3) nc k by (auto simp: tt_rep_def intro!: list_all2_appendI)
qed

text \<open>The chunk \<^verbatim>\<open>append_to_past\<close> rewrites.\<close>

definition late_target :: "TimeTrack \<Rightarrow> Meas \<Rightarrow> MemChunk option" where
  "late_target tr m = do {
     cur \<leftarrow> tt_cur_chunk tr;
     if tt_index tr = [] \<or> s_minTime (mc_stat cur) \<le> m_time m then Some cur
     else get_target_to_replace_from_index tr (m_time m) }"

lemma late_target_index:
  assumes rep: "tt_rep tr vss vc" and cur: "tt_cur_chunk tr = Some cur" "tt_index tr \<noteq> []" "\<not> s_minTime (mc_stat cur) \<le> m_time m"
    and c: "late_target tr m = Some c"
  obtains as vs bs where "vss = as @ vs # bs" "c = snd (tt_index tr ! length as)" "chunk_holds (mc_chunk c) vs"
    "\<forall>x \<in> set (concat as). m_time x < m_time m" "\<forall>x \<in> set (concat bs @ vc). m_time m < m_time x"
proof -
  let ?P = "\<lambda>e vs. chunk_holds (mc_chunk (snd e)) vs \<and> fst e = m_time (last vs)"
  have ix: "list_all2 ?P (tt_index tr) vss" and st: "time_strict (concat vss @ vc)" and wr: "chunk_writes (mc_chunk cur) vc"
    using rep cur(1) by (simp_all add: tt_rep_def)
  have vc: "\<forall>x \<in> set vc. m_time m < m_time x"
    using chunk_bounds(1) [of "mc_chunk cur" vc] wr st cur(3) sorted_hd_last [of vc]
    by (fastforce simp: chunk_writes_def time_strict_append time_strict_sorted)
  have tgt: "get_target_to_replace_from_index tr (m_time m) = Some c" using c cur by (simp add: late_target_def)
  show thesis
  proof (cases "find (\<lambda>e. m_time m \<le> fst e) (tt_index tr)")
    case None
    then have "length (tt_index tr) = 1" using target_missing [OF None] tgt by auto
    then obtain e where e: "tt_index tr = [e]" by (auto simp: length_Suc_conv)
    then obtain vs where vs: "vss = [vs]" "chunk_holds (mc_chunk (snd e)) vs" using ix by (auto simp: list_all2_Cons1)
    have "c = snd e" using tgt e by (simp add: get_target_to_replace_from_index_def potential_targets_def)
    then show thesis using that [of "[]" vs "[]"] e vs vc by simp
  next
    case (Some e)
    have ce: "c = snd e" using target_found [OF tt_rep_index_ok [OF rep] Some] tgt by simp
    obtain ia ib where e: "tt_index tr = ia @ e # ib" "\<forall>x \<in> set ia. fst x < m_time m" "m_time m \<le> fst e"
      using index_split [OF Some] by blast
    obtain as vs bs where v: "vss = as @ vs # bs" "list_all2 ?P ia as" "?P e vs" "list_all2 ?P ib bs"
      using ix unfolding e(1) by (auto simp: list_all2_append1 list_all2_Cons1)
    have as: "m_time x < m_time m" if x: "x \<in> set (concat as)" for x
    proof -
      obtain ws where "ws \<in> set as" "x \<in> set ws" using x by auto
      then obtain j where j: "j < length as" "x \<in> set (as ! j)" by (metis in_set_conv_nth)
      then have "fst (ia ! j) < m_time m" using e(2) nth_mem [of j ia] list_all2_lengthD [OF v(2)] by simp
      moreover have "fst (ia ! j) = m_time (last (as ! j))" using v(2) j(1) by (simp add: list_all2_conv_all_nth)
      moreover have "time_strict (as ! j)" using tt_rep_parts(2) [OF rep, of "as ! j"] v(1) j(1) by simp
      ultimately show ?thesis using sorted_hd_last [OF time_strict_sorted j(2)] by fastforce
    qed
    have "\<forall>x \<in> set (concat bs @ vc). m_time (last vs) < m_time x"
      using st v(1) last_in_set [OF chunk_holds_ne [of "mc_chunk (snd e)" vs]] v(3) by (auto simp: time_strict_append)
    then have "\<forall>x \<in> set (concat bs @ vc). m_time m < m_time x" using e(3) v(3) by (metis order_le_less_trans)
    moreover have "c = snd (tt_index tr ! length as)" using ce e(1) list_all2_lengthD [OF v(2)] by (metis nth_append_length)
    moreover have "chunk_holds (mc_chunk c) vs" using ce v(3) by simp
    ultimately show thesis using that [OF v(1)] as by simp
  qed
qed

lemma chunk_holds_unique:
  assumes "chunk_holds c vs" "chunk_holds c us" "time_strict vs" "below_max vs" "time_strict us" "below_max us"
  shows "us = vs"
  using chunk_read_back [OF assms(1,3,4)] chunk_read_back [OF assms(2,5,6)] by auto

lemma filter_not_vs:
  assumes "time_strict (as @ vs @ bs)"
  shows "filter (\<lambda>v. v \<notin> set vs) (as @ vs @ bs) = as @ bs"
proof -
  have "\<forall>x \<in> set as. x \<notin> set vs" "\<forall>x \<in> set bs. x \<notin> set vs" using assms by (fastforce simp: time_strict_append)+
  then show ?thesis by (simp add: filter_empty_conv)
qed

text \<open>The result of a late append to a track with the values \<open>all\<close>, of which the target holds \<open>vs\<close>.\<close>

definition late_result :: "bool \<Rightarrow> Meas \<Rightarrow> Meas list \<Rightarrow> Meas list \<Rightarrow> (Status outcome \<times> TimeTrack \<times> MemPool) option \<Rightarrow> bool" where
  "late_result fits m vs all r \<longleftrightarrow> (\<exists>tr' w' vss' vc'. tt_rep tr' vss' vc' \<and> (if fits
    then r = Some (Returned (Status_writed 1), tr', w') \<and> concat vss' @ vc' = past_values m all
    else r = Some (Thrown ''logic error.'', tr', w') \<and> concat vss' @ vc' = filter (\<lambda>v. v \<notin> set vs) all))"

lemma append_late_index:
  assumes rep: "tt_rep tr vss vc" and cur: "tt_cur_chunk tr = Some cur" "tt_index tr \<noteq> []" "\<not> s_minTime (mc_stat cur) \<le> m_time m"
    and tgt: "late_target tr m = Some c" "chunk_holds (mc_chunk c) vs" "vs \<in> set (vss @ [vc])"
    and m: "m_time m < MAX_TIME" and sz: "sz = ch_size (mc_header c) + sizeof_Meas * 2" "0 < sz"
    and valid: "valid_list meas_valid meas_step (CopmressedReader_new (hd (past_values m vs))) (tl (past_values m vs))"
  shows "late_result (past_fits sz (past_values m vs)) m vs (concat vss @ vc) (TimeTrack_append tr m w)"
proof -
  obtain as us bs where v: "vss = as @ us # bs" "c = snd (tt_index tr ! length as)" "chunk_holds (mc_chunk c) us"
    "\<forall>x \<in> set (concat as). m_time x < m_time m" "\<forall>x \<in> set (concat bs @ vc). m_time m < m_time x"
    using late_target_index [OF rep cur tgt(1)] by blast
  have all: "time_strict (concat vss @ vc)" "below_max (concat vss @ vc)" "chunk_writes (mc_chunk cur) vc"
    using rep cur(1) by (simp_all add: tt_rep_def)
  have vs: "time_strict vs" "below_max vs"
    using tgt(3) tt_rep_parts [OF rep] all(1,2) by (auto simp: time_strict_append below_max_def)
  have us: "us = vs"
    using chunk_holds_unique [OF tgt(2) v(3) vs] tt_rep_parts [OF rep, of us] v(1) by simp
  have late: "\<not> s_maxTime (mc_stat cur) < m_time m" "\<not> Chunk_isFull (mc_chunk cur)"
    using all(1,3) v(5) chunk_bounds(2,3) [of "mc_chunk cur" vc] last_in_set [of vc]
    by (auto simp: chunk_writes_def Chunk_isFull_def time_strict_append time_strict_sorted dest: order_less_asym)
  obtain r w' where r: "rewrite_target c m w = Some (r, w')"
    "if past_fits sz (past_values m vs) then \<exists>mc. r = Returned mc \<and> chunk_writes (mc_chunk mc) (past_values m vs)
     else r = Thrown ''logic error.''"
    using rewrite_target_values [OF tgt(2) vs sz valid] by blast
  have get: "get_target_to_replace_from_index tr (m_time m) = Some c" using tgt(1) cur by (simp add: late_target_def)
  define tr1 where "tr1 = tr\<lparr>tt_index := omap_erase (s_maxTime (mc_stat c)) (tt_index tr)\<rparr>"
  have past: "append_to_past tr m w = Some (case r of Thrown e \<Rightarrow> (Thrown e, tr1, w')
      | Returned nc \<Rightarrow> (Returned (), tr1\<lparr>tt_index := omap_insert (s_maxTime (mc_stat nc)) nc (tt_index tr1)\<rparr>, w'))"
    using cur by (auto simp: append_to_past_def get r(1) tr1_def split: outcome.splits)
  note app = TimeTrack_append_def cur(1) late past
  have rep': "tt_rep tr (as @ vs # bs) vc" using rep by (simp add: v(1) us)
  show ?thesis
  proof (cases "past_fits sz (past_values m vs)")
    case True
    then obtain nc where nc: "r = Returned nc" "chunk_holds (mc_chunk nc) (past_values m vs)" using r(2) by (auto simp: chunk_writes_def)
    have "concat (as @ past_values m vs # bs) @ vc = past_values m (concat vss @ vc)"
      using past_values_around [OF v(4,5), of vs] by (simp add: v(1) us)
    moreover have "TimeTrack_append tr m w = Some (Returned (Status_writed 1),
        updateMinMax (tr1\<lparr>tt_index := omap_insert (s_maxTime (mc_stat nc)) nc (tt_index tr1)\<rparr>) m, w')"
      by (simp add: app nc(1))
    moreover have "tt_rep (updateMinMax (tr1\<lparr>tt_index := omap_insert (s_maxTime (mc_stat nc)) nc (tt_index tr1)\<rparr>) m)
        (as @ past_values m vs # bs) vc"
      using tt_rep_replace [OF rep' v(2,4,5) m nc(2)] by (simp add: tr1_def)
    ultimately show ?thesis using True unfolding late_result_def by metis
  next
    case False
    have "TimeTrack_append tr m w = Some (Thrown ''logic error.'', tr1, w')" using False r(2) by (simp add: app)
    moreover have "concat (as @ bs) @ vc = filter (\<lambda>v. v \<notin> set vs) (concat vss @ vc)"
      using filter_not_vs [of "concat as" vs "concat bs @ vc"] all(1) by (simp add: v(1) us)
    ultimately show ?thesis
      using False tt_rep_erase(2) [OF rep' v(2)] unfolding late_result_def tr1_def by metis
  qed
qed

section \<open>Example tracks\<close>

definition example_track :: "u32 \<Rightarrow> TimeTrack" where
  "example_track sz = (case TimeTrack_append_list (TimeTrack_new 0 1) example_series
       (example_pool\<lparr>mp_allocator := UnlimitMemoryAllocator_new sz\<rparr>) of
     Some (_, tr, _) \<Rightarrow> tr | None \<Rightarrow> TimeTrack_new 0 1)"

lemma example_series_ok: "time_strict example_series" "below_max example_series" "codec_ok example_series"
  by code_simp+

lemma example_track_rep:
  assumes "0 < sz"
  shows "\<exists>vss vc. tt_rep (example_track sz) vss vc \<and> concat vss @ vc = example_series"
proof -
  let ?w = "example_pool\<lparr>mp_allocator := UnlimitMemoryAllocator_new sz\<rparr>"
  have "pool_unlimited ?w" "0 < al_chunkSize (mp_allocator ?w)"
    using assms by (simp_all add: pool_unlimited_def UnlimitMemoryAllocator_new_def)
  then show ?thesis
    using append_list_rep [OF tt_rep_new [of 0 1], of "[]" example_series ?w] example_series_ok
    unfolding example_track_def by fastforce
qed

definition late_meas :: Meas where
  "late_meas = \<lparr>m_id = 1, m_time = 45, m_value = 7, m_flag = 0\<rparr>"

lemma example_track_single: "tt_rep (example_track 30) [] example_series"
proof -
  have "tt_index (example_track 30) = []" by code_simp
  then show ?thesis using example_track_rep [of 30] by (auto simp: tt_rep_def)
qed

section \<open>Late values\<close>

text \<open>C21: a value that is not later than the last one of the track goes into the chunk its time belongs
  to.  If the values of that chunk and the new one fit into a chunk two values larger, the value is
  reported as written and the track holds the old values with the new one at its place, a value of
  the same time replaced; all other chunks are as before.  If they do not fit, the call throws and
  the values of that chunk are gone.\<close>

theorem track_append_late:
  assumes "tt_rep tr vss vc" "late_target tr m = Some c" "chunk_holds (mc_chunk c) vs" "vs \<in> set (vss @ [vc])"
    "vc \<noteq> []" "m_time m \<le> m_time (last vc)" "m_time m < MAX_TIME"
    "sz = ch_size (mc_header c) + sizeof_Meas * 2" "0 < sz"
    "valid_list meas_valid meas_step (CopmressedReader_new (hd (past_values m vs))) (tl (past_values m vs))"
  shows "late_result (past_fits sz (past_values m vs)) m vs (concat vss @ vc) (TimeTrack_append tr m w)"
proof -
  obtain cur where cur: "tt_cur_chunk tr = Some cur" "chunk_writes (mc_chunk cur) vc"
    using assms(1,5) by (auto simp: tt_rep_def split: option.splits)
  have all: "time_strict (concat vss @ vc)" "below_max (concat vss @ vc)" using assms(1) by (simp_all add: tt_rep_def)
  show ?thesis
  proof (cases "tt_index tr = [] \<or> s_minTime (mc_stat cur) \<le> m_time m")
    case False
    then show ?thesis using append_late_index [OF assms(1) cur(1) _ _ assms(2-4,7-10)] by blast
  next
    case True
    have c: "c = cur" using assms(2) cur(1) True by (simp add: late_target_def)
    have "time_strict vs" "below_max vs"
      using assms(4) tt_rep_parts [OF assms(1)] all by (auto simp: time_strict_append below_max_def)
    then have vs: "vs = vc"
      using chunk_holds_unique [of "mc_chunk cur" vc vs] cur(2) assms(3) all c
      by (auto simp: chunk_writes_def time_strict_append below_max_def)
    have t: "vss = [] \<or> m_time (hd vc) \<le> m_time m"
      using True assms(1) chunk_bounds(1) [of "mc_chunk cur" vc] cur(2) all(1)
      by (auto simp: tt_rep_def chunk_writes_def time_strict_append time_strict_sorted)
    have before: "\<forall>x \<in> set (concat vss). m_time x < m_time m"
      using t all(1) hd_in_set [OF assms(5)] by (fastforce simp: time_strict_append)
    have "concat vss @ past_values m vc = past_values m (concat vss @ vc)"
      using past_values_around [OF before, of "[]" vc] by simp
    moreover have "concat vss @ [] = filter (\<lambda>v. v \<notin> set vc) (concat vss @ vc)"
      using filter_not_vs [of "concat vss" vc "[]"] all(1) by simp
    ultimately show ?thesis
      using append_past_cur [OF assms(1) cur(1) t assms(6,7) assms(8) [unfolded c] assms(9) assms(10) [unfolded vs], of w]
      unfolding late_result_def vs by metis
  qed
qed

theorem track_append_late_witness:
  "\<exists>c. late_target (example_track 30) late_meas = Some c \<and>
    late_result True late_meas example_series example_series (TimeTrack_append (example_track 30) late_meas example_pool)"
proof -
  have ne: "tt_index (example_track 30) = []" by code_simp
  obtain c where c: "tt_cur_chunk (example_track 30) = Some c" "chunk_holds (mc_chunk c) example_series"
    using example_track_single by (auto simp: tt_rep_def chunk_writes_def example_series_def split: option.splits)
  have t: "late_target (example_track 30) late_meas = Some c" using c(1) ne by (simp add: late_target_def)
  have "map_option (\<lambda>c. ch_size (mc_header c)) (tt_cur_chunk (example_track 30)) = Some 30" by code_simp
  then have sz: "78 = ch_size (mc_header c) + sizeof_Meas * 2" using c(1) by (simp add: sizeof_Meas_def)
  have h: "example_series \<noteq> []" "m_time late_meas \<le> m_time (last example_series)" "m_time late_meas < MAX_TIME"
    "past_fits 78 (past_values late_meas example_series)"
    by code_simp+
  have v: "valid_list meas_valid meas_step (CopmressedReader_new (hd (past_values late_meas example_series)))
      (tl (past_values late_meas example_series))"
    by code_simp
  show ?thesis
    using track_append_late [OF example_track_single t c(2) _ h(1-3) sz _ v, of example_pool] t h(4) by simp
qed

text \<open>C22: the search for the chunk of the index a late value belongs to gives the first chunk that does not
  end before the time; if all end before it, it gives the chunk of an index with one chunk, and reads
  past the end of an empty list otherwise.\<close>

theorem track_target:
  assumes "index_ok (tt_index tr)"
  shows "get_target_to_replace_from_index tr t =
    (case find (\<lambda>e. t \<le> fst e) (tt_index tr) of Some e \<Rightarrow> Some (snd e)
     | None \<Rightarrow> if length (tt_index tr) = 1 then Some (snd (hd (tt_index tr))) else None)"
proof (cases "find (\<lambda>e. t \<le> fst e) (tt_index tr)")
  case None
  then show ?thesis
    using target_missing [of t tr] by (auto simp: get_target_to_replace_from_index_def potential_targets_def)
next
  case (Some e)
  then show ?thesis using target_found [OF assms] by simp
qed

theorem track_target_witness:
  "get_target_to_replace_from_index (example_track 8) 65 = None \<and>
   get_target_to_replace_from_index (example_track 8) 45 \<noteq> None"
proof -
  obtain vss vc where "tt_rep (example_track 8) vss vc" using example_track_rep [of 8] by auto
  then have ok: "index_ok (tt_index (example_track 8))" by (rule tt_rep_index_ok)
  have "map fst (tt_index (example_track 8)) = [30, 60]" by code_simp
  then obtain a b where "tt_index (example_track 8) = [(30, a), (60, b)]" by (auto simp: map_eq_Cons_conv)
  then show ?thesis using track_target [OF ok, of 65] track_target [OF ok, of 45] by simp
qed


text \<open>C39: a late append can lose what the track holds.  Ten values a tick apart fill one chunk of 30
  bytes; a value of time 0 makes the differences of the times too large for the new chunk, the call
  throws, and a query over all times finds none of the ten values.\<close>

definition dense_series :: "Meas list" where
  "dense_series = map (\<lambda>t. \<lparr>m_id = 1, m_time = 10000000 + of_nat t, m_value = 0, m_flag = 0\<rparr>) [0..<10]"

definition all_times :: QueryInterval where
  "all_times = \<lparr>q_ids = [1], q_flag = 0, q_from = 0, q_to = 20000000, q_step = 0\<rparr>"

definition collect_times :: "TimeTrack \<Rightarrow> Time list option" where
  "collect_times tr = TimeTrack_foreach (\<lambda>_. False) (\<lambda>m ts. ts @ [m_time m]) tr all_times []"



end
