(* ===== verification/Ratio.thy ===== *)
theory Ratio
  imports Double
begin

text \<open>
  Nonnegative \<^verbatim>\<open>float\<close> and \<^verbatim>\<open>double\<close> arithmetic as the memory storage uses it to turn percentages into
  counts.  A nonnegative finite number is \<open>m * 2 ^ e\<close>; every operation computes exactly and rounds once to the
  precision of its type, 24 or 53 bits, to nearest, ties to even.  Counts stay far below the largest
  exponent, and a result below the least normal number is truncated to 0 by its user, so the
  exponent is not bounded.  This is the semantics of the language, not code of the repository.
\<close>

type_synonym dyadic = "int \<times> int"

definition dy_round :: "nat \<Rightarrow> dyadic \<Rightarrow> dyadic" where
  "dy_round p x = (let k = bitlen (fst x) - p; q = fst x div 2 ^ k; r = fst x mod 2 ^ k in
     (if 2 ^ k < 2 * r \<or> 2 * r = 2 ^ k \<and> odd q then q + 1 else q, snd x + int k))"

text \<open>The conversion of an integer, and the number a bit pattern of a \<^verbatim>\<open>float\<close> stands for.\<close>

definition dy_of_int :: "nat \<Rightarrow> int \<Rightarrow> dyadic" where
  "dy_of_int p n = dy_round p (n, 0)"

definition f32_bits :: "u32 \<Rightarrow> dyadic" where
  "f32_bits x = (let m = uint (take_bit 31 x); e = m div 2 ^ 23; f = m mod 2 ^ 23 in
     if e = 0 then (f, - 149) else (2 ^ 23 + f, e - 150))"

definition dy_mul :: "nat \<Rightarrow> dyadic \<Rightarrow> dyadic \<Rightarrow> dyadic" where
  "dy_mul p x y = dy_round p (fst x * fst y, snd x + snd y)"

text \<open>The quotient with enough bits and a last bit that tells whether the rest is 0, rounded.\<close>

definition dy_div :: "nat \<Rightarrow> dyadic \<Rightarrow> dyadic \<Rightarrow> dyadic" where
  "dy_div p x y = (let s = p + 2 + bitlen (fst y); n = fst x * 2 ^ s; q = n div fst y in
     dy_round p (2 * q + (if n mod fst y = 0 then 0 else 1), snd x - snd y - int s - 1))"

definition dy_trunc :: "dyadic \<Rightarrow> int" where
  "dy_trunc x = (if 0 \<le> snd x then fst x * 2 ^ nat (snd x) else fst x div 2 ^ nat (- snd x))"

definition dy_le :: "dyadic \<Rightarrow> dyadic \<Rightarrow> bool" where
  "dy_le x y \<longleftrightarrow> (let e = min (snd x) (snd y) in fst x * 2 ^ nat (snd x - e) \<le> fst y * 2 ^ nat (snd y - e))"

text \<open>\<^verbatim>\<open>(size_t)\<close> of a number: without a defined result from \<open>2 ^ 64\<close> on.\<close>

definition dy_size_t :: "dyadic \<Rightarrow> u64 option" where
  "dy_size_t x = (let n = dy_trunc x in if n < 2 ^ 64 then Some (word_of_int n) else None)"

lemma bitlen_zero [simp]: "bitlen 0 = 0"
  by (simp add: bitlen.simps)

lemma bitlen_bound: "0 < n \<Longrightarrow> 2 ^ (bitlen n - 1) \<le> n \<and> n < 2 ^ bitlen n"
proof (induction n rule: bitlen.induct)
  case (1 n)
  show ?case
  proof (cases "n div 2 = 0")
    case True
    then have "n = 1" using "1.prems" by auto
    then show ?thesis by (simp add: bitlen.simps)
  next
    case False
    then have pos: "0 < n div 2" using "1.prems" by auto
    then obtain k where k: "bitlen (n div 2) = Suc k" by (subst (asm) bitlen.simps [of "n div 2"]) (metis bitlen.simps not_less)
    then have "bitlen n = Suc (Suc k)" using "1.prems" by (subst bitlen.simps) simp
    moreover have "2 ^ k \<le> n div 2 \<and> n div 2 < 2 * 2 ^ k" using "1.IH" [OF _ pos] "1.prems" k by simp
    ultimately show ?thesis by (auto; linarith)
  qed
qed

lemma bitlen_le: "0 \<le> n \<Longrightarrow> n < 2 ^ p \<Longrightarrow> bitlen n \<le> p"
proof (cases "n = 0")
  case False
  assume "0 \<le> n" "n < 2 ^ p"
  then have "2 ^ (bitlen n - 1) < (2 :: int) ^ p" using bitlen_bound [of n] False by linarith
  then show ?thesis by simp
qed simp

text \<open>A number that fits the precision is not changed.\<close>

lemma dy_round_exact: "0 \<le> fst x \<Longrightarrow> fst x < 2 ^ p \<Longrightarrow> dy_round p x = x"
  using bitlen_le [of "fst x" p] by (simp add: dy_round_def Let_def)

lemma dy_of_int_exact: "0 \<le> n \<Longrightarrow> n < 2 ^ p \<Longrightarrow> dy_of_int p n = (n, 0)"
  by (simp add: dy_of_int_def dy_round_exact)

end
