(* ===== verification/MemStorage.thy ===== *)
theory MemStorage
  imports TrackPast Ratio
begin

text \<open>
  The memory storage, \<^verbatim>\<open>MemStorage::Private\<close> of \<^verbatim>\<open>memstorage.cpp\<close>: a map from ids to tracks, the pool its
  tracks allocate from, and a thread that moves the oldest chunks to the storage below when memory
  runs out.  \<^verbatim>\<open>_down_level_storage\<close> and \<^verbatim>\<open>_disk_storage\<close> are interfaces; a pointer to one is the list of
  the calls it got, or \<^term>\<open>None\<close> for a null pointer.  A call that dereferences a null pointer or converts
  a number out of range has the result \<^term>\<open>None\<close>.  The order in which a \<^verbatim>\<open>std::unordered_map\<close> is iterated is
  the parameter \<open>ord\<close>, which permutes the keys.  The loop of \<^verbatim>\<open>append\<close> and the thread are the steps of
  \<open>ms_step\<close>.
\<close>

record MemSettings =
  set_is_memory_only_mode :: bool
  set_memory_limit :: u32
  set_chunk_size :: u32
  set_percent_when_start_droping :: u32
  set_percent_to_drop :: u32

record MemStorage =
  ms_id2track :: "(Id, TimeTrack option) stripped_map"
  ms_settings :: MemSettings
  ms_pool :: MemPool
  ms_down_level_storage :: "Chunk list list option"
  ms_disk_storage :: "Meas list option"
  ms_stoped :: bool
  ms_drop_stop :: bool
  ms_drop_is_stoped :: bool

section \<open>Construction\<close>

text \<open>All fields of a header are packed.\<close>

definition sizeof_ChunkHeader :: int where
  "sizeof_ChunkHeader = 133"

definition region_capacity :: "u32 \<Rightarrow> u32 \<Rightarrow> nat" where
  "region_capacity maxSize bufferSize =
    nat (dy_trunc (dy_div 24 (dy_of_int 24 (uint maxSize)) (dy_of_int 24 (sizeof_ChunkHeader + uint bufferSize))))"

definition allocator_init :: "MemSettings \<Rightarrow> IMemoryAllocator" where
  "allocator_init s =
    (if set_is_memory_only_mode s then UnlimitMemoryAllocator_new (set_chunk_size s)
     else RegionChunkAllocator_new (region_capacity (set_memory_limit s) (set_chunk_size s)) (set_chunk_size s))"

definition MemStorage_new :: "MemSettings \<Rightarrow> nat \<Rightarrow> ChunkHeader \<Rightarrow> u64 \<Rightarrow> MemStorage" where
  "MemStorage_new s id_count junk stack = \<lparr>
     ms_id2track = (if id_count \<noteq> 0 then sm_reserve id_count (sm_new sm_default_n) else sm_new sm_default_n),
     ms_settings = s,
     ms_pool = \<lparr>mp_allocator = allocator_init s, mp_chunks_count = 0, mp_junk = junk, mp_stack = stack\<rparr>,
     ms_down_level_storage = None, ms_disk_storage = None,
     ms_stoped = False, ms_drop_stop = False, ms_drop_is_stoped = False\<rparr>"

definition setDownLevel :: "MemStorage \<Rightarrow> MemStorage" where
  "setDownLevel ms = ms\<lparr>ms_down_level_storage := Some []\<rparr>"

definition setDiskStorage :: "MemStorage \<Rightarrow> MemStorage" where
  "setDiskStorage ms = ms\<lparr>ms_disk_storage := Some []\<rparr>"

record Description =
  d_allocated :: nat
  d_allocator_capacity :: nat

definition MemStorage_description :: "MemStorage \<Rightarrow> Description" where
  "MemStorage_description ms = \<lparr>d_allocated = al_allocated (mp_allocator (ms_pool ms)),
     d_allocator_capacity = (case mp_allocator (ms_pool ms) of Region a \<Rightarrow> ra_capacity a | Unlimit _ \<Rightarrow> 0)\<rparr>"

section \<open>Tracks of the storage\<close>

text \<open>A write through the shared pointer in a cell of the map.\<close>

definition sm_write :: "'k \<Rightarrow> 'd \<Rightarrow> ('k, 'd) stripped_map \<Rightarrow> ('k, 'd) stripped_map" where
  "sm_write k v m = m\<lparr>sm_buckets := map (map (\<lambda>c. if cell_key c = k then Bucket (cell_hash c) k v else c)) (sm_buckets m)\<rparr>"

definition ms_find :: "MemStorage \<Rightarrow> Id \<Rightarrow> TimeTrack option option" where
  "ms_find ms i = sm_find jenkins_one_hash (ms_id2track ms) i"

definition ms_track :: "MemStorage \<Rightarrow> Id \<Rightarrow> TimeTrack option" where
  "ms_track ms i = Option.bind (ms_find ms i) (\<lambda>tr. tr)"

definition ms_set_track :: "Id \<Rightarrow> TimeTrack \<Rightarrow> MemStorage \<Rightarrow> MemStorage" where
  "ms_set_track i tr ms = ms\<lparr>ms_id2track := sm_write i (Some tr) (ms_id2track ms)\<rparr>"

section \<open>Appending\<close>

text \<open>The first block of \<^verbatim>\<open>append\<close>: the track of the id, made if it is not there.\<close>

definition append_track :: "Meas \<Rightarrow> MemStorage \<Rightarrow> MemStorage" where
  "append_track value ms = (
     let (m1, it) = sm_find_bucket jenkins_one_hash None (ms_id2track ms) (m_id value)
     in case sm_at m1 it of
          None \<Rightarrow> ms\<lparr>ms_id2track := sm_put m1 it (Some (TimeTrack_new 0 (m_id value)))\<rparr>
        | Some _ \<Rightarrow> ms\<lparr>ms_id2track := m1\<rparr>)"

text \<open>After the loop: the write to the disk storage.\<close>

definition append_disk :: "Meas \<Rightarrow> TimeTrack \<Rightarrow> MemStorage \<Rightarrow> MemStorage" where
  "append_disk value tr ms = (case ms_disk_storage ms of None \<Rightarrow> ms
     | Some log \<Rightarrow> ms_set_track (m_id value) (tr\<lparr>tt_max_sync_time := m_time value\<rparr>)
         (ms\<lparr>ms_disk_storage := Some (log @ [value])\<rparr>))"

text \<open>One pass of the loop; the result is \<^term>\<open>None\<close> inside if the loop goes round again.\<close>

definition append_attempt :: "Meas \<Rightarrow> MemStorage \<Rightarrow> (Status outcome option \<times> MemStorage) option" where
  "append_attempt value ms = do {
     track \<leftarrow> ms_track ms (m_id value);
     (r, tr1, w1) \<leftarrow> TimeTrack_append track value (ms_pool ms);
     let ms1 = ms_set_track (m_id value) tr1 (ms\<lparr>ms_pool := w1\<rparr>) in
     Some (case r of
         Thrown e \<Rightarrow> (Some (Thrown e), ms1)
       | Returned st \<Rightarrow>
           if \<not> Status_eq st (Status_writed 1) \<and> \<not> ms_drop_stop ms
           then (if set_is_memory_only_mode (ms_settings ms) then Some (Returned st) else None, ms1)
           else (Some (Returned (Status_writed 1)), append_disk value tr1 ms1)) }"

section \<open>Dropping\<close>

text \<open>The percentage of a track with \<open>cnt\<close> chunks among \<open>cur\<close>, without the one added to it.\<close>

definition drop_percent :: "u64 \<Rightarrow> u64 \<Rightarrow> u64 option" where
  "drop_percent cnt cur =
    (if cur = 0 then None
     else dy_size_t (dy_div 53 (dy_mul 53 (100, 0) (dy_of_int 53 (uint cnt))) (dy_of_int 53 (uint cur))))"

definition drop_count :: "u64 \<Rightarrow> u64 \<Rightarrow> u64 \<Rightarrow> u64 option" where
  "drop_count chunks_to_delete cnt cur = do {
     p \<leftarrow> drop_percent cnt cur;
     let to_drop = (chunks_to_delete * (p + 1)) div 100 in
     Some (if to_drop = 0 then 1 else to_drop) }"

text \<open>The loop of \<^verbatim>\<open>drop_by_limit\<close> over the tracks.\<close>

fun drop_tracks :: "u64 \<Rightarrow> u64 \<Rightarrow> Id list \<Rightarrow> MemStorage \<Rightarrow> (MemChunk list \<times> MemStorage) option" where
  "drop_tracks chunks_to_delete cur [] ms = Some ([], ms)"
| "drop_tracks chunks_to_delete cur (i # ids) ms = do {
     tr \<leftarrow> ms_track ms i;
     let cnt = of_nat (length (tt_index tr)) in
     if cnt = 0 then drop_tracks chunks_to_delete cur ids ms
     else do {
       to_drop \<leftarrow> drop_count chunks_to_delete cnt cur;
       let (dropped, tr1) = drop_N tr to_drop in do {
         (rest, ms2) \<leftarrow> drop_tracks chunks_to_delete cur ids (ms_set_track i tr1 ms);
         Some (dropped @ rest, ms2) }} }"

definition chunk_batch :: "Id \<Rightarrow> MemChunk list \<Rightarrow> MemChunk list" where
  "chunk_batch i cs = filter (\<lambda>mc. ch_meas_id (mc_header mc) = i) cs"

text \<open>The chunks of an id go down together; then they are freed.\<close>

definition drop_batch :: "MemChunk list \<Rightarrow> Id \<Rightarrow> MemStorage \<Rightarrow> MemStorage" where
  "drop_batch all_chunks i ms = (
     let mcs = chunk_batch i all_chunks in
     ms\<lparr>ms_down_level_storage := map_option (\<lambda>log. log @ [map mc_chunk mcs]) (ms_down_level_storage ms),
        ms_pool := fold MemChunk_delete mcs (fold (\<lambda>_. freeChunk) mcs (ms_pool ms))\<rparr>)"

definition drop_logic :: "(Id list \<Rightarrow> Id list) \<Rightarrow> MemChunk list \<Rightarrow> MemStorage \<Rightarrow> MemStorage" where
  "drop_logic ord all_chunks ms =
     fold (drop_batch all_chunks) (ord (remdups (map (\<lambda>mc. ch_meas_id (mc_header mc)) all_chunks))) ms"

definition drop_by_limit :: "(Id list \<Rightarrow> Id list) \<Rightarrow> u32 \<Rightarrow> MemStorage \<Rightarrow> MemStorage option" where
  "drop_by_limit ord chunk_percent_to_free ms = do {
     let cur_chunk_count = mp_chunks_count (ms_pool ms) in do {
     chunks_to_delete \<leftarrow> dy_size_t (dy_mul 24 (dy_of_int 24 (uint cur_chunk_count)) (f32_bits chunk_percent_to_free));
     let tracks = sm_apply (\<lambda>v ts. ts @ [fst v]) (ms_id2track ms) [] in do {
     (all_chunks, ms1) \<leftarrow> drop_tracks chunks_to_delete cur_chunk_count tracks ms;
     Some (if all_chunks = [] then ms1
           else case ms_down_level_storage ms1 of
             Some _ \<Rightarrow> drop_logic ord all_chunks ms1
           | None \<Rightarrow> ms1\<lparr>ms_pool := fold MemChunk_delete all_chunks (ms_pool ms1)\<rparr>) }}}"

definition is_time_to_drop :: "MemStorage \<Rightarrow> bool" where
  "is_time_to_drop ms = (case mp_allocator (ms_pool ms) of
     Region a \<Rightarrow> dy_le (dy_mul 24 (dy_of_int 24 (int (ra_capacity a))) (f32_bits (set_percent_when_start_droping (ms_settings ms))))
                  (dy_of_int 24 (uint (mp_chunks_count (ms_pool ms))))
   | Unlimit _ \<Rightarrow> False)"

text \<open>One pass of the loop of \<^verbatim>\<open>drop_thread_func\<close> after the thread was woken.\<close>

definition drop_thread_wake :: "(Id list \<Rightarrow> Id list) \<Rightarrow> MemStorage \<Rightarrow> MemStorage option" where
  "drop_thread_wake ord ms =
    (if ms_drop_stop ms then Some (ms\<lparr>ms_drop_is_stoped := True\<rparr>)
     else if \<not> is_time_to_drop ms then Some ms
     else drop_by_limit ord (set_percent_to_drop (ms_settings ms)) ms)"

definition dropOld :: "Id \<Rightarrow> Time \<Rightarrow> MemStorage \<Rightarrow> MemStorage option" where
  "dropOld i t ms = (case ms_find ms i of
     None \<Rightarrow> Some ms
   | Some tgt \<Rightarrow> do {
       tr \<leftarrow> tgt;
       (erased, tr1, w1) \<leftarrow> drop_Old tr t (ms_pool ms);
       Some (ms_set_track i tr1 (ms\<lparr>ms_pool := w1\<rparr>)) })"

text \<open>The chunks a track owns when it is destroyed.\<close>

definition track_chunks :: "TimeTrack \<Rightarrow> MemChunk list" where
  "track_chunks tr = map snd (tt_index tr) @ (case tt_cur_chunk tr of None \<Rightarrow> [] | Some c \<Rightarrow> [c])"

definition MemStorage_stop :: "(Id list \<Rightarrow> Id list) \<Rightarrow> MemStorage \<Rightarrow> MemStorage option" where
  "MemStorage_stop ord ms =
    (if ms_stoped ms then Some ms
     else do {
       let ms1 = (if set_is_memory_only_mode (ms_settings ms) then ms
                  else ms\<lparr>ms_drop_stop := True, ms_drop_is_stoped := True\<rparr>) in do {
       ms2 \<leftarrow> (if ms_down_level_storage ms1 \<noteq> None then drop_by_limit ord 0x3F800000 ms1 else Some ms1);
       let mcs = concat (map (\<lambda>v. case snd v of None \<Rightarrow> [] | Some tr \<Rightarrow> track_chunks tr) (sm_items (ms_id2track ms2))) in
       Some (ms2\<lparr>ms_id2track := sm_clear (ms_id2track ms2), ms_pool := fold MemChunk_delete mcs (ms_pool ms2),
                 ms_stoped := True\<rparr>) }})"

section \<open>The loop of append and the dropping thread\<close>

text \<open>A caller of \<^verbatim>\<open>append\<close>: it is going to call, it is in the loop, or it has its result.\<close>

datatype caller = Called Meas | InLoop Meas | Finished "Status outcome"

inductive ms_step :: "(Id list \<Rightarrow> Id list) \<Rightarrow> caller \<times> MemStorage \<Rightarrow> caller \<times> MemStorage \<Rightarrow> bool" for ord where
  step_enter: "ms_step ord (Called v, ms) (InLoop v, append_track v ms)"
| step_return: "append_attempt v ms = Some (Some r, ms') \<Longrightarrow> ms_step ord (InLoop v, ms) (Finished r, ms')"
| step_again: "append_attempt v ms = Some (None, ms') \<Longrightarrow> ms_step ord (InLoop v, ms) (InLoop v, ms')"
| step_wake: "\<not> set_is_memory_only_mode (ms_settings ms) \<Longrightarrow> \<not> ms_drop_is_stoped ms \<Longrightarrow> drop_thread_wake ord ms = Some ms' \<Longrightarrow>
    ms_step ord (InLoop v, ms) (InLoop v, ms')"

text \<open>An append that returns in its first pass, as every append in memory-only mode does.\<close>

definition MemStorage_append :: "Meas \<Rightarrow> MemStorage \<Rightarrow> (Status outcome option \<times> MemStorage) option" where
  "MemStorage_append value ms = append_attempt value (append_track value ms)"

section \<open>Queries\<close>

text \<open>\<^verbatim>\<open>apply\<close> with a function that dereferences the track.\<close>

definition tracks_apply :: "(Id \<Rightarrow> TimeTrack \<Rightarrow> 's \<Rightarrow> 's) \<Rightarrow> MemStorage \<Rightarrow> 's \<Rightarrow> 's option" where
  "tracks_apply f ms s = sm_apply (\<lambda>v acc. do { s \<leftarrow> acc; tr \<leftarrow> snd v; Some (f (fst v) tr s) }) (ms_id2track ms) (Some s)"

definition getSyncMap :: "MemStorage \<Rightarrow> (Id \<rightharpoonup> Time) option" where
  "getSyncMap ms = tracks_apply (\<lambda>i tr result. result(i \<mapsto> tt_max_sync_time tr)) ms Map.empty"

definition MemStorage_loadMinMax :: "MemStorage \<Rightarrow> Id2MinMax option" where
  "MemStorage_loadMinMax ms = tracks_apply (\<lambda>i tr result.
     if tt_cur_chunk tr = None then result
     else sm_insert jenkins_one_hash MeasMinMax_empty result i (tt_min_max tr)) ms (sm_new sm_default_n)"

definition MemStorage_minTime :: "MemStorage \<Rightarrow> Time option" where
  "MemStorage_minTime ms = tracks_apply (\<lambda>i tr result. min result (TimeTrack_minTime tr)) ms MAX_TIME"

definition MemStorage_maxTime :: "MemStorage \<Rightarrow> Time option" where
  "MemStorage_maxTime ms = tracks_apply (\<lambda>i tr result. max result (TimeTrack_maxTime tr)) ms MIN_TIME"

text \<open>The inner \<^term>\<open>None\<close> is \<^verbatim>\<open>false\<close>.\<close>

definition MemStorage_minMaxTime :: "MemStorage \<Rightarrow> Id \<Rightarrow> (Time \<times> Time) option option" where
  "MemStorage_minMaxTime ms i = (case ms_find ms i of
     None \<Rightarrow> Some None
   | Some output \<Rightarrow> do { tr \<leftarrow> output; Some (TimeTrack_minMaxTime tr i) })"

text \<open>A map of results in the order of insertion; \<^verbatim>\<open>operator[]\<close> replaces an entry that is there.\<close>

fun umap_set :: "'k \<Rightarrow> 'v \<Rightarrow> ('k \<times> 'v) list \<Rightarrow> ('k \<times> 'v) list" where
  "umap_set k v [] = [(k, v)]"
| "umap_set k v ((j, w) # xs) = (if j = k then (j, v) # xs else (j, w) # umap_set k v xs)"

fun ms_readers :: "MemStorage \<Rightarrow> QueryInterval \<Rightarrow> Id list \<Rightarrow> (Id \<times> cursor) list \<Rightarrow> (Id \<times> cursor) list option" where
  "ms_readers ms q [] result = Some result"
| "ms_readers ms q (i # ids) result = (case ms_find ms i of
     None \<Rightarrow> ms_readers ms q ids result
   | Some output \<Rightarrow> do {
       tr \<leftarrow> output;
       rdr \<leftarrow> TimeTrack_intervalReader tr q;
       if rdr = [] then ms_readers ms q ids result
       else do { c \<leftarrow> map_of rdr i; ms_readers ms q ids (umap_set i c result) } })"

definition MemStorage_intervalReader :: "MemStorage \<Rightarrow> QueryInterval \<Rightarrow> (Id \<times> cursor) list option" where
  "MemStorage_intervalReader ms q = ms_readers ms q (q_ids q) []"

definition MemStorage_stat :: "MemStorage \<Rightarrow> Id \<Rightarrow> Time \<Rightarrow> Time \<Rightarrow> Statistic option" where
  "MemStorage_stat ms i from to = (case ms_find ms i of
     None \<Rightarrow> Some Statistic_empty
   | Some output \<Rightarrow> do { tr \<leftarrow> output; TimeTrack_stat tr from to })"

fun foreach_loop :: "('s \<Rightarrow> bool) \<Rightarrow> (Meas \<Rightarrow> 's \<Rightarrow> 's) \<Rightarrow> QueryInterval \<Rightarrow> (Id \<times> cursor) list \<Rightarrow> Id list \<Rightarrow> 's \<Rightarrow> 's option" where
  "foreach_loop is_canceled clbk q readers [] s = Some s"
| "foreach_loop is_canceled clbk q readers (i # ids) s = do {
     c \<leftarrow> map_of readers i;
     (s1, c1) \<leftarrow> cursor_apply_query is_canceled clbk q c s;
     foreach_loop is_canceled clbk q readers ids s1 }"

definition MemStorage_foreach :: "(Id list \<Rightarrow> Id list) \<Rightarrow> ('s \<Rightarrow> bool) \<Rightarrow> (Meas \<Rightarrow> 's \<Rightarrow> 's) \<Rightarrow> MemStorage \<Rightarrow> QueryInterval \<Rightarrow> 's \<Rightarrow> 's option" where
  "MemStorage_foreach ord is_canceled clbk ms q s = do {
     readers \<leftarrow> MemStorage_intervalReader ms q;
     foreach_loop is_canceled clbk q readers (ord (map fst readers)) s }"

fun ms_point_loop :: "(TimeTrack \<Rightarrow> Id \<Rightarrow> Meas option) \<Rightarrow> MemStorage \<Rightarrow> Id list \<Rightarrow> (Id \<times> Meas) list \<Rightarrow> (Id \<times> Meas) list option" where
  "ms_point_loop f ms [] result = Some result"
| "ms_point_loop f ms (i # ids) result = (case ms_find ms i of
     None \<Rightarrow> ms_point_loop f ms ids (umap_set i (Meas_empty\<lparr>m_id := i, m_flag := NO_DATA\<rparr>) result)
   | Some output \<Rightarrow> do { tr \<leftarrow> output; m \<leftarrow> f tr i; ms_point_loop f ms ids (umap_set i m result) })"

definition MemStorage_readTimePoint :: "MemStorage \<Rightarrow> QueryTimePoint \<Rightarrow> (Id \<times> Meas) list option" where
  "MemStorage_readTimePoint ms q = ms_point_loop (\<lambda>tr i. TimeTrack_readTimePoint tr
     \<lparr>q_ids = [i], q_flag = q_flag q, q_time_point = q_time_point q\<rparr>) ms (q_ids q) []"

definition MemStorage_currentValue :: "MemStorage \<Rightarrow> Id list \<Rightarrow> Flag \<Rightarrow> (Id \<times> Meas) list option" where
  "MemStorage_currentValue ms ids flag = ms_point_loop (\<lambda>tr i. Some (TimeTrack_currentValue tr flag)) ms ids []"

end
