(* ===== verification/WalFile.thy ===== *)
theory WalFile
  imports Manifest MemStorage
begin

text \<open>
  Write-ahead files, \<^verbatim>\<open>storage/wal/walfile.cpp\<close>: a file is the packed bytes of the measurements appended to
  it.  The disk is a map from names to contents; \<^verbatim>\<open>fopen\<close> with \<^verbatim>\<open>"ab"\<close> makes a file that is not there,
  with \<^verbatim>\<open>"rb"\<close> it fails then.  \<^term>\<open>None\<close> is a call that throws or has no defined result.  The names that
  \<^verbatim>\<open>random_file_name\<close> takes from the clock, the path of the storage and the limits of the
  settings are the fields of \<open>WalEnv\<close>; the paths come from a library, so they are functions.
\<close>

section \<open>Measurements as bytes\<close>

definition Meas_bytes :: "Meas \<Rightarrow> u8 list" where
  "Meas_bytes m = le_bytes 4 (m_id m) @ le_bytes 8 (m_time m) @ le_bytes 8 (m_value m) @ le_bytes 4 (m_flag m)"

definition Meas_of_bytes :: "u8 list \<Rightarrow> Meas" where
  "Meas_of_bytes bs = \<lparr>m_id = le_word (take 4 bs), m_time = le_word (take 8 (drop 4 bs)),
     m_value = le_word (take 8 (drop 12 bs)), m_flag = le_word (take 4 (drop 20 bs))\<rparr>"

text \<open>\<^verbatim>\<open>fread\<close> of \<open>n\<close> measurements: those that are complete.\<close>

fun fread_meas :: "nat \<Rightarrow> u8 list \<Rightarrow> Meas list" where
  "fread_meas 0 bs = []"
| "fread_meas (Suc n) bs = (if length bs < 24 then [] else Meas_of_bytes (take 24 bs) # fread_meas n (drop 24 bs))"

definition fwrite_meas :: "Meas list \<Rightarrow> u8 list" where
  "fwrite_meas ms = concat (map Meas_bytes ms)"

section \<open>Files\<close>

record WalEnv =
  we_path :: "string \<Rightarrow> string"
  we_name :: "string \<Rightarrow> string"
  we_random_file_name :: "nat \<Rightarrow> string"
  we_wal_file_size :: u64
  we_wal_cache_size :: nat
  we_strategy_is_wal :: bool

record Disk =
  dk_files :: "string \<rightharpoonup> u8 list"
  dk_clock :: nat
  dk_manifest :: Manifest

record WALFile =
  wf_filename :: string
  wf_is_readonly :: bool
  wf_writed :: u64
  wf_idBloom :: Id
  wf_minTime :: Time
  wf_maxTime :: Time

definition WALFile_create :: "WalEnv \<Rightarrow> Id \<Rightarrow> Disk \<Rightarrow> WALFile \<times> Disk" where
  "WALFile_create env i d = (
     let rnd_fname = we_random_file_name env (dk_clock d) in
     (\<lparr>wf_filename = we_path env rnd_fname, wf_is_readonly = False, wf_writed = 0, wf_idBloom = ucast bloom_empty,
       wf_minTime = MAX_TIME, wf_maxTime = MIN_TIME\<rparr>,
      d\<lparr>dk_clock := Suc (dk_clock d), dk_manifest := wal_append rnd_fname i (dk_manifest d)\<rparr>))"

text \<open>The size of the file divided by the size of a measurement; the position of a stream that could not
  be opened is \<open>-1\<close>, which the division by an unsigned size turns into a large number.\<close>

definition WALFile_writed :: "string \<Rightarrow> Disk \<Rightarrow> u64" where
  "WALFile_writed fname d = (case dk_files d fname of
     Some bs \<Rightarrow> of_nat (length bs div 24) | None \<Rightarrow> (- 1) div 24)"

definition WALFile_open :: "string \<Rightarrow> bool \<Rightarrow> Disk \<Rightarrow> WALFile" where
  "WALFile_open fname readonly d = \<lparr>wf_filename = fname, wf_is_readonly = readonly, wf_writed = WALFile_writed fname d,
     wf_idBloom = 0, wf_minTime = MAX_TIME, wf_maxTime = MIN_TIME\<rparr>"

definition open_to_append :: "WALFile \<Rightarrow> Disk \<Rightarrow> Disk" where
  "open_to_append f d = (case dk_files d (wf_filename f) of
     Some _ \<Rightarrow> d | None \<Rightarrow> d\<lparr>dk_files := (dk_files d)(wf_filename f \<mapsto> [])\<rparr>)"

definition fwrite :: "string \<Rightarrow> Meas list \<Rightarrow> Disk \<Rightarrow> Disk" where
  "fwrite fname ms d = (case dk_files d fname of
     Some bs \<Rightarrow> d\<lparr>dk_files := (dk_files d)(fname \<mapsto> bs @ fwrite_meas ms)\<rparr> | None \<Rightarrow> d)"

text \<open>The bookkeeping of one written value.\<close>

definition wal_note :: "Meas \<Rightarrow> WALFile \<Rightarrow> WALFile" where
  "wal_note value f = f\<lparr>wf_minTime := min (wf_minTime f) (m_time value), wf_maxTime := max (wf_maxTime f) (m_time value),
     wf_idBloom := ucast (bloom_add (ucast (wf_idBloom f)) (m_id value))\<rparr>"

definition WALFile_append :: "WalEnv \<Rightarrow> WALFile \<Rightarrow> Meas \<Rightarrow> u64 \<Rightarrow> Disk \<Rightarrow> Status \<times> WALFile \<times> Disk" where
  "WALFile_append env f value stack d =
    (if wf_writed f > we_wal_file_size env then (Status_error stack 1 wal_file_limit, f, d)
     else (Status_writed 1, (wal_note value f)\<lparr>wf_writed := wf_writed f + 1\<rparr>,
           fwrite (wf_filename f) [value] (open_to_append f d)))"

text \<open>The append of a range.  A count larger than the range reads past its end.\<close>

definition wal_write_size :: "WalEnv \<Rightarrow> WALFile \<Rightarrow> nat \<Rightarrow> u64" where
  "wal_write_size env f sz =
    (if of_nat sz + wf_writed f > we_wal_file_size env then we_wal_file_size env - wf_writed f else of_nat sz)"

definition WALFile_append_range :: "WalEnv \<Rightarrow> WALFile \<Rightarrow> Meas list \<Rightarrow> Disk \<Rightarrow> (Status \<times> WALFile \<times> Disk) option" where
  "WALFile_append_range env f vs d = (
     let sz = length vs; d1 = open_to_append f d; write_size = wal_write_size env f sz in
     if write_size = 0 then Some (Status_empty\<lparr>st_ignored := of_nat sz, st_error := wal_file_limit\<rparr>, f, d1)
     else if unat write_size > sz then None
     else let ws = take (unat write_size) vs in
       Some (Status_writed write_size, (fold wal_note ws f)\<lparr>wf_writed := wf_writed f + write_size\<rparr>,
             fwrite (wf_filename f) ws d1))"

definition readAll :: "WALFile \<Rightarrow> Disk \<Rightarrow> Meas list option" where
  "readAll f d = do {
     bs \<leftarrow> dk_files d (wf_filename f);
     let ma = fread_meas (unat (wf_writed f)) bs in
     if length ma < unat (wf_writed f) then None else Some ma }"

section \<open>Queries of a file\<close>

definition WALFile_stat :: "WALFile \<Rightarrow> Id \<Rightarrow> Time \<Rightarrow> Time \<Rightarrow> Disk \<Rightarrow> Statistic option" where
  "WALFile_stat f i from to d = do {
     all \<leftarrow> readAll f d;
     Some (fold (\<lambda>val result. if inQueryInterval val [i] 0 from to then stat_update result val else result) all Statistic_empty) }"

text \<open>\<^verbatim>\<open>Id2MSet\<close>: a map ordered by id to sets ordered by time.\<close>

fun mset_insert :: "Meas \<Rightarrow> (Id \<times> (Time \<times> Meas) list) list \<Rightarrow> (Id \<times> (Time \<times> Meas) list) list" where
  "mset_insert v [] = [(m_id v, MeasSet_insert v [])]"
| "mset_insert v ((i, s) # xs) =
    (if m_id v < i then (m_id v, MeasSet_insert v []) # (i, s) # xs
     else if m_id v = i then (i, MeasSet_insert v s) # xs
     else (i, s) # mset_insert v xs)"

text \<open>The readers made of the sets; the values of a set are in the order of their times already.\<close>

definition mset_readers :: "(Id \<times> (Time \<times> Meas) list) list \<Rightarrow> (Id \<times> cursor) list" where
  "mset_readers xs = map (\<lambda>(i, s). (i, FullC (FullCursor_new (map snd s)))) xs"

definition WALFile_intervalReader :: "WALFile \<Rightarrow> QueryInterval \<Rightarrow> Disk \<Rightarrow> (Id \<times> cursor) list option" where
  "WALFile_intervalReader f q d = do {
     all \<leftarrow> readAll f d;
     Some (mset_readers (fold (\<lambda>val subresult.
       if inQueryInterval val (q_ids q) (q_flag q) (q_from q) (q_to q) then mset_insert val subresult else subresult) all [])) }"

fun apply_readers :: "('s \<Rightarrow> bool) \<Rightarrow> (Meas \<Rightarrow> 's \<Rightarrow> 's) \<Rightarrow> (Id \<times> cursor) list \<Rightarrow> 's \<Rightarrow> 's option" where
  "apply_readers is_canceled clbk [] s = Some s"
| "apply_readers is_canceled clbk ((i, c) # rs) s = do {
     (s1, c1) \<leftarrow> cursor_apply is_canceled clbk c s;
     apply_readers is_canceled clbk rs s1 }"

definition WALFile_foreach :: "('s \<Rightarrow> bool) \<Rightarrow> (Meas \<Rightarrow> 's \<Rightarrow> 's) \<Rightarrow> WALFile \<Rightarrow> QueryInterval \<Rightarrow> Disk \<Rightarrow> 's \<Rightarrow> 's option" where
  "WALFile_foreach is_canceled clbk f q d s = do { readers \<leftarrow> WALFile_intervalReader f q d; apply_readers is_canceled clbk readers s }"

text \<open>\<^verbatim>\<open>emplace\<close> does not replace an entry that is there.\<close>

definition umap_emplace :: "Id \<Rightarrow> Meas \<Rightarrow> (Id \<rightharpoonup> Meas) \<Rightarrow> (Id \<rightharpoonup> Meas)" where
  "umap_emplace i m s = (if s i = None then s(i \<mapsto> m) else s)"

definition replace_if_older :: "Meas \<Rightarrow> (Id \<rightharpoonup> Meas) \<Rightarrow> (Id \<rightharpoonup> Meas)" where
  "replace_if_older m s = (case s (m_id m) of
     None \<Rightarrow> umap_emplace (m_id m) m s
   | Some r \<Rightarrow> if m_time r < m_time m then umap_emplace (m_id m) m s else s)"

text \<open>The ids that were not read get a value without data.\<close>

definition no_data :: "Id \<Rightarrow> Time \<Rightarrow> Meas" where
  "no_data i t = Meas_empty\<lparr>m_id := i, m_flag := NO_DATA, m_time := t\<rparr>"

definition add_missing :: "Id list \<Rightarrow> Time \<Rightarrow> Id list \<Rightarrow> (Id \<rightharpoonup> Meas) \<Rightarrow> (Id \<rightharpoonup> Meas)" where
  "add_missing ids t readed_ids s =
    (if ids \<noteq> [] \<and> length readed_ids \<noteq> length ids
     then fold (\<lambda>i s. if i \<in> set readed_ids then s else s(i \<mapsto> no_data i t)) ids s else s)"

definition WALFile_readTimePoint :: "WALFile \<Rightarrow> QueryTimePoint \<Rightarrow> Disk \<Rightarrow> (Id \<rightharpoonup> Meas) option" where
  "WALFile_readTimePoint f q d = do {
     all \<leftarrow> readAll f d;
     let hits = filter (\<lambda>v. inQuery v (q_ids q) (q_flag q) \<and> m_time v \<le> q_time_point q) all in
     Some (add_missing (q_ids q) (q_time_point q) (remdups (map m_id hits)) (fold replace_if_older hits Map.empty)) }"

definition WALFile_currentValue :: "WALFile \<Rightarrow> Id list \<Rightarrow> Flag \<Rightarrow> Disk \<Rightarrow> (Id \<rightharpoonup> Meas) option" where
  "WALFile_currentValue f ids flag d = do {
     all \<leftarrow> readAll f d;
     let hits = filter (\<lambda>v. inFlag v flag \<and> inIds v ids) all in
     Some (add_missing ids 0 (remdups (map m_id hits)) (fold replace_if_older hits Map.empty)) }"

definition updateBloom :: "WALFile \<Rightarrow> Disk \<Rightarrow> WALFile option" where
  "updateBloom f d = do {
     all \<leftarrow> readAll f d;
     Some (f\<lparr>wf_idBloom := fold (\<lambda>v b. ucast (bloom_add (ucast b) (m_id v))) all (ucast bloom_empty)\<rparr>) }"

definition id_bloom :: "WALFile \<Rightarrow> Disk \<Rightarrow> (Id \<times> WALFile) option" where
  "id_bloom f d = do {
     f1 \<leftarrow> (if wf_idBloom f = 0 then updateBloom f d else Some f);
     Some (wf_idBloom f1, f1) }"

definition WALFile_minTime :: "WALFile \<Rightarrow> Disk \<Rightarrow> Time option" where
  "WALFile_minTime f d = do { all \<leftarrow> readAll f d; Some (fold (\<lambda>v result. min (m_time v) result) all MAX_TIME) }"

definition WALFile_maxTime :: "WALFile \<Rightarrow> Disk \<Rightarrow> Time option" where
  "WALFile_maxTime f d = do { all \<leftarrow> readAll f d; Some (fold (\<lambda>v result. max (m_time v) result) all MIN_TIME) }"

definition WALFile_minMaxTime :: "WALFile \<Rightarrow> Id \<Rightarrow> Disk \<Rightarrow> (bool \<times> Time \<times> Time) option" where
  "WALFile_minMaxTime f i d = do {
     all \<leftarrow> readAll f d;
     Some (fold (\<lambda>v (r, mn, mx). if m_id v = i then (True, min mn (m_time v), max mx (m_time v)) else (r, mn, mx))
       all (False, MAX_TIME, MIN_TIME)) }"

text \<open>One value into a map of extrema, as \<^verbatim>\<open>loadMinMax\<close> of the file and of the manager do.\<close>

definition minmax_value :: "Meas \<Rightarrow> Id2MinMax \<Rightarrow> Id2MinMax" where
  "minmax_value val result = (
     let (r1, fres) = sm_find_bucket jenkins_one_hash MeasMinMax_empty result (m_id val);
         r2 = sm_put r1 fres (updateMax (sm_at r1 fres) val)
     in sm_put r2 fres (updateMin (sm_at r2 fres) val))"

definition WALFile_loadMinMax :: "WALFile \<Rightarrow> Disk \<Rightarrow> Id2MinMax option" where
  "WALFile_loadMinMax f d = do { all \<leftarrow> readAll f d; Some (fold minmax_value all (sm_new sm_default_n)) }"

definition id_from_first :: "WALFile \<Rightarrow> Disk \<Rightarrow> Id option" where
  "id_from_first f d = do { all \<leftarrow> readAll f d; Some (case all of [] \<Rightarrow> MAX_ID | v # _ \<Rightarrow> m_id v) }"

end
