(* ===== verification/WalManager.thy ===== *)
theory WalManager
  imports WalFile
begin

text \<open>
  The manager of the write-ahead files, \<^verbatim>\<open>storage/wal/wal_manager.cpp\<close>: a buffer of values for every id, files
  the buffers are flushed to, and the bounds and the filter of the ids of files that are closed.  The
  work posted to the disk thread is waited for, so it is done where it is posted.  The interface
  \<^verbatim>\<open>IWALDropper\<close> is the list of the names it was called with.
\<close>

section \<open>State\<close>

record BufferDescription =
  bd_walfile :: "WALFile option"
  bd_buffer :: "Meas list"
  bd_pos :: nat

record TimeMinMax =
  tm_minTime :: Time
  tm_maxTime :: Time
  tm_bloom_id :: Id

record WALManager =
  wm_down :: "string list option"
  wm_buffers :: "(Id, BufferDescription option) stripped_map"
  wm_files_send_to_drop :: "string list"
  wm_file2minmax :: "string \<rightharpoonup> TimeMinMax"
  wm_disk :: Disk

definition BufferDescription_new :: "WALFile option \<Rightarrow> nat \<Rightarrow> BufferDescription" where
  "BufferDescription_new file buffer_size = \<lparr>bd_walfile = file, bd_buffer = replicate buffer_size Meas_empty, bd_pos = 0\<rparr>"

definition wm_find :: "WALManager \<Rightarrow> Id \<Rightarrow> BufferDescription option option" where
  "wm_find wm i = sm_find jenkins_one_hash (wm_buffers wm) i"

definition wm_set_buffer :: "Id \<Rightarrow> BufferDescription \<Rightarrow> WALManager \<Rightarrow> WALManager" where
  "wm_set_buffer i bd wm = wm\<lparr>wm_buffers := sm_write i (Some bd) (wm_buffers wm)\<rparr>"

definition bd_values :: "BufferDescription \<Rightarrow> Meas list" where
  "bd_values bd = take (bd_pos bd) (bd_buffer bd)"

section \<open>Files of the manifest\<close>

definition wal_files :: "WalEnv \<Rightarrow> Id \<Rightarrow> WALManager \<Rightarrow> string list" where
  "wal_files env i wm = map (\<lambda>f. we_path env (wd_fname f)) (wal_list_id i (dk_manifest (wm_disk wm)))"

definition wal_files_all :: "WalEnv \<Rightarrow> WALManager \<Rightarrow> string list" where
  "wal_files_all env wm = map (\<lambda>f. we_path env (wd_fname f)) (wal_list (dk_manifest (wm_disk wm)))"

definition filesCount :: "WalEnv \<Rightarrow> WALManager \<Rightarrow> nat" where
  "filesCount env wm = length (wal_files_all env wm)"

definition wal_erase :: "WalEnv \<Rightarrow> string \<Rightarrow> WALManager \<Rightarrow> WALManager" where
  "wal_erase env fname wm = (
     let full_path = we_path env fname; d = wm_disk wm in
     wm\<lparr>wm_disk := d\<lparr>dk_manifest := wal_rm fname (dk_manifest d), dk_files := (dk_files d)(full_path := None)\<rparr>,
        wm_file2minmax := (wm_file2minmax wm)(full_path := None)\<rparr>)"

text \<open>The bounds and the filter of a file, and the file, whose filter may have been computed.\<close>

definition file_minmax :: "WALFile \<Rightarrow> Disk \<Rightarrow> (TimeMinMax \<times> WALFile) option" where
  "file_minmax f d = do {
     mn \<leftarrow> WALFile_minTime f d;
     mx \<leftarrow> WALFile_maxTime f d;
     (b, f1) \<leftarrow> id_bloom f d;
     Some (\<lparr>tm_minTime = mn, tm_maxTime = mx, tm_bloom_id = b\<rparr>, f1) }"

section \<open>Dropping files\<close>

definition wm_dropWAL :: "WalEnv \<Rightarrow> string \<Rightarrow> WALManager \<Rightarrow> WALManager" where
  "wm_dropWAL env fname wm = (
     let without_path = we_name env fname in
     wm\<lparr>wm_files_send_to_drop := List.insert without_path (wm_files_send_to_drop wm),
        wm_down := map_option (\<lambda>log. log @ [without_path]) (wm_down wm)\<rparr>)"

definition dropFile :: "WalEnv \<Rightarrow> string \<Rightarrow> WALManager \<Rightarrow> WALManager" where
  "dropFile env f wm =
    (if wm_down wm = None then wm
     else
       let wm1 = (if we_name env f \<in> set (wm_files_send_to_drop wm) then wm else wm_dropWAL env f wm);
           wal_exists = map wd_fname (wal_list (dk_manifest (wm_disk wm1)))
       in wm1\<lparr>wm_files_send_to_drop := filter (\<lambda>v. v \<in> set wal_exists) (wm_files_send_to_drop wm1)\<rparr>)"

text \<open>Whether a buffer writes to the file.\<close>

definition wal_in_use :: "string \<Rightarrow> WALManager \<Rightarrow> bool" where
  "wal_in_use f wm = sm_apply (\<lambda>kv exists. case snd kv of
     Some bd \<Rightarrow> (case bd_walfile bd of Some wfile \<Rightarrow> if wf_filename wfile = f then True else exists | None \<Rightarrow> exists)
   | None \<Rightarrow> exists) (wm_buffers wm) False"

definition closedWals :: "WalEnv \<Rightarrow> WALManager \<Rightarrow> string list" where
  "closedWals env wm = filter (\<lambda>fn. sm_empty (wm_buffers wm) \<or> \<not> wal_in_use fn wm) (wal_files_all env wm)"

definition drop_old_if_needed :: "WalEnv \<Rightarrow> WALManager \<Rightarrow> WALManager" where
  "drop_old_if_needed env wm =
    (if we_strategy_is_wal env then wm
     else fold (\<lambda>f w. if wal_in_use f w then w else dropFile env f w) (wal_files_all env wm) wm)"

definition setDownlevel :: "WalEnv \<Rightarrow> string list \<Rightarrow> WALManager \<Rightarrow> WALManager" where
  "setDownlevel env log wm = drop_old_if_needed env (wm\<lparr>wm_down := Some log\<rparr>)"

section \<open>Construction\<close>

text \<open>A file without values is erased, and the null pointer left is dereferenced.\<close>

fun wm_open_files :: "WalEnv \<Rightarrow> WalFileDescription list \<Rightarrow> WALManager \<Rightarrow> WALManager option" where
  "wm_open_files env [] wm = Some wm"
| "wm_open_files env (fd # fds) wm = (
     let full_filename = we_path env (wd_fname fd); p = WALFile_open full_filename False (wm_disk wm) in
     if wf_writed p = 0 then None
     else do {
       (mm, p1) \<leftarrow> file_minmax p (wm_disk wm);
       let wm1 = wm\<lparr>wm_file2minmax := (wm_file2minmax wm)(full_filename \<mapsto> mm)\<rparr> in
       if WALFile_writed full_filename (wm_disk wm1) \<noteq> we_wal_file_size env then do {
         i \<leftarrow> id_from_first p1 (wm_disk wm1);
         wm_open_files env fds (wm1\<lparr>wm_buffers := sm_insert jenkins_one_hash None (wm_buffers wm1) i
           (Some (BufferDescription_new (Some p1) (we_wal_cache_size env)))\<rparr>) }
       else wm_open_files env fds wm1 })"

definition WALManager_new :: "WalEnv \<Rightarrow> bool \<Rightarrow> Disk \<Rightarrow> WALManager option" where
  "WALManager_new env path_exists d = (
     let wm = \<lparr>wm_down = None, wm_buffers = sm_new sm_default_n, wm_files_send_to_drop = [], wm_file2minmax = Map.empty, wm_disk = d\<rparr>
     in if path_exists then wm_open_files env (wal_list (dk_manifest d)) wm else Some wm)"

section \<open>Appending and flushing\<close>

definition create_new :: "WalEnv \<Rightarrow> BufferDescription \<Rightarrow> Id \<Rightarrow> WALManager \<Rightarrow> (BufferDescription \<times> WALManager) option" where
  "create_new env bd i wm = do {
     wm1 \<leftarrow> (case bd_walfile bd of
        None \<Rightarrow> Some wm
      | Some walfile_ptr \<Rightarrow> do {
          (mm, p1) \<leftarrow> file_minmax walfile_ptr (wm_disk wm);
          let f = wf_filename walfile_ptr; w = wm\<lparr>wm_file2minmax := (wm_file2minmax wm)(f \<mapsto> mm)\<rparr> in
          Some (if we_strategy_is_wal env then w else dropFile env f w) });
     let (result, d) = WALFile_create env i (wm_disk wm1) in
     Some (bd\<lparr>bd_walfile := Some result\<rparr>, wm1\<lparr>wm_disk := d\<rparr>) }"

text \<open>The loop of \<^verbatim>\<open>flush_buffer_logic\<close>; \<^term>\<open>None\<close> also if it does not end.  \<^verbatim>\<open>WALFile::append\<close> of a range fails only
  with \<^verbatim>\<open>wal_file_limit\<close>.\<close>

partial_function (option) flush_loop :: "WalEnv \<Rightarrow> Id \<Rightarrow> nat \<Rightarrow> nat \<Rightarrow> BufferDescription \<Rightarrow> WALManager \<Rightarrow> (BufferDescription \<times> WALManager) option" where
  "flush_loop env i pos total_writed bd wm = do {
     file \<leftarrow> bd_walfile bd;
     (res, file1, d1) \<leftarrow> WALFile_append_range env file (drop pos (bd_values bd)) (wm_disk wm);
     let total1 = total_writed + unat (st_writed res);
         bd1 = bd\<lparr>bd_walfile := Some file1\<rparr>; wm1 = wm\<lparr>wm_disk := d1\<rparr> in do {
     (bd2, wm2) \<leftarrow> (if st_error res = wal_file_limit then create_new env bd1 i wm1 else Some (bd1, wm1));
     if total1 \<noteq> bd_pos bd2 then flush_loop env i (pos + unat (st_writed res)) total1 bd2 wm2
     else Some (bd2\<lparr>bd_pos := 0\<rparr>, wm2) } }"

definition flush_buffer_logic :: "WalEnv \<Rightarrow> BufferDescription \<Rightarrow> WALManager \<Rightarrow> (BufferDescription \<times> WALManager) option" where
  "flush_buffer_logic env bd wm =
    (if bd_pos bd = 0 then Some (bd, wm)
     else case bd_buffer bd of [] \<Rightarrow> None | front # _ \<Rightarrow> do {
       (bd1, wm1) \<leftarrow> (if bd_walfile bd = None then create_new env bd (m_id front) wm else Some (bd, wm));
       flush_loop env (m_id front) 0 0 bd1 wm1 })"

definition WALManager_append :: "WalEnv \<Rightarrow> Meas \<Rightarrow> WALManager \<Rightarrow> (Status \<times> WALManager) option" where
  "WALManager_append env value wm = (
     let (m1, it) = sm_find_bucket jenkins_one_hash None (wm_buffers wm) (m_id value) in
     case sm_at m1 it of
       None \<Rightarrow>
         if we_wal_cache_size env = 0 then None
         else Some (Status_writed 1, wm\<lparr>wm_buffers := sm_put m1 it (Some
           ((BufferDescription_new None (we_wal_cache_size env))\<lparr>bd_buffer := (replicate (we_wal_cache_size env) Meas_empty)[0 := value], bd_pos := 1\<rparr>))\<rparr>)
     | Some bd \<Rightarrow>
         if length (bd_buffer bd) \<le> bd_pos bd then None
         else do {
           let bd1 = bd\<lparr>bd_buffer := (bd_buffer bd)[bd_pos bd := value], bd_pos := Suc (bd_pos bd)\<rparr>;
               wm1 = wm\<lparr>wm_buffers := m1\<rparr> in do {
           (bd2, wm2) \<leftarrow> (if we_wal_cache_size env \<le> bd_pos bd1 then flush_buffer_logic env bd1 wm1 else Some (bd1, wm1));
           Some (Status_writed 1, wm_set_buffer (m_id value) bd2 wm2) }})"

definition flush_id :: "WalEnv \<Rightarrow> Id \<Rightarrow> WALManager \<Rightarrow> WALManager option" where
  "flush_id env i wm = (case wm_find wm i of
     None \<Rightarrow> Some wm
   | Some out \<Rightarrow> do {
       bd \<leftarrow> out;
       if bd_pos bd \<noteq> 0 then do { (bd1, wm1) \<leftarrow> flush_buffer_logic env bd wm; Some (wm_set_buffer i bd1 wm1) }
       else Some wm })"

definition WALManager_flush :: "WalEnv \<Rightarrow> WALManager \<Rightarrow> WALManager option" where
  "WALManager_flush env wm = fold (\<lambda>i acc. do { w \<leftarrow> acc; flush_id env i w }) (map fst (sm_items (wm_buffers wm))) (Some wm)"

definition dropAll :: "WalEnv \<Rightarrow> WALManager \<Rightarrow> WALManager option" where
  "dropAll env wm =
    (if wm_down wm = None then Some wm
     else do {
       wm1 \<leftarrow> WALManager_flush env wm;
       let wm2 = sm_apply (\<lambda>kv w. case snd kv of
               Some bd \<Rightarrow> (case bd_walfile bd of Some f \<Rightarrow> dropFile env (wf_filename f) w | None \<Rightarrow> w)
             | None \<Rightarrow> w) (wm_buffers wm1) wm1;
           wm3 = wm2\<lparr>wm_buffers := sm_clear (wm_buffers wm2)\<rparr> in
       Some (fold (dropFile env) (wal_files_all env wm3) wm3) })"

section \<open>Queries\<close>

text \<open>A loop over the names of files; a file that cannot be read ends it.\<close>

fun wal_files_loop :: "(WALFile \<Rightarrow> 's \<Rightarrow> 's option) \<Rightarrow> Disk \<Rightarrow> string list \<Rightarrow> 's \<Rightarrow> 's option" where
  "wal_files_loop func d [] s = Some s"
| "wal_files_loop func d (filename # files) s = do { s1 \<leftarrow> func (WALFile_open filename True d) s; wal_files_loop func d files s1 }"

text \<open>A loop over the buffered values; a null buffer is dereferenced.\<close>

definition wm_buffered :: "WALManager \<Rightarrow> Meas list option" where
  "wm_buffered wm = sm_apply (\<lambda>kv acc. do { vs \<leftarrow> acc; bd \<leftarrow> snd kv; Some (vs @ bd_values bd) }) (wm_buffers wm) (Some [])"

definition wm_buffered_id :: "WALManager \<Rightarrow> Id \<Rightarrow> Meas list option" where
  "wm_buffered_id wm i = (case wm_find wm i of None \<Rightarrow> Some [] | Some out \<Rightarrow> do { bd \<leftarrow> out; Some (bd_values bd) })"

definition WALManager_minTime :: "WalEnv \<Rightarrow> WALManager \<Rightarrow> Time option" where
  "WALManager_minTime env wm = do {
     result \<leftarrow> wal_files_loop (\<lambda>wal result. do { local \<leftarrow> WALFile_minTime wal (wm_disk wm); Some (min local result) })
       (wm_disk wm) (wal_files_all env wm) MAX_TIME;
     vs \<leftarrow> wm_buffered wm;
     Some (fold (\<lambda>v result. min (m_time v) result) vs result) }"

definition WALManager_maxTime :: "WalEnv \<Rightarrow> WALManager \<Rightarrow> Time option" where
  "WALManager_maxTime env wm = do {
     result \<leftarrow> wal_files_loop (\<lambda>wal result. do { local \<leftarrow> WALFile_maxTime wal (wm_disk wm); Some (max local result) })
       (wm_disk wm) (wal_files_all env wm) MIN_TIME;
     vs \<leftarrow> wm_buffered wm;
     Some (fold (\<lambda>v result. max (m_time v) result) vs result) }"

definition WALManager_minMaxTime :: "WalEnv \<Rightarrow> Id \<Rightarrow> WALManager \<Rightarrow> (bool \<times> Time \<times> Time) option" where
  "WALManager_minMaxTime env i wm = do {
     sub \<leftarrow> wal_files_loop (\<lambda>wal (res, mn, mx). do {
         (r, lmin, lmax) \<leftarrow> WALFile_minMaxTime wal i (wm_disk wm);
         Some (if r then (True, min lmin mn, max lmax mx) else (res, mn, mx)) })
       (wm_disk wm) (wal_files env i wm) (False, MAX_TIME, MIN_TIME);
     vs \<leftarrow> wm_buffered_id wm i;
     Some (fold (\<lambda>v (res, mn, mx). (True, min (m_time v) mn, max (m_time v) mx)) vs sub) }"

definition file_in_query :: "WALManager \<Rightarrow> string \<Rightarrow> QueryInterval \<Rightarrow> bool" where
  "file_in_query wm filename q = (case wm_file2minmax wm filename of
     None \<Rightarrow> True
   | Some mm \<Rightarrow>
       (inInterval (tm_minTime mm) (tm_maxTime mm) (q_from q) \<or> inInterval (tm_minTime mm) (tm_maxTime mm) (q_to q) \<or>
        inInterval (q_from q) (q_to q) (tm_minTime mm) \<or> inInterval (q_from q) (q_to q) (tm_maxTime mm)) \<and>
       list_ex (\<lambda>i. bloom_check (ucast (tm_bloom_id mm)) i) (q_ids q))"

definition file_in_query_point :: "WALManager \<Rightarrow> string \<Rightarrow> QueryTimePoint \<Rightarrow> bool" where
  "file_in_query_point wm filename q = (case wm_file2minmax wm filename of
     None \<Rightarrow> True
   | Some mm \<Rightarrow> \<not> tm_minTime mm > q_time_point q \<and> list_ex (\<lambda>i. bloom_check (ucast (tm_bloom_id mm)) i) (q_ids q))"

text \<open>\<^verbatim>\<open>readers_list[id].push_back(reader)\<close>.\<close>

fun push_reader :: "Id \<times> cursor \<Rightarrow> (Id \<times> cursor list) list \<Rightarrow> (Id \<times> cursor list) list" where
  "push_reader (i, c) [] = [(i, [c])]"
| "push_reader (i, c) ((j, cs) # rs) = (if i = j then (j, cs @ [c]) # rs else (j, cs) # push_reader (i, c) rs)"

definition intervalReader_async_logic :: "WALManager \<Rightarrow> string list \<Rightarrow> QueryInterval \<Rightarrow> (Id \<times> cursor list) list \<Rightarrow> (Id \<times> cursor list) list option" where
  "intervalReader_async_logic wm files q readers_list =
    wal_files_loop (\<lambda>wal rl. do { rdr_map \<leftarrow> WALFile_intervalReader wal q (wm_disk wm); Some (fold push_reader rdr_map rl) })
      (wm_disk wm) (filter (\<lambda>filename. file_in_query wm filename q) files) readers_list"

fun wm_ids_loop :: "(Id \<Rightarrow> 's \<Rightarrow> 's option) \<Rightarrow> Id list \<Rightarrow> 's \<Rightarrow> 's option" where
  "wm_ids_loop func [] s = Some s"
| "wm_ids_loop func (i # ids) s = do { s1 \<leftarrow> func i s; wm_ids_loop func ids s1 }"

definition WALManager_intervalReader :: "WalEnv \<Rightarrow> QueryInterval \<Rightarrow> WALManager \<Rightarrow> (Id \<times> cursor) list option" where
  "WALManager_intervalReader env q wm = do {
     readers_list \<leftarrow> wm_ids_loop (\<lambda>i rl. intervalReader_async_logic wm (wal_files env i wm) (q\<lparr>q_ids := [i]\<rparr>) rl) (q_ids q) [];
     i2ms \<leftarrow> wm_ids_loop (\<lambda>i ms. do {
         vs \<leftarrow> wm_buffered_id wm i;
         Some (fold (\<lambda>v ms. if inQueryInterval v (q_ids q) (q_flag q) (q_from q) (q_to q) then mset_insert v ms else ms) vs ms) })
       (q_ids q) [];
     colapseCursors_by_id (fold push_reader (mset_readers i2ms) readers_list) }"

definition WALManager_stat :: "WalEnv \<Rightarrow> Id \<Rightarrow> Time \<Rightarrow> Time \<Rightarrow> WALManager \<Rightarrow> Statistic option" where
  "WALManager_stat env i from to wm = (
     let qi = \<lparr>q_ids = [i], q_flag = 0, q_from = from, q_to = to, q_step = 0\<rparr> in do {
     result \<leftarrow> wal_files_loop (\<lambda>wal result. do { st \<leftarrow> WALFile_stat wal i from to (wm_disk wm); Some (stat_update_stat result st) })
       (wm_disk wm) (filter (\<lambda>filename. file_in_query wm filename qi) (wal_files env i wm)) Statistic_empty;
     vs \<leftarrow> wm_buffered_id wm i;
     Some (fold (\<lambda>v result. if inInterval from to (m_time v) then stat_update result v else result) vs result) })"

definition WALManager_foreach :: "('s \<Rightarrow> bool) \<Rightarrow> (Meas \<Rightarrow> 's \<Rightarrow> 's) \<Rightarrow> WalEnv \<Rightarrow> QueryInterval \<Rightarrow> WALManager \<Rightarrow> 's \<Rightarrow> 's option" where
  "WALManager_foreach is_canceled clbk env q wm s = do {
     reader \<leftarrow> WALManager_intervalReader env q wm; apply_readers is_canceled clbk reader s }"

text \<open>The results of the files, one by one: a value without data is replaced.\<close>

definition merge_point :: "(Id \<rightharpoonup> Meas) \<Rightarrow> (Id \<rightharpoonup> Meas) \<Rightarrow> (Id \<rightharpoonup> Meas)" where
  "merge_point out sub_result = (\<lambda>i. case out i of
     None \<Rightarrow> sub_result i
   | Some v \<Rightarrow> (case sub_result i of None \<Rightarrow> Some v | Some r \<Rightarrow> Some (if m_flag r = NO_DATA then v else r)))"

text \<open>A buffered value.\<close>

definition buffer_point :: "QueryTimePoint \<Rightarrow> Meas \<Rightarrow> (Id \<rightharpoonup> Meas) \<Rightarrow> (Id \<rightharpoonup> Meas)" where
  "buffer_point q v sub_result =
    (if inQuery v (q_ids q) (q_flag q) then
       (case sub_result (m_id v) of
          None \<Rightarrow> sub_result(m_id v \<mapsto> v)
        | Some r \<Rightarrow> if m_flag v = NO_DATA \<or> m_time v > m_time r \<and> m_time v \<le> q_time_point q then sub_result(m_id v \<mapsto> v) else sub_result)
     else sub_result)"

definition WALManager_readTimePoint :: "WalEnv \<Rightarrow> QueryTimePoint \<Rightarrow> WALManager \<Rightarrow> (Id \<rightharpoonup> Meas) option" where
  "WALManager_readTimePoint env q wm = do {
     results \<leftarrow> wm_ids_loop (\<lambda>i results. let local_q = q\<lparr>q_ids := [i]\<rparr> in
         wal_files_loop (\<lambda>wal results. do { r \<leftarrow> WALFile_readTimePoint wal local_q (wm_disk wm); Some (results @ [r]) })
           (wm_disk wm) (filter (\<lambda>filename. file_in_query_point wm filename local_q) (wal_files env i wm)) results)
       (q_ids q) [];
     sub_result \<leftarrow> wm_ids_loop (\<lambda>i s. do { vs \<leftarrow> wm_buffered_id wm i; Some (fold (buffer_point q) vs s) })
       (q_ids q) (fold merge_point results Map.empty);
     Some (fold (\<lambda>i s. if s i = None then s(i \<mapsto> Meas_empty\<lparr>m_flag := NO_DATA, m_time := q_time_point q\<rparr>) else s)
       (q_ids q) sub_result) }"

definition merge_current :: "(Id \<rightharpoonup> Meas) \<Rightarrow> (Id \<rightharpoonup> Meas) \<Rightarrow> (Id \<rightharpoonup> Meas)" where
  "merge_current sub_rdr meases = (\<lambda>i. case sub_rdr i of
     None \<Rightarrow> meases i
   | Some v \<Rightarrow> (case meases i of None \<Rightarrow> Some v
       | Some r \<Rightarrow> Some (if m_flag r = NO_DATA \<or> m_time r < m_time v then v else r)))"

definition WALManager_currentValue :: "WalEnv \<Rightarrow> Id list \<Rightarrow> Flag \<Rightarrow> WALManager \<Rightarrow> (Id \<rightharpoonup> Meas) option" where
  "WALManager_currentValue env ids flag wm =
    wm_ids_loop (\<lambda>i meases.
      wal_files_loop (\<lambda>c meases. do { sub_rdr \<leftarrow> WALFile_currentValue c ids flag (wm_disk wm); Some (merge_current sub_rdr meases) })
        (wm_disk wm) (wal_files env i wm) meases) ids Map.empty"

definition WALManager_loadMinMax :: "WalEnv \<Rightarrow> WALManager \<Rightarrow> Id2MinMax option" where
  "WALManager_loadMinMax env wm = do {
     result \<leftarrow> wal_files_loop (\<lambda>c result. do { sub_res \<leftarrow> WALFile_loadMinMax c (wm_disk wm); Some (minmax_append result sub_res) })
       (wm_disk wm) (wal_files_all env wm) (sm_new sm_default_n);
     vs \<leftarrow> wm_buffered wm;
     Some (fold minmax_value vs result) }"

end
