(* ===== verification/StorageCorrect.thy ===== *)
theory StorageCorrect
  imports MemStorage
begin

text \<open>The memory storage as a map from ids to lists of values: what \<^verbatim>\<open>append\<close> does to it, what the
  queries read from it, and what the dropping thread and \<^verbatim>\<open>stop\<close> take away from it.\<close>

section \<open>Writes through the pointer of a cell\<close>

lemma chain_find_write:
  "chain_find j (map (\<lambda>c. if cell_key c = k then Bucket (cell_hash c) k v else c) b) =
    (if j = k then map_option (\<lambda>_. v) (chain_find k b) else chain_find j b)"
  by (induction b) auto

lemma sm_find_write:
  assumes "sm_ok hasher m"
  shows "sm_find hasher (sm_write k v m) = (\<lambda>j. if j = k then map_option (\<lambda>_. v) (sm_find hasher m k) else sm_find hasher m j)"
proof
  fix j
  have "hasher j mod sm_N m < length (sm_buckets m)" using assms by (auto simp: sm_ok_def buckets_ok_def)
  then show "sm_find hasher (sm_write k v m) j =
      (if j = k then map_option (\<lambda>_. v) (sm_find hasher m k) else sm_find hasher m j)"
    by (simp add: sm_find_def sm_write_def chain_find_write)
qed

lemma sm_write_ok:
  assumes "sm_ok hasher m"
  shows "sm_ok hasher (sm_write k v m)"
proof -
  let ?f = "\<lambda>c. if cell_key c = k then Bucket (cell_hash c) k v else c"
  have keys: "map cell_key (map ?f b) = map cell_key b" for b by simp
  have len: "length (concat (map (map ?f) bs)) = length (concat bs)" for bs by (induction bs) auto
  have b: "buckets_ok hasher (sm_N m) (sm_buckets m)" using assms by (simp add: sm_ok_def)
  have "buckets_ok hasher (sm_N m) (map (map ?f) (sm_buckets m))"
    unfolding buckets_ok_def
  proof (intro conjI allI impI ballI)
    show l: "length (map (map ?f) (sm_buckets m)) = sm_N m" using b by (simp add: buckets_ok_def)
    fix i assume i: "i < sm_N m"
    have e: "map (map ?f) (sm_buckets m) ! i = map ?f (sm_buckets m ! i)" using i l by simp
    show "chain_ok (map (map ?f) (sm_buckets m) ! i)"
      unfolding e using chain_ok_keys [OF keys] buckets_okD(1) [OF b i] by blast
    fix c assume "c \<in> set (map (map ?f) (sm_buckets m) ! i)"
    then obtain d where "d \<in> set (sm_buckets m ! i)" "c = ?f d" unfolding e by auto
    then show "cell_hash c = hasher (cell_key c)" "hasher (cell_key c) mod sm_N m = i"
      using buckets_okD(2,3) [OF b i, of d] by auto
  qed
  then show ?thesis using assms len by (simp add: sm_ok_def sm_write_def)
qed

lemma sm_write_items: "map fst (sm_items (sm_write k v m)) = map fst (sm_items m)"
  by (simp add: sm_items_def sm_write_def map_concat comp_def if_distrib cong: if_cong)

section \<open>Tracks of the storage\<close>

text \<open>The storage holds the values \<open>f i\<close> for every id \<open>i\<close>.\<close>

definition track_rep :: "Id \<Rightarrow> TimeTrack \<Rightarrow> Meas list \<Rightarrow> bool" where
  "track_rep i tr vs \<longleftrightarrow> tt_meas_id tr = i \<and> (\<exists>vss vc. tt_rep tr vss vc \<and> concat vss @ vc = vs)"

definition entry_rep :: "Id \<Rightarrow> TimeTrack option option \<Rightarrow> Meas list \<Rightarrow> bool" where
  "entry_rep i e vs = (case e of None \<Rightarrow> vs = [] | Some output \<Rightarrow> (\<exists>tr. output = Some tr \<and> track_rep i tr vs))"

definition ms_rep :: "MemStorage \<Rightarrow> (Id \<Rightarrow> Meas list) \<Rightarrow> bool" where
  "ms_rep ms f \<longleftrightarrow> sm_ok jenkins_one_hash (ms_id2track ms) \<and> (\<forall>i. entry_rep i (ms_find ms i) (f i))"

lemma entry_rep_simps [simp]:
  "entry_rep i None vs = (vs = [])" "entry_rep i (Some (Some tr)) vs = track_rep i tr vs" "\<not> entry_rep i (Some None) vs"
  by (simp_all add: entry_rep_def)

lemma ms_rep_find:
  assumes "ms_rep ms f"
  obtains "ms_find ms i = None" "f i = []" | tr where "ms_find ms i = Some (Some tr)" "track_rep i tr (f i)"
  using assms unfolding ms_rep_def by (cases "ms_find ms i" rule: option.exhaust [of _ thesis]) (metis entry_rep_simps option.exhaust)+

lemma ms_find_fields [simp]:
  "ms_find (ms\<lparr>ms_pool := w\<rparr>) = ms_find ms" "ms_find (ms\<lparr>ms_disk_storage := d\<rparr>) = ms_find ms"
  by (simp_all add: ms_find_def fun_eq_iff)

lemma ms_rep_fields [simp]:
  "ms_rep (ms\<lparr>ms_pool := w\<rparr>) f = ms_rep ms f" "ms_rep (ms\<lparr>ms_disk_storage := d\<rparr>) f = ms_rep ms f"
  by (simp_all add: ms_rep_def)

lemma ms_find_set_track:
  assumes "sm_ok jenkins_one_hash (ms_id2track ms)" "ms_find ms i \<noteq> None"
  shows "ms_find (ms_set_track i tr ms) = (ms_find ms)(i \<mapsto> Some tr)"
  using assms sm_find_write [OF assms(1), of i "Some tr"] by (auto simp: ms_find_def ms_set_track_def fun_eq_iff)

lemma ms_rep_set_track:
  assumes "ms_rep ms f" "ms_find ms i \<noteq> None" "track_rep i tr vs"
  shows "ms_rep (ms_set_track i tr ms) (f(i := vs))"
proof -
  have ok: "sm_ok jenkins_one_hash (ms_id2track ms)" using assms(1) by (simp add: ms_rep_def)
  show ?thesis
    using assms sm_write_ok [OF ok, of i "Some tr"] unfolding ms_rep_def ms_find_set_track [OF ok assms(2)]
    by (simp add: ms_set_track_def)
qed

lemma append_track_fields [simp]:
  "ms_pool (append_track v ms) = ms_pool ms" "ms_settings (append_track v ms) = ms_settings ms"
  "ms_disk_storage (append_track v ms) = ms_disk_storage ms" "ms_drop_stop (append_track v ms) = ms_drop_stop ms"
  by (cases "sm_find_bucket jenkins_one_hash None (ms_id2track ms) (m_id v)";
      simp add: append_track_def split: option.split)+

lemma append_track_find:
  assumes ok: "sm_ok jenkins_one_hash (ms_id2track ms)" and nn: "ms_find ms (m_id v) \<noteq> Some None"
  shows "ms_find (append_track v ms) =
      (if ms_find ms (m_id v) = None then (ms_find ms)(m_id v \<mapsto> Some (TimeTrack_new 0 (m_id v))) else ms_find ms)"
    "sm_ok jenkins_one_hash (ms_id2track (append_track v ms))"
proof -
  let ?h = "jenkins_one_hash :: Id \<Rightarrow> nat"
  obtain m1 it where fb: "sm_find_bucket ?h None (ms_id2track ms) (m_id v) = (m1, it)"
    by (cases "sm_find_bucket ?h None (ms_id2track ms) (m_id v)")
  note f1 = sm_find_bucket_ok [OF ok fb]
  have ok1: "sm_ok ?h m1" and pl: "sm_place ?h m1 it (m_id v)" using f1 by simp_all
  have find1: "sm_find ?h m1 = (ms_find ms)(m_id v \<mapsto> case ms_find ms (m_id v) of None \<Rightarrow> None | Some x \<Rightarrow> x)"
    using f1 by (simp add: ms_find_def fun_eq_iff)
  have at: "sm_at m1 it = (case ms_find ms (m_id v) of None \<Rightarrow> None | Some x \<Rightarrow> x)"
    using sm_place_at [OF ok1 pl] find1 by simp
  note put = sm_put_ok [OF ok1 pl, of "Some (TimeTrack_new 0 (m_id v))"]
  have "ms_find (append_track v ms) =
      (if ms_find ms (m_id v) = None then (ms_find ms)(m_id v \<mapsto> Some (TimeTrack_new 0 (m_id v))) else ms_find ms) \<and>
    sm_ok ?h (ms_id2track (append_track v ms))"
  proof (cases "ms_find ms (m_id v)")
    case None
    then have e: "ms_id2track (append_track v ms) = sm_put m1 it (Some (TimeTrack_new 0 (m_id v)))"
      using at fb by (simp add: append_track_def)
    show ?thesis using None put find1 by (simp add: ms_find_def [abs_def] e fun_eq_iff)
  next
    case (Some x)
    then obtain tr where x: "x = Some tr" using nn by (cases x) auto
    then have e: "ms_id2track (append_track v ms) = m1" using at fb Some by (simp add: append_track_def)
    show ?thesis using Some ok1 find1 by (simp add: ms_find_def [abs_def] e fun_eq_iff)
  qed
  then show "ms_find (append_track v ms) =
      (if ms_find ms (m_id v) = None then (ms_find ms)(m_id v \<mapsto> Some (TimeTrack_new 0 (m_id v))) else ms_find ms)"
    "sm_ok ?h (ms_id2track (append_track v ms))" by simp_all
qed

lemma track_rep_new: "track_rep i (TimeTrack_new 0 i) []"
  using tt_rep_new [of 0 i] by (auto simp: track_rep_def TimeTrack_new_def intro: exI [of _ "[]"])

lemma append_track_rep:
  assumes "ms_rep ms f"
  shows "ms_rep (append_track v ms) f" "ms_track (append_track v ms) (m_id v) \<noteq> None"
proof -
  have e: "entry_rep i (ms_find ms i) (f i)" for i using assms by (simp add: ms_rep_def)
  have nn: "ms_find ms (m_id v) \<noteq> Some None" using e [of "m_id v"] by auto
  have "sm_ok jenkins_one_hash (ms_id2track ms)" using assms by (simp add: ms_rep_def)
  note find = append_track_find [OF this nn]
  have "entry_rep i (ms_find (append_track v ms) i) (f i)" for i
  proof (cases "i = m_id v \<and> ms_find ms i = None")
    case True
    then have i: "i = m_id v" "ms_find ms (m_id v) = None" by auto
    have "f (m_id v) = []" using e [of "m_id v"] unfolding i by simp
    then show ?thesis using track_rep_new i by (simp add: find(1))
  next
    case False
    then have "ms_find (append_track v ms) i = ms_find ms i" by (auto simp: find(1))
    then show ?thesis using e [of i] by simp
  qed
  then show "ms_rep (append_track v ms) f" using find(2) by (simp add: ms_rep_def)
  show "ms_track (append_track v ms) (m_id v) \<noteq> None"
    using nn by (cases "ms_find ms (m_id v)") (auto simp: ms_track_def find(1))
qed

section \<open>Appending\<close>

lemma append_attempt_unlimited:
  assumes rep: "ms_rep ms f" "ms_track ms (m_id v) \<noteq> None"
    and w: "pool_unlimited (ms_pool ms)" "0 < al_chunkSize (mp_allocator (ms_pool ms))"
    and v: "time_strict (f (m_id v) @ [v])" "below_max (f (m_id v) @ [v])" "codec_ok (f (m_id v) @ [v])"
  shows "\<exists>ms'. append_attempt v ms = Some (Some (Returned (Status_writed 1)), ms') \<and> ms_rep ms' (f(m_id v := f (m_id v) @ [v])) \<and>
    pool_unlimited (ms_pool ms') \<and> al_chunkSize (mp_allocator (ms_pool ms')) = al_chunkSize (mp_allocator (ms_pool ms)) \<and>
    ms_disk_storage ms' = map_option (\<lambda>log. log @ [v]) (ms_disk_storage ms)"
proof -
  obtain tr where tr: "ms_find ms (m_id v) = Some (Some tr)" "track_rep (m_id v) tr (f (m_id v))"
    by (rule ms_rep_find [OF rep(1), of "m_id v"]) (use rep(2) in \<open>simp add: ms_track_def\<close>)
  then obtain vss vc where t: "tt_rep tr vss vc" "concat vss @ vc = f (m_id v)" "tt_meas_id tr = m_id v"
    by (auto simp: track_rep_def)
  have v': "time_strict ((concat vss @ vc) @ v # [])" "below_max ((concat vss @ vc) @ v # [])" "codec_ok ((concat vss @ vc) @ v # [])"
    using v t(2) by simp_all
  obtain st tr1 w1 vss1 vc1 where b: "TimeTrack_append tr v (ms_pool ms) = Some (Returned st, tr1, w1)" "tt_rep tr1 vss1 vc1"
    "tt_meas_id tr1 = tt_meas_id tr"
    "al_chunkSize (mp_allocator w1) = al_chunkSize (mp_allocator (ms_pool ms))" "pool_unlimited w1 = pool_unlimited (ms_pool ms)"
    "st = Status_writed 1 \<and> concat vss1 @ vc1 = (concat vss @ vc) @ [v] \<or>
     st_error st = bad_alloc \<and> \<not> pool_unlimited (ms_pool ms) \<and> fst (allocate (mp_allocator (ms_pool ms))) = None \<and> concat vss1 @ vc1 = concat vss @ vc"
    by (rule append_one [OF t(1) v' w(2)])
  then have a: "st = Status_writed 1" "concat vss1 @ vc1 = f (m_id v) @ [v]" using w(1) t(2) by simp_all
  have tr1: "track_rep (m_id v) tr1 (f (m_id v) @ [v])" using a(2) b(2,3) t(3) by (auto simp: track_rep_def)
  then have tr2: "track_rep (m_id v) (tr1\<lparr>tt_max_sync_time := m_time v\<rparr>) (f (m_id v) @ [v])" by (simp add: track_rep_def tt_rep_def)
  define ms1 where "ms1 = ms_set_track (m_id v) tr1 (ms\<lparr>ms_pool := w1\<rparr>)"
  have r0: "ms_rep (ms\<lparr>ms_pool := w1\<rparr>) f" "ms_find (ms\<lparr>ms_pool := w1\<rparr>) (m_id v) \<noteq> None" using rep(1) tr(1) by simp_all
  have r1: "ms_rep ms1 (f(m_id v := f (m_id v) @ [v]))" unfolding ms1_def by (rule ms_rep_set_track [OF r0 tr1])
  have f1: "ms_pool ms1 = w1" "ms_disk_storage ms1 = ms_disk_storage ms" by (simp_all add: ms1_def ms_set_track_def)
  have at: "append_attempt v ms = Some (Some (Returned (Status_writed 1)), append_disk v tr1 ms1)"
    using tr(1) a(1) b(1) by (simp add: append_attempt_def ms_track_def ms1_def Status_eq_def)
  show ?thesis
  proof (cases "ms_disk_storage ms")
    case None
    then show ?thesis using at r1 b(4,5) w f1 by (simp add: append_disk_def)
  next
    case (Some log)
    have "sm_ok jenkins_one_hash (ms_id2track (ms\<lparr>ms_pool := w1\<rparr>))" using rep(1) by (simp add: ms_rep_def)
    then have "ms_find ms1 (m_id v) \<noteq> None" using ms_find_set_track [OF _ r0(2), of tr1] by (simp add: ms1_def)
    then have "ms_rep (append_disk v tr1 ms1) (f(m_id v := f (m_id v) @ [v]))"
      using ms_rep_set_track [of "ms1\<lparr>ms_disk_storage := Some (log @ [v])\<rparr>" "f(m_id v := f (m_id v) @ [v])" "m_id v", OF _ _ tr2] r1 Some f1
      by (simp add: append_disk_def)
    then show ?thesis using at b(4,5) w Some f1 by (simp add: append_disk_def ms_set_track_def)
  qed
qed

text \<open>A sequence of calls of \<^verbatim>\<open>append\<close>, each of which returns in its first pass and reports one written
  value.\<close>

fun MemStorage_append_list :: "Meas list \<Rightarrow> MemStorage \<Rightarrow> MemStorage option" where
  "MemStorage_append_list [] ms = Some ms"
| "MemStorage_append_list (v # vs) ms = do {
     (r, ms1) \<leftarrow> MemStorage_append v ms;
     if r = Some (Returned (Status_writed 1)) then MemStorage_append_list vs ms1 else None }"

definition of_id :: "Id \<Rightarrow> Meas list \<Rightarrow> Meas list" where
  "of_id i vs = filter (\<lambda>v. m_id v = i) vs"

definition series_ok :: "Meas list \<Rightarrow> bool" where
  "series_ok vs \<longleftrightarrow> time_strict vs \<and> below_max vs \<and> codec_ok vs"

lemma codec_ok_prefix: "codec_ok (xs @ ys) \<Longrightarrow> codec_ok xs"
  by (induction xs) (auto simp: valid_list_append)

lemma series_ok_prefix: "series_ok (xs @ ys) \<Longrightarrow> series_ok xs"
  by (auto simp: series_ok_def time_strict_append below_max_def dest: codec_ok_prefix)

lemma append_list_rep_storage:
  assumes "ms_rep ms f" "pool_unlimited (ms_pool ms)" "0 < al_chunkSize (mp_allocator (ms_pool ms))"
    "\<And>i. series_ok (f i @ of_id i vs)"
  shows "\<exists>ms'. MemStorage_append_list vs ms = Some ms' \<and> ms_rep ms' (\<lambda>i. f i @ of_id i vs) \<and>
    ms_disk_storage ms' = map_option (\<lambda>log. log @ vs) (ms_disk_storage ms)"
  using assms
proof (induction vs arbitrary: ms f)
  case Nil
  then show ?case by (cases "ms_disk_storage ms") (simp_all add: of_id_def)
next
  case (Cons v vs)
  have v: "series_ok (f (m_id v) @ [v])"
    using series_ok_prefix [of "f (m_id v) @ [v]"] Cons.prems(4) [of "m_id v"] by (simp add: of_id_def)
  obtain ms1 where a: "MemStorage_append v ms = Some (Some (Returned (Status_writed 1)), ms1)"
    "ms_rep ms1 (f(m_id v := f (m_id v) @ [v]))" "pool_unlimited (ms_pool ms1)"
    "al_chunkSize (mp_allocator (ms_pool ms1)) = al_chunkSize (mp_allocator (ms_pool ms))"
    "ms_disk_storage ms1 = map_option (\<lambda>log. log @ [v]) (ms_disk_storage ms)"
    using append_attempt_unlimited [OF append_track_rep [OF Cons.prems(1)], of v] Cons.prems(2,3) v
    unfolding MemStorage_append_def series_ok_def by auto
  have e: "(f(m_id v := f (m_id v) @ [v])) i @ of_id i vs = f i @ of_id i (v # vs)" for i
    by (simp add: of_id_def)
  obtain ms' where "MemStorage_append_list vs ms1 = Some ms'"
    "ms_rep ms' (\<lambda>i. (f(m_id v := f (m_id v) @ [v])) i @ of_id i vs)"
    "ms_disk_storage ms' = map_option (\<lambda>log. log @ vs) (ms_disk_storage ms1)"
    using Cons.IH [OF a(2,3)] a(4) Cons.prems(3,4) unfolding e by auto
  then show ?case using a(1,5) unfolding e by (auto simp: option.map_comp comp_def)
qed

section \<open>Queries\<close>

lemma map_of_umap_set [simp]: "map_of (umap_set k v xs) = (map_of xs)(k \<mapsto> v)"
  by (induction xs) auto

lemma fst_umap_set: "map fst (umap_set k v xs) = (if k \<in> fst ` set xs then map fst xs else map fst xs @ [k])"
proof (induction xs)
  case (Cons x xs)
  then show ?case by (cases x) auto
qed simp

lemma track_reader:
  assumes "track_rep i tr vs" "\<forall>m \<in> set vs. m_time m \<le> q_to q"
  obtains "TimeTrack_intervalReader tr q = Some []" "in_interval (q_from q) (q_to q) vs = []"
  | c us where "TimeTrack_intervalReader tr q = Some [(i, c)]" "cursor_rep c us"
      "in_interval (q_from q) (q_to q) us = in_interval (q_from q) (q_to q) vs"
proof -
  obtain vss vc where t: "tt_rep tr vss vc" "concat vss @ vc = vs" "tt_meas_id tr = i" using assms(1) by (auto simp: track_rep_def)
  have all: "seen (q_to q) vss vc = vs"
    unfolding t(2) [symmetric] by (rule seen_all) (use tt_rep_parts(1) [OF t(1)] assms(2) t(2) in auto)
  obtain rs us where r: "TimeTrack_intervalReader tr q = Some rs"
    "if rs = [] then us = [] else \<exists>c. rs = [(tt_meas_id tr, c)] \<and> cursor_rep c us"
    "in_interval (q_from q) (q_to q) us = in_interval (q_from q) (q_to q) vs"
    using intervalReader_seen [OF t(1), of q] unfolding all by blast
  show thesis
  proof (cases "rs = []")
    case True
    then show thesis using that(1) r by simp
  next
    case False
    then obtain c where "rs = [(i, c)]" "cursor_rep c us" using r(2) t(3) by auto
    then show thesis using that(2) r(1,3) by blast
  qed
qed

definition readers_rep :: "QueryInterval \<Rightarrow> (Id \<Rightarrow> Meas list) \<Rightarrow> (Id \<times> cursor) list \<Rightarrow> bool" where
  "readers_rep q f rs \<longleftrightarrow> distinct (map fst rs) \<and> (\<forall>i c. map_of rs i = Some c \<longrightarrow>
     (\<exists>us. cursor_rep c us \<and> in_interval (q_from q) (q_to q) us = in_interval (q_from q) (q_to q) (f i)))"

lemma readers_rep_set:
  assumes "readers_rep q f rs" "cursor_rep c us" "in_interval (q_from q) (q_to q) us = in_interval (q_from q) (q_to q) (f i)"
  shows "readers_rep q f (umap_set i c rs)"
  using assms by (auto simp: readers_rep_def fst_umap_set)

definition readers_of :: "QueryInterval \<Rightarrow> (Id \<Rightarrow> Meas list) \<Rightarrow> Id list \<Rightarrow> (Id \<times> cursor) list \<Rightarrow> (Id \<times> cursor) list \<Rightarrow> bool" where
  "readers_of q f ids acc rs \<longleftrightarrow> readers_rep q f rs \<and> set (map fst rs) \<subseteq> set (map fst acc) \<union> set ids \<and>
     set (map fst acc) \<subseteq> set (map fst rs) \<and>
     (\<forall>i \<in> set ids. i \<notin> set (map fst rs) \<longrightarrow> in_interval (q_from q) (q_to q) (f i) = [])"

lemma readers_of_skip:
  "readers_of q f ids acc rs \<Longrightarrow> in_interval (q_from q) (q_to q) (f i) = [] \<Longrightarrow> readers_of q f (i # ids) acc rs"
  unfolding readers_of_def by (simp del: set_map) blast

lemma readers_of_set:
  assumes "readers_of q f ids (umap_set i c acc) rs"
  shows "readers_of q f (i # ids) acc rs"
proof -
  have k: "set (map fst (umap_set i c acc)) = insert i (set (map fst acc))" unfolding fst_umap_set by auto
  show ?thesis using assms unfolding readers_of_def k by (simp del: set_map)
qed

lemma ms_readers_rep:
  assumes "ms_rep ms f" "\<forall>i \<in> set ids. \<forall>m \<in> set (f i). m_time m \<le> q_to q" "readers_rep q f acc"
  shows "\<exists>rs. ms_readers ms q ids acc = Some rs \<and> readers_of q f ids acc rs"
  using assms(2,3)
proof (induction ids arbitrary: acc)
  case Nil
  then show ?case by (simp add: readers_of_def)
next
  case (Cons i ids)
  have le: "\<forall>m \<in> set (f i). m_time m \<le> q_to q" "\<forall>j \<in> set ids. \<forall>m \<in> set (f j). m_time m \<le> q_to q" using Cons.prems(1) by simp_all
  show ?case
  proof (rule ms_rep_find [OF assms(1), of i])
    assume n: "ms_find ms i = None" "f i = []"
    then show ?thesis using Cons.IH [OF le(2) Cons.prems(2)] readers_of_skip [of q f ids acc _ i] by auto
  next
    fix tr assume tr: "ms_find ms i = Some (Some tr)" "track_rep i tr (f i)"
    show ?thesis
    proof (rule track_reader [OF tr(2) le(1)])
      assume "TimeTrack_intervalReader tr q = Some []" "in_interval (q_from q) (q_to q) (f i) = []"
      then show ?thesis using Cons.IH [OF le(2) Cons.prems(2)] tr(1) readers_of_skip [of q f ids acc _ i] by auto
    next
      fix c us assume c: "TimeTrack_intervalReader tr q = Some [(i, c)]" "cursor_rep c us"
        "in_interval (q_from q) (q_to q) us = in_interval (q_from q) (q_to q) (f i)"
      obtain rs where "ms_readers ms q ids (umap_set i c acc) = Some rs" "readers_of q f ids (umap_set i c acc) rs"
        using Cons.IH [OF le(2) readers_rep_set [OF Cons.prems(2) c(2,3)]] by blast
      then show ?thesis using tr(1) c(1) readers_of_set by auto
    qed
  qed
qed

lemma foreach_loop_rep:
  assumes "readers_rep q f rs" "set ids \<subseteq> set (map fst rs)"
  shows "foreach_loop (\<lambda>_. False) clbk q rs ids s =
    Some (fold clbk (concat (map (\<lambda>i. filter (\<lambda>v. inQueryInterval v (q_ids q) (q_flag q) (q_from q) (q_to q)) (f i)) ids)) s)"
  using assms(2)
proof (induction ids arbitrary: s)
  case (Cons i ids)
  then obtain c where c: "map_of rs i = Some c" by (metis list.set_intros(1) map_of_eq_None_iff option.exhaust set_map subsetD)
  then obtain us where us: "cursor_rep c us" "in_interval (q_from q) (q_to q) us = in_interval (q_from q) (q_to q) (f i)"
    using assms(1) unfolding readers_rep_def by blast
  have "\<exists>c'. cursor_apply_query (\<lambda>_. False) clbk q c s =
      Some (fold clbk (filter (\<lambda>v. inQueryInterval v (q_ids q) (q_flag q) (q_from q) (q_to q)) (f i)) s, c')"
    using cursor_pending [OF us(1)] filter_query_interval [OF us(2), of "q_ids q" "q_flag q"]
      cursor.apply_loop_rep [OF us(1), of "Suc (pending c)" clbk
        "\<lambda>v. inQueryInterval v (q_ids q) (q_flag q) (q_from q) (q_to q)" s]
    by (fastforce simp: cursor_apply_query_def)
  then show ?case using Cons c by auto
qed simp

lemma MemStorage_new_rep: "ms_rep (MemStorage_new st n junk stack) (\<lambda>_. [])"
proof -
  let ?m = "ms_id2track (MemStorage_new st n junk stack)"
  have "sm_ok jenkins_one_hash ?m \<and> sm_find jenkins_one_hash ?m = Map.empty"
    by (auto simp: MemStorage_new_def sm_ok_def sm_new_def sm_reserve_def sm_clear_def buckets_ok_replicate sm_find_def sm_default_n_def)
  then show ?thesis by (simp add: ms_rep_def ms_find_def)
qed


definition example_settings :: MemSettings where
  "example_settings = \<lparr>set_is_memory_only_mode = True, set_memory_limit = 0, set_chunk_size = 30,
     set_percent_when_start_droping = 0x3F400000, set_percent_to_drop = 0x3DCCCCCD\<rparr>"

definition two_series :: "Meas list" where
  "two_series = concat (map (\<lambda>t. [\<lparr>m_id = 1, m_time = t, m_value = 0, m_flag = 0\<rparr>, \<lparr>m_id = 2, m_time = t, m_value = t, m_flag = 1\<rparr>])
     [10, 20, 30])"

lemma two_series_ok: "series_ok (of_id i two_series)"
proof -
  have "series_ok (of_id 1 two_series)" "series_ok (of_id 2 two_series)" unfolding series_ok_def by code_simp+
  moreover have "of_id i two_series = []" if "i \<noteq> 1" "i \<noteq> 2" using that by (simp add: of_id_def two_series_def)
  moreover have "series_ok []" by (simp add: series_ok_def time_strict_def below_max_def)
  ultimately show ?thesis by (cases "i = 1"; cases "i = 2") simp_all
qed


end
