(* ===== verification/WalCorrect.thy ===== *)
theory WalCorrect
  imports WalManager StorageCorrect
begin

text \<open>
  What is in the write-ahead log: the files as bytes and as values, the values of an id as the files of
  the manifest and the buffer hold them, and that appends and flushes keep every value in its order.
\<close>

section \<open>Bytes\<close>

lemma length_Meas_bytes [simp]: "length (Meas_bytes m) = 24"
  by (simp add: Meas_bytes_def)

lemma Meas_of_bytes_append [simp]: "Meas_of_bytes (Meas_bytes m @ bs) = m"
  by (simp add: Meas_of_bytes_def Meas_bytes_def le_word_le_bytes take_bit_word_eq_self)

lemma Meas_of_bytes_bytes [simp]: "Meas_of_bytes (Meas_bytes m) = m"
  using Meas_of_bytes_append [of m "[]"] by simp

lemma fwrite_meas_simps [simp]: "fwrite_meas [] = []" "fwrite_meas (m # ms) = Meas_bytes m @ fwrite_meas ms"
  by (simp_all add: fwrite_meas_def)

lemma fwrite_meas_append [simp]: "fwrite_meas (xs @ ys) = fwrite_meas xs @ fwrite_meas ys"
  by (simp add: fwrite_meas_def)

lemma length_fwrite_meas [simp]: "length (fwrite_meas ms) = 24 * length ms"
  by (induction ms) simp_all

lemma fread_fwrite [simp]: "fread_meas (length ms) (fwrite_meas ms) = ms"
  by (induction ms) simp_all

section \<open>Values of files\<close>

definition disk_values :: "Disk \<Rightarrow> string \<Rightarrow> Meas list" where
  "disk_values d fname = (case dk_files d fname of None \<Rightarrow> [] | Some bs \<Rightarrow> fread_meas (length bs div 24) bs)"

lemma disk_values_fwrite [simp]: "dk_files d fname = Some (fwrite_meas vs) \<Longrightarrow> disk_values d fname = vs"
  by (simp add: disk_values_def)

text \<open>A file object that agrees with the disk.\<close>

definition file_rep :: "WALFile \<Rightarrow> Disk \<Rightarrow> Meas list \<Rightarrow> bool" where
  "file_rep f d vs \<longleftrightarrow> length vs < 2 ^ 64 \<and> wf_writed f = of_nat (length vs) \<and>
     dk_files d (wf_filename f) = Some (fwrite_meas vs)"

lemma unat_of_nat_u64: "n < 2 ^ 64 \<Longrightarrow> unat (of_nat n :: u64) = n"
  by (simp add: unat_of_nat take_bit_nat_eq_self)

lemma readAll_rep: "file_rep f d vs \<Longrightarrow> readAll f d = Some vs"
  by (simp add: file_rep_def readAll_def unat_of_nat_u64)

lemma WALFile_open_rep:
  "dk_files d fname = Some (fwrite_meas vs) \<Longrightarrow> length vs < 2 ^ 64 \<Longrightarrow> file_rep (WALFile_open fname ro d) d vs"
  by (simp add: file_rep_def WALFile_open_def WALFile_writed_def)

lemma fold_wal_note_fields [simp]:
  "wf_filename (fold wal_note vs f) = wf_filename f" "wf_writed (fold wal_note vs f) = wf_writed f"
  by (induction vs arbitrary: f) (simp_all add: wal_note_def)

lemma file_minmax_rep:
  assumes "file_rep f d vs"
  obtains mm f1 where "file_minmax f d = Some (mm, f1)"
  using readAll_rep [OF assms]
  by (cases "wf_idBloom f = 0") (simp_all add: file_minmax_def WALFile_minTime_def WALFile_maxTime_def id_bloom_def updateBloom_def)

text \<open>A file may be new and not on the disk; it is there after it was opened to append.\<close>

definition writer_rep :: "WalEnv \<Rightarrow> WALFile \<Rightarrow> Disk \<Rightarrow> Meas list \<Rightarrow> bool" where
  "writer_rep env f d vs \<longleftrightarrow> length vs \<le> unat (we_wal_file_size env) \<and> wf_writed f = of_nat (length vs) \<and>
     (case dk_files d (wf_filename f) of None \<Rightarrow> vs = [] | Some bs \<Rightarrow> bs = fwrite_meas vs)"

lemma open_to_append_rep:
  assumes "writer_rep env f d vs"
  shows "dk_files (open_to_append f d) = (dk_files d)(wf_filename f \<mapsto> fwrite_meas vs)"
    "dk_manifest (open_to_append f d) = dk_manifest d" "dk_clock (open_to_append f d) = dk_clock d"
  using assms by (auto simp: writer_rep_def open_to_append_def split: option.splits)

lemma writer_length: "writer_rep env f d vs \<Longrightarrow> length vs < 2 ^ 64"
  using unsigned_less [where w = "we_wal_file_size env" and ?'a = nat] by (simp add: writer_rep_def)

lemma writer_file_rep: "writer_rep env f d vs \<Longrightarrow> file_rep f (open_to_append f d) vs"
  using open_to_append_rep(1) [of env f d vs] writer_length [of env f d vs] by (simp add: file_rep_def writer_rep_def)

text \<open>How many values of a range a file takes.\<close>

definition room :: "WalEnv \<Rightarrow> nat \<Rightarrow> nat \<Rightarrow> nat" where
  "room env used sz = min sz (unat (we_wal_file_size env) - used)"

lemma wal_write_size_room:
  assumes "wf_writed f = of_nat used" "used \<le> unat (we_wal_file_size env)" "used + sz < 2 ^ 64"
  shows "unat (wal_write_size env f sz) = room env used sz"
proof -
  have u: "unat (of_nat sz + wf_writed f) = used + sz" using assms(1,3) unat_of_nat_u64 [of "used + sz"]
    by (simp add: add.commute)
  have w: "unat (wf_writed f) = used" using assms unat_of_nat_u64 [of used] by simp
  show ?thesis
  proof (cases "of_nat sz + wf_writed f > we_wal_file_size env")
    case True
    then have "unat (we_wal_file_size env) < used + sz" using u by (simp add: word_less_nat_alt)
    moreover have "wf_writed f \<le> we_wal_file_size env" using assms(2) w by (simp add: word_le_nat_alt)
    ultimately show ?thesis using True w by (simp add: wal_write_size_def room_def unat_sub)
  next
    case False
    then have "used + sz \<le> unat (we_wal_file_size env)" using u by (simp add: word_less_nat_alt)
    then show ?thesis using False assms(3) unat_of_nat_u64 [of sz] by (simp add: wal_write_size_def room_def)
  qed
qed

lemma append_range_rep:
  assumes w: "writer_rep env f d vs" and l: "length vs + length ws < 2 ^ 64" and ws: "ws \<noteq> []"
  defines "n \<equiv> room env (length vs) (length ws)"
  obtains st f1 d1 where "WALFile_append_range env f ws d = Some (st, f1, d1)"
    "st_writed st = of_nat n" "st_error st = (if n = 0 then wal_file_limit else APPEND_OK)"
    "wf_filename f1 = wf_filename f" "writer_rep env f1 d1 (vs @ take n ws)"
    "dk_files d1 = (dk_files d)(wf_filename f \<mapsto> fwrite_meas (vs @ take n ws))"
    "dk_manifest d1 = dk_manifest d" "dk_clock d1 = dk_clock d"
proof -
  have wn: "unat (wal_write_size env f (length ws)) = n"
    unfolding n_def using w l by (intro wal_write_size_room) (auto simp: writer_rep_def)
  have nl: "n \<le> length ws" "length vs + n \<le> unat (we_wal_file_size env)"
    using w by (auto simp: n_def room_def writer_rep_def)
  have rep: "wf_filename f1 = wf_filename f \<Longrightarrow> writer_rep env (f1\<lparr>wf_writed := wf_writed f + of_nat n\<rparr>) d1 (vs @ take n ws)"
    if "dk_files d1 = (dk_files d)(wf_filename f \<mapsto> fwrite_meas (vs @ take n ws))" for f1 d1
    using that nl w by (auto simp: writer_rep_def)
  show ?thesis
  proof (cases "n = 0")
    case True
    then have "wal_write_size env f (length ws) = 0" using wn by (simp add: unat_eq_0)
    then show ?thesis
      using that [of "Status_empty\<lparr>st_ignored := of_nat (length ws), st_error := wal_file_limit\<rparr>" f "open_to_append f d"]
        open_to_append_rep [OF w] rep [of "open_to_append f d" f] True
      by (simp add: WALFile_append_range_def Status_empty_def Let_def)
  next
    case False
    then have nz: "wal_write_size env f (length ws) \<noteq> 0" using wn by auto
    have wo: "wal_write_size env f (length ws) = of_nat n" by (simp flip: wn)
    show ?thesis
      using that [of "Status_writed (of_nat n)" "(fold wal_note (take n ws) f)\<lparr>wf_writed := wf_writed f + of_nat n\<rparr>"
          "fwrite (wf_filename f) (take n ws) (open_to_append f d)"]
        open_to_append_rep [OF w] rep [of "fwrite (wf_filename f) (take n ws) (open_to_append f d)" "fold wal_note (take n ws) f"] False nz wo wn nl
      by (simp add: WALFile_append_range_def Status_writed_def Let_def fwrite_def)
  qed
qed

section \<open>The log of an id\<close>

definition wal_path :: "WalEnv \<Rightarrow> WalFileDescription \<Rightarrow> string" where
  "wal_path env f = we_path env (wd_fname f)"

definition wal_values :: "WalEnv \<Rightarrow> Disk \<Rightarrow> Id \<Rightarrow> Meas list" where
  "wal_values env d i = concat (map (\<lambda>f. disk_values d (wal_path env f)) (wal_list_id i (dk_manifest d)))"

definition wm_values :: "WalEnv \<Rightarrow> WALManager \<Rightarrow> Id \<Rightarrow> Meas list" where
  "wm_values env wm i = wal_values env (wm_disk wm) i @ (case wm_find wm i of Some (Some bd) \<Rightarrow> bd_values bd | _ \<Rightarrow> [])"

text \<open>The names to come are new and distinct.\<close>

definition names_fresh :: "WalEnv \<Rightarrow> Disk \<Rightarrow> bool" where
  "names_fresh env d \<longleftrightarrow> (\<forall>n \<ge> dk_clock d. dk_files d (we_path env (we_random_file_name env n)) = None \<and>
     we_path env (we_random_file_name env n) \<notin> wal_path env ` set (mf_wal (dk_manifest d)) \<and>
     (\<forall>k > n. we_path env (we_random_file_name env k) \<noteq> we_path env (we_random_file_name env n)))"

text \<open>A file on the disk holds whole values, at least one and not more than the limit.\<close>

definition file_content :: "WalEnv \<Rightarrow> u8 list \<Rightarrow> bool" where
  "file_content env bs \<longleftrightarrow> (\<exists>vs. bs = fwrite_meas vs \<and> length vs \<le> unat (we_wal_file_size env) \<and> vs \<noteq> [])"

lemma file_contentI: "length vs \<le> unat (we_wal_file_size env) \<Longrightarrow> vs \<noteq> [] \<Longrightarrow> file_content env (fwrite_meas vs)"
  by (auto simp: file_content_def)

text \<open>The files of the manifest have names of their own and hold values; those in \<open>X\<close> may be missing.\<close>

definition disk_rep :: "WalEnv \<Rightarrow> string set \<Rightarrow> Disk \<Rightarrow> bool" where
  "disk_rep env X d \<longleftrightarrow> names_fresh env d \<and> distinct (map (wal_path env) (mf_wal (dk_manifest d))) \<and>
     (\<forall>f \<in> set (mf_wal (dk_manifest d)). case dk_files d (wal_path env f) of
        None \<Rightarrow> wal_path env f \<in> X
      | Some bs \<Rightarrow> file_content env bs)"

lemma disk_rep_present: "disk_rep env {} d \<Longrightarrow> disk_rep env X d"
  by (fastforce simp: disk_rep_def split: option.splits)

text \<open>The file that is written to for an id is the last one of the id.\<close>

definition last_file :: "WalEnv \<Rightarrow> Id \<Rightarrow> WALFile \<Rightarrow> Disk \<Rightarrow> bool" where
  "last_file env i f d \<longleftrightarrow> (\<exists>pre x. wal_list_id i (dk_manifest d) = pre @ [x] \<and> wf_filename f = wal_path env x)"

lemma last_file_member:
  assumes "last_file env i f d"
  obtains x where "x \<in> set (mf_wal (dk_manifest d))" "wd_id x = i" "wf_filename f = wal_path env x"
proof -
  obtain pre x where x: "wal_list_id i (dk_manifest d) = pre @ [x]" "wf_filename f = wal_path env x"
    using assms by (auto simp: last_file_def)
  have "x \<in> set (wal_list_id i (dk_manifest d))" using x(1) by simp
  then have "x \<in> set (mf_wal (dk_manifest d))" "wd_id x = i" by (simp_all add: wal_list_id_def)
  then show ?thesis using that x(2) by blast
qed

text \<open>A buffer that writes to the last file of its id.\<close>

definition writes_to :: "WalEnv \<Rightarrow> Id \<Rightarrow> BufferDescription \<Rightarrow> Disk \<Rightarrow> bool" where
  "writes_to env i bd d \<longleftrightarrow> (\<exists>f vs. bd_walfile bd = Some f \<and> last_file env i f d \<and> writer_rep env f d vs)"

lemma last_file_other:
  assumes "last_file env i f d" "last_file env j g d" "i \<noteq> j" "distinct (map (wal_path env) (mf_wal (dk_manifest d)))"
  shows "wf_filename f \<noteq> wf_filename g"
proof -
  obtain x y where "x \<in> set (mf_wal (dk_manifest d))" "wd_id x = i" "wf_filename f = wal_path env x"
    "y \<in> set (mf_wal (dk_manifest d))" "wd_id y = j" "wf_filename g = wal_path env y"
    using last_file_member [OF assms(1)] last_file_member [OF assms(2)] by metis
  then show ?thesis using assms(3,4) by (auto simp: distinct_map dest: inj_onD)
qed

lemma writes_to_write:
  assumes "last_file env i f d" "distinct (map (wal_path env) (mf_wal (dk_manifest d)))" "j \<noteq> i" "writes_to env j bd d"
    "dk_manifest d1 = dk_manifest d" "dk_files d1 = (dk_files d)(wf_filename f \<mapsto> bs)"
  shows "writes_to env j bd d1"
proof -
  obtain g vs where g: "bd_walfile bd = Some g" "last_file env j g d" "writer_rep env g d vs"
    using assms(4) by (auto simp: writes_to_def)
  have "wf_filename f \<noteq> wf_filename g" using last_file_other [OF assms(1) g(2)] assms(2,3) by auto
  then show ?thesis using g assms(5,6) by (auto simp: writes_to_def last_file_def writer_rep_def)
qed

lemma wal_values_write:
  assumes "last_file env i f d" "distinct (map (wal_path env) (mf_wal (dk_manifest d)))"
    "dk_manifest d1 = dk_manifest d" "dk_files d1 = (dk_files d)(wf_filename f \<mapsto> fwrite_meas (vs @ ws))"
    "disk_values d (wf_filename f) = vs"
  shows "wal_values env d1 = (wal_values env d)(i := wal_values env d i @ ws)"
proof
  fix j
  obtain pre x where x: "wal_list_id i (dk_manifest d) = pre @ [x]" "wf_filename f = wal_path env x"
    using assms(1) by (auto simp: last_file_def)
  have other: "disk_values d1 p = disk_values d p" if "p \<noteq> wf_filename f" for p
    using that assms(4) by (simp add: disk_values_def)
  have new: "disk_values d1 (wf_filename f) = vs @ ws" using assms(4) by simp
  have "distinct (map (wal_path env) (wal_list_id i (dk_manifest d)))"
    using assms(2) by (simp add: wal_list_id_def distinct_map_filter)
  then have pre: "\<forall>y \<in> set pre. wal_path env y \<noteq> wf_filename f" using x by (auto simp: image_iff)
  have xm: "x \<in> set (mf_wal (dk_manifest d))" "wd_id x = i"
    using arg_cong [OF x(1), of set] by (auto simp: wal_list_id_def)
  have neq: "wal_path env y \<noteq> wf_filename f" if "j \<noteq> i" "y \<in> set (wal_list_id j (dk_manifest d))" for y
    using that xm x(2) assms(2) by (auto simp: wal_list_id_def distinct_map dest: inj_onD)
  show "wal_values env d1 j = ((wal_values env d)(i := wal_values env d i @ ws)) j"
  proof (cases "j = i")
    case True
    have "map (\<lambda>y. disk_values d1 (wal_path env y)) pre = map (\<lambda>y. disk_values d (wal_path env y)) pre"
      using pre other by simp
    then show ?thesis using True x new assms(3,5) by (simp add: wal_values_def cong: map_cong)
  next
    case False
    have "map (\<lambda>y. disk_values d1 (wal_path env y)) (wal_list_id j (dk_manifest d)) =
        map (\<lambda>y. disk_values d (wal_path env y)) (wal_list_id j (dk_manifest d))"
      using neq [OF False] other by simp
    then show ?thesis using False assms(3) by (simp add: wal_values_def cong: map_cong)
  qed
qed

lemma disk_rep_write:
  assumes "disk_rep env X d" "last_file env i f d" "dk_manifest d1 = dk_manifest d" "dk_clock d1 = dk_clock d"
    "dk_files d1 = (dk_files d)(wf_filename f \<mapsto> fwrite_meas vs)" "length vs \<le> unat (we_wal_file_size env)" "vs \<noteq> []"
  shows "disk_rep env (X - {wf_filename f}) d1" "last_file env i f d1"
proof -
  obtain x where "x \<in> set (mf_wal (dk_manifest d))" "wf_filename f = wal_path env x"
    using last_file_member [OF assms(2)] by metis
  then have "names_fresh env d1" using assms(1,3,4,5) by (auto simp: disk_rep_def names_fresh_def)
  then show "disk_rep env (X - {wf_filename f}) d1" using assms by (auto simp: disk_rep_def file_contentI split: option.splits)
  show "last_file env i f d1" using assms(2,3) by (simp add: last_file_def)
qed

lemma WALFile_create_rep:
  assumes "disk_rep env {} d" "WALFile_create env i d = (f, d1)"
  shows "disk_rep env {wf_filename f} d1" "last_file env i f d1" "writer_rep env f d1 []" "wal_values env d1 = wal_values env d"
    "j \<noteq> i \<Longrightarrow> writes_to env j bd d \<Longrightarrow> writes_to env j bd d1"
proof -
  let ?n = "we_random_file_name env (dk_clock d)"
  have d1: "d1 = d\<lparr>dk_clock := Suc (dk_clock d), dk_manifest := wal_append ?n i (dk_manifest d)\<rparr>"
    and f: "wf_filename f = we_path env ?n" "wf_writed f = 0" using assms(2) by (auto simp: WALFile_create_def Let_def)
  have fresh: "dk_files d (we_path env ?n) = None" "we_path env ?n \<notin> wal_path env ` set (mf_wal (dk_manifest d))"
    using assms(1) by (auto simp: disk_rep_def names_fresh_def)
  have "names_fresh env d1" using assms(1) by (auto simp: d1 disk_rep_def names_fresh_def wal_append_def wal_path_def)
  then show "disk_rep env {wf_filename f} d1"
    using assms(1) fresh f by (auto simp: d1 disk_rep_def wal_append_def wal_path_def image_iff split: option.splits)
  show "last_file env i f d1" by (auto simp: last_file_def d1 wal_append_def wal_list_id_def f wal_path_def)
  show "writer_rep env f d1 []" using fresh f by (simp add: writer_rep_def d1)
  show "wal_values env d1 = wal_values env d"
    using fresh by (auto simp: fun_eq_iff wal_values_def d1 wal_append_def wal_list_id_def disk_values_def wal_path_def)
  show "j \<noteq> i \<Longrightarrow> writes_to env j bd d \<Longrightarrow> writes_to env j bd d1"
    by (auto simp: writes_to_def last_file_def d1 wal_append_def wal_list_id_def writer_rep_def)
qed

section \<open>Flushing\<close>

lemma dropFile_disk [simp]: "wm_disk (dropFile env f wm) = wm_disk wm" "wm_buffers (dropFile env f wm) = wm_buffers wm"
  by (simp_all add: dropFile_def wm_dropWAL_def Let_def)

lemma create_new_note:
  assumes "\<forall>f. bd_walfile bd = Some f \<longrightarrow> file_rep f (wm_disk wm) vs"
  obtains w where "(case bd_walfile bd of None \<Rightarrow> Some wm
      | Some walfile_ptr \<Rightarrow> do {
          (mm, p1) \<leftarrow> file_minmax walfile_ptr (wm_disk wm);
          let f = wf_filename walfile_ptr; w = wm\<lparr>wm_file2minmax := (wm_file2minmax wm)(f \<mapsto> mm)\<rparr> in
          Some (if we_strategy_is_wal env then w else dropFile env f w) }) = Some w"
    "wm_disk w = wm_disk wm" "wm_buffers w = wm_buffers wm"
proof (cases "bd_walfile bd")
  case (Some f)
  then obtain mm p1 where "file_minmax f (wm_disk wm) = Some (mm, p1)" using assms file_minmax_rep by blast
  then show ?thesis using Some
    by (intro that [of "let w = wm\<lparr>wm_file2minmax := (wm_file2minmax wm)(wf_filename f \<mapsto> mm)\<rparr> in
      if we_strategy_is_wal env then w else dropFile env (wf_filename f) w"]) (auto simp: Let_def)
qed (auto intro: that)

lemma create_new_rep:
  assumes "disk_rep env {} (wm_disk wm)" "\<forall>f. bd_walfile bd = Some f \<longrightarrow> file_rep f (wm_disk wm) vs"
  obtains f wm1 where "create_new env bd i wm = Some (bd\<lparr>bd_walfile := Some f\<rparr>, wm1)" "wm_buffers wm1 = wm_buffers wm"
    "disk_rep env {wf_filename f} (wm_disk wm1)" "last_file env i f (wm_disk wm1)" "writer_rep env f (wm_disk wm1) []"
    "wal_values env (wm_disk wm1) = wal_values env (wm_disk wm)"
    "\<And>j bd2. j \<noteq> i \<Longrightarrow> writes_to env j bd2 (wm_disk wm) \<Longrightarrow> writes_to env j bd2 (wm_disk wm1)"
proof -
  obtain w where w: "(case bd_walfile bd of None \<Rightarrow> Some wm
      | Some walfile_ptr \<Rightarrow> do {
          (mm, p1) \<leftarrow> file_minmax walfile_ptr (wm_disk wm);
          let f = wf_filename walfile_ptr; w = wm\<lparr>wm_file2minmax := (wm_file2minmax wm)(f \<mapsto> mm)\<rparr> in
          Some (if we_strategy_is_wal env then w else dropFile env f w) }) = Some w"
    and wd: "wm_disk w = wm_disk wm" "wm_buffers w = wm_buffers wm"
    by (rule create_new_note [OF assms(2), of env])
  obtain f d1 where c: "WALFile_create env i (wm_disk wm) = (f, d1)" by fastforce
  show ?thesis using WALFile_create_rep [OF assms(1) c] that [of f "w\<lparr>wm_disk := d1\<rparr>"] c w wd
    by (simp add: create_new_def Let_def)
qed

lemma writer_values: "writer_rep env f d vs \<Longrightarrow> disk_values d (wf_filename f) = vs"
  by (auto simp: writer_rep_def disk_values_def split: option.splits)

text \<open>What a flush of the values \<open>ws\<close> leaves.\<close>

definition flushed :: "WalEnv \<Rightarrow> Id \<Rightarrow> Meas list \<Rightarrow> BufferDescription \<Rightarrow> WALManager \<Rightarrow> BufferDescription \<Rightarrow> WALManager \<Rightarrow> bool" where
  "flushed env i ws bd wm bd1 wm1 \<longleftrightarrow> wm_buffers wm1 = wm_buffers wm \<and> disk_rep env {} (wm_disk wm1) \<and>
     wal_values env (wm_disk wm1) = (wal_values env (wm_disk wm))(i := wal_values env (wm_disk wm) i @ ws) \<and>
     bd_pos bd1 = 0 \<and> bd_buffer bd1 = bd_buffer bd \<and> writes_to env i bd1 (wm_disk wm1) \<and>
     (\<forall>j bd2. j \<noteq> i \<longrightarrow> writes_to env j bd2 (wm_disk wm) \<longrightarrow> writes_to env j bd2 (wm_disk wm1))"

lemma flushed_after:
  assumes "flushed env i ws2 bd2 wm2 bd1 wm1" "wm_buffers wm2 = wm_buffers wm" "bd_buffer bd2 = bd_buffer bd"
    "wal_values env (wm_disk wm2) = (wal_values env (wm_disk wm))(i := wal_values env (wm_disk wm) i @ ws1)"
    "\<And>j bd2. j \<noteq> i \<Longrightarrow> writes_to env j bd2 (wm_disk wm) \<Longrightarrow> writes_to env j bd2 (wm_disk wm2)"
  shows "flushed env i (ws1 @ ws2) bd wm bd1 wm1"
  using assms by (simp add: flushed_def)

lemma flush_loop_step:
  assumes "bd_walfile bd = Some f" "WALFile_append_range env f (drop pos (bd_values bd)) (wm_disk wm) = Some (st, f1, d1)"
  shows "st_error st \<noteq> wal_file_limit \<Longrightarrow> flush_loop env i pos tot bd wm =
      (let bd1 = bd\<lparr>bd_walfile := Some f1\<rparr>; wm1 = wm\<lparr>wm_disk := d1\<rparr>; n = unat (st_writed st) in
       if tot + n \<noteq> bd_pos bd then flush_loop env i (pos + n) (tot + n) bd1 wm1 else Some (bd1\<lparr>bd_pos := 0\<rparr>, wm1))"
    and "st_error st = wal_file_limit \<Longrightarrow> st_writed st = 0 \<Longrightarrow> tot \<noteq> bd_pos bd2 \<Longrightarrow>
      create_new env (bd\<lparr>bd_walfile := Some f1\<rparr>) i (wm\<lparr>wm_disk := d1\<rparr>) = Some (bd2, wm2) \<Longrightarrow>
      flush_loop env i pos tot bd wm = flush_loop env i pos tot bd2 wm2"
  using assms by (subst flush_loop.simps, simp add: Let_def)+

lemma flush_loop_rep:
  assumes "bd_walfile bd = Some f" "last_file env i f (wm_disk wm)" "writer_rep env f (wm_disk wm) fv"
    "disk_rep env {wf_filename f} (wm_disk wm)" "pos < bd_pos bd" "bd_pos bd \<le> length (bd_buffer bd)"
    "0 < unat (we_wal_file_size env)" "unat (we_wal_file_size env) + bd_pos bd < 2 ^ 64"
  shows "\<exists>bd1 wm1. flush_loop env i pos pos bd wm = Some (bd1, wm1) \<and> flushed env i (drop pos (bd_values bd)) bd wm bd1 wm1"
  using assms
proof (induction "2 * (bd_pos bd - pos) + (if length fv = unat (we_wal_file_size env) then 1 else 0)"
    arbitrary: pos bd f fv wm rule: less_induct)
  case less
  let ?d = "wm_disk wm" and ?ws = "drop pos (bd_values bd)" and ?size = "unat (we_wal_file_size env)"
  have len: "length ?ws = bd_pos bd - pos" "length fv \<le> ?size" using less.prems by (auto simp: bd_values_def writer_rep_def)
  then have l: "length fv + length ?ws < 2 ^ 64" "?ws \<noteq> []" using less.prems by auto
  let ?n = "room env (length fv) (length ?ws)"
  obtain st f1 d1 where ap: "WALFile_append_range env f ?ws ?d = Some (st, f1, d1)" "st_writed st = of_nat ?n"
    "st_error st = (if ?n = 0 then wal_file_limit else APPEND_OK)" "wf_filename f1 = wf_filename f"
    "writer_rep env f1 d1 (fv @ take ?n ?ws)" "dk_files d1 = (dk_files ?d)(wf_filename f \<mapsto> fwrite_meas (fv @ take ?n ?ws))"
    "dk_manifest d1 = dk_manifest ?d" "dk_clock d1 = dk_clock ?d"
    by (rule append_range_rep [OF less.prems(3) l])
  have n: "?n \<le> length ?ws" "unat (st_writed st) = ?n"
    using ap(2) less.prems(8) len by (auto simp: room_def intro!: unat_of_nat_u64)
  have ne: "fv @ take ?n ?ws \<noteq> []" using l less.prems(7) by (auto simp: room_def)
  have d1: "disk_rep env {} d1" "last_file env i f1 d1"
    using disk_rep_write [OF less.prems(4,2) ap(7,8,6) _ ne] ap(4,5) by (auto simp: writer_rep_def last_file_def)
  have v1: "wal_values env d1 = (wal_values env ?d)(i := wal_values env ?d i @ take ?n ?ws)"
    using wal_values_write [OF less.prems(2) _ ap(7,6) writer_values [OF less.prems(3)]] less.prems(4) by (simp add: disk_rep_def)
  have fr: "writes_to env j bd2 d1" if "j \<noteq> i" "writes_to env j bd2 ?d" for j bd2
    using writes_to_write [OF less.prems(2) _ that ap(7,6)] less.prems(4) by (simp add: disk_rep_def)
  let ?bd = "bd\<lparr>bd_walfile := Some f1\<rparr>" and ?wm = "wm\<lparr>wm_disk := d1\<rparr>"
  have bv: "bd_values (bd\<lparr>bd_walfile := g\<rparr>) = bd_values bd" for g by (simp add: bd_values_def)
  consider (full) "?n = 0" | (more) "0 < ?n" "?n < length ?ws" | (all) "?n = length ?ws" "0 < ?n" using n(1) l by fastforce
  then show ?case
  proof cases
    case full
    then have fl: "length fv = ?size" using l less.prems(5) len by (auto simp: room_def)
    have "file_rep f1 d1 fv" using ap(4,5,6) full l by (auto simp: file_rep_def writer_rep_def)
    then obtain g wm2 where g: "create_new env ?bd i ?wm = Some (?bd\<lparr>bd_walfile := Some g\<rparr>, wm2)" "wm_buffers wm2 = wm_buffers ?wm"
      "disk_rep env {wf_filename g} (wm_disk wm2)" "last_file env i g (wm_disk wm2)" "writer_rep env g (wm_disk wm2) []"
      "wal_values env (wm_disk wm2) = wal_values env (wm_disk ?wm)"
      "\<And>j bd2. j \<noteq> i \<Longrightarrow> writes_to env j bd2 (wm_disk ?wm) \<Longrightarrow> writes_to env j bd2 (wm_disk wm2)"
      using create_new_rep [of env ?wm ?bd fv i] d1 by auto
    have "\<exists>bd1 wm1. flush_loop env i pos pos (?bd\<lparr>bd_walfile := Some g\<rparr>) wm2 = Some (bd1, wm1) \<and>
        flushed env i (drop pos (bd_values (?bd\<lparr>bd_walfile := Some g\<rparr>))) (?bd\<lparr>bd_walfile := Some g\<rparr>) wm2 bd1 wm1"
      using less.hyps [of "?bd\<lparr>bd_walfile := Some g\<rparr>" pos "[]" g wm2] g(3-5) less.prems(5-8) fl by simp
    then obtain bd1 wm1 where r: "flush_loop env i pos pos (?bd\<lparr>bd_walfile := Some g\<rparr>) wm2 = Some (bd1, wm1)"
      "flushed env i ?ws (?bd\<lparr>bd_walfile := Some g\<rparr>) wm2 bd1 wm1" using bv by auto
    have "flush_loop env i pos pos bd wm = flush_loop env i pos pos (?bd\<lparr>bd_walfile := Some g\<rparr>) wm2"
      by (rule flush_loop_step(2) [OF less.prems(1) ap(1) _ _ _ g(1)]) (use full ap(2,3) less.prems(5) in simp_all)
    moreover have "flushed env i ([] @ ?ws) bd wm bd1 wm1"
      by (rule flushed_after [OF r(2)]) (use g v1 full fr in simp_all)
    ultimately show ?thesis using r(1) by simp
  next
    case more
    have m: "bd_pos bd - (pos + ?n) < bd_pos bd - pos" "Suc (2 * (bd_pos bd - (pos + ?n))) < 2 * (bd_pos bd - pos)"
      using more(1) less.prems(5) by linarith+
    have "\<exists>bd1 wm1. flush_loop env i (pos + ?n) (pos + ?n) ?bd ?wm = Some (bd1, wm1) \<and>
        flushed env i (drop (pos + ?n) (bd_values ?bd)) ?bd ?wm bd1 wm1"
      by (rule less.hyps) (use m d1 ap(4,5) less.prems(5-8) more len in \<open>auto simp: disk_rep_present\<close>)
    then obtain bd1 wm1 where r: "flush_loop env i (pos + ?n) (pos + ?n) ?bd ?wm = Some (bd1, wm1)"
      "flushed env i (drop (pos + ?n) (bd_values bd)) ?bd ?wm bd1 wm1" using bv by auto
    have "pos + ?n \<noteq> bd_pos bd" using more(2) len(1) by linarith
    then have "flush_loop env i pos pos bd wm = flush_loop env i (pos + ?n) (pos + ?n) ?bd ?wm"
      using flush_loop_step(1) [OF less.prems(1) ap(1), of i pos] more(1) ap(3) n(2) by (simp add: Let_def)
    moreover have "flushed env i (take ?n ?ws @ drop (pos + ?n) (bd_values bd)) bd wm bd1 wm1"
      by (rule flushed_after [OF r(2)]) (use v1 fr in simp_all)
    moreover have "take ?n ?ws @ drop (pos + ?n) (bd_values bd) = ?ws" by (metis add.commute append_take_drop_id drop_drop)
    ultimately show ?thesis using r(1) by simp
  next
    case all
    have "pos + ?n = bd_pos bd" using all(1) len(1) less.prems(5) by linarith
    then have "flush_loop env i pos pos bd wm = Some (?bd\<lparr>bd_pos := 0\<rparr>, ?wm)"
      using flush_loop_step(1) [OF less.prems(1) ap(1), of i pos] all(2) ap(3) n(2) by (simp add: Let_def)
    moreover have "flushed env i ?ws bd wm (?bd\<lparr>bd_pos := 0\<rparr>) ?wm"
      using v1 all d1 ap(5) fr unfolding flushed_def by (auto simp: writes_to_def [of env i])
    ultimately show ?thesis by blast
  qed
qed

text \<open>Limits of the settings: the cache holds two values, a file one, and their sizes do not overflow.\<close>

definition wal_limits :: "WalEnv \<Rightarrow> bool" where
  "wal_limits env \<longleftrightarrow> 2 \<le> we_wal_cache_size env \<and> 0 < we_wal_file_size env \<and>
     unat (we_wal_file_size env) + we_wal_cache_size env < 2 ^ 64"

definition buffer_rep :: "WalEnv \<Rightarrow> Id \<Rightarrow> BufferDescription \<Rightarrow> Disk \<Rightarrow> bool" where
  "buffer_rep env i bd d \<longleftrightarrow> length (bd_buffer bd) = we_wal_cache_size env \<and> bd_pos bd \<le> we_wal_cache_size env \<and>
     (\<forall>v \<in> set (bd_values bd). m_id v = i) \<and> (bd_walfile bd = None \<or> writes_to env i bd d)"

lemma flush_buffer_rep:
  assumes "wal_limits env" "disk_rep env {} (wm_disk wm)" "buffer_rep env i bd (wm_disk wm)" "bd_pos bd \<noteq> 0"
  shows "\<exists>bd1 wm1. flush_buffer_logic env bd wm = Some (bd1, wm1) \<and> flushed env i (bd_values bd) bd wm bd1 wm1"
proof -
  obtain front rest where fr: "bd_buffer bd = front # rest"
    using assms(3,4) by (cases "bd_buffer bd") (auto simp: buffer_rep_def)
  have ps: "bd_pos bd \<le> length (bd_buffer bd)" "0 < unat (we_wal_file_size env)" "unat (we_wal_file_size env) + bd_pos bd < 2 ^ 64" "0 < bd_pos bd"
    using assms(1,3,4) by (auto simp: buffer_rep_def wal_limits_def unat_gt_0)
  have fi: "m_id front = i" using assms(3,4) fr by (cases "bd_pos bd") (auto simp: buffer_rep_def bd_values_def)
  show ?thesis
  proof (cases "bd_walfile bd")
    case None
    obtain f wm2 where c: "create_new env bd i wm = Some (bd\<lparr>bd_walfile := Some f\<rparr>, wm2)" "wm_buffers wm2 = wm_buffers wm"
      "disk_rep env {wf_filename f} (wm_disk wm2)" "last_file env i f (wm_disk wm2)" "writer_rep env f (wm_disk wm2) []"
      "wal_values env (wm_disk wm2) = wal_values env (wm_disk wm)"
      "\<And>j bd2. j \<noteq> i \<Longrightarrow> writes_to env j bd2 (wm_disk wm) \<Longrightarrow> writes_to env j bd2 (wm_disk wm2)"
      using create_new_rep [OF assms(2), of bd "[]" i] None by auto
    obtain bd1 wm1 where r: "flush_loop env i 0 0 (bd\<lparr>bd_walfile := Some f\<rparr>) wm2 = Some (bd1, wm1)"
      "flushed env i (bd_values bd) (bd\<lparr>bd_walfile := Some f\<rparr>) wm2 bd1 wm1"
      using flush_loop_rep [of "bd\<lparr>bd_walfile := Some f\<rparr>" f env i wm2 "[]" 0] c ps by (auto simp: bd_values_def)
    have "flushed env i ([] @ bd_values bd) bd wm bd1 wm1" by (rule flushed_after [OF r(2)]) (use c in simp_all)
    then show ?thesis using r(1) c(1) None fr fi assms(4) by (auto simp: flush_buffer_logic_def)
  next
    case (Some f)
    then obtain vs where "last_file env i f (wm_disk wm)" "writer_rep env f (wm_disk wm) vs"
      using assms(3) by (auto simp: buffer_rep_def writes_to_def)
    then obtain bd1 wm1 where "flush_loop env i 0 0 bd wm = Some (bd1, wm1)" "flushed env i (bd_values bd) bd wm bd1 wm1"
      using flush_loop_rep [OF Some, of env i wm vs 0] ps disk_rep_present [OF assms(2)] by auto
    then show ?thesis using Some fr fi assms(4) by (auto simp: flush_buffer_logic_def)
  qed
qed

section \<open>The manager\<close>

definition wm_rep :: "WalEnv \<Rightarrow> WALManager \<Rightarrow> bool" where
  "wm_rep env wm \<longleftrightarrow> disk_rep env {} (wm_disk wm) \<and> sm_ok jenkins_one_hash (wm_buffers wm) \<and>
     (\<forall>i out. wm_find wm i = Some out \<longrightarrow>
        (\<exists>bd. out = Some bd \<and> bd_pos bd < we_wal_cache_size env \<and> buffer_rep env i bd (wm_disk wm)))"

lemma wm_set_buffer_find:
  assumes "sm_ok jenkins_one_hash (wm_buffers wm)" "wm_find wm i \<noteq> None"
  shows "wm_find (wm_set_buffer i bd wm) = (wm_find wm)(i \<mapsto> Some bd)" "sm_ok jenkins_one_hash (wm_buffers (wm_set_buffer i bd wm))"
    "wm_disk (wm_set_buffer i bd wm) = wm_disk wm"
  using assms sm_find_write [OF assms(1), of i "Some bd"] sm_write_ok [OF assms(1), of i "Some bd"]
  by (auto simp: wm_find_def wm_set_buffer_def fun_eq_iff)

lemma wm_rep_update:
  assumes "wm_rep env wm" "wm_find wm2 = (wm_find wm)(i \<mapsto> Some bd)" "disk_rep env {} (wm_disk wm2)"
    "sm_ok jenkins_one_hash (wm_buffers wm2)" "bd_pos bd < we_wal_cache_size env" "buffer_rep env i bd (wm_disk wm2)"
    "\<And>j bd2. j \<noteq> i \<Longrightarrow> buffer_rep env j bd2 (wm_disk wm) \<Longrightarrow> buffer_rep env j bd2 (wm_disk wm2)"
  shows "wm_rep env wm2"
proof -
  have "\<exists>bd2. out = Some bd2 \<and> bd_pos bd2 < we_wal_cache_size env \<and> buffer_rep env j bd2 (wm_disk wm2)" if "wm_find wm2 j = Some out" for j out
  proof (cases "j = i")
    case False
    then have "wm_find wm j = Some out" using that assms(2) by simp
    then show ?thesis using assms(1,7) False unfolding wm_rep_def by blast
  qed (use that assms(2,5,6) in auto)
  then show ?thesis using assms(3,4) by (simp add: wm_rep_def)
qed

text \<open>The buffer of an id after it was flushed.\<close>

lemma flushed_rep:
  assumes "wm_rep env wm" "flushed env i ws bd wm0 bd1 wm1" "wm_disk wm0 = wm_disk wm"
    "wm_find wm0 = (wm_find wm)(i \<mapsto> out)" "sm_ok jenkins_one_hash (wm_buffers wm0)"
    "length (bd_buffer bd) = we_wal_cache_size env" "wal_limits env"
  shows "wm_rep env (wm_set_buffer i bd1 wm1)" "wm_find (wm_set_buffer i bd1 wm1) = (wm_find wm)(i \<mapsto> Some bd1)"
    "wal_values env (wm_disk (wm_set_buffer i bd1 wm1)) = (wal_values env (wm_disk wm))(i := wal_values env (wm_disk wm) i @ ws)"
    "bd_pos bd1 = 0"
proof -
  have find: "wm_find wm1 = wm_find wm0" and ok: "sm_ok jenkins_one_hash (wm_buffers wm1)"
    using assms(2,5) by (auto simp: flushed_def wm_find_def)
  note set = wm_set_buffer_find [OF ok, of i bd1]
  show f: "wm_find (wm_set_buffer i bd1 wm1) = (wm_find wm)(i \<mapsto> Some bd1)"
    using set(1) find assms(4) by simp
  have b: "buffer_rep env i bd1 (wm_disk wm1)"
    using assms(2,6) by (auto simp: buffer_rep_def flushed_def bd_values_def)
  have o: "buffer_rep env j bd2 (wm_disk wm1)" if "j \<noteq> i" "buffer_rep env j bd2 (wm_disk wm)" for j bd2
    using that assms(2,3) by (auto simp: buffer_rep_def flushed_def)
  show "wm_rep env (wm_set_buffer i bd1 wm1)"
    by (rule wm_rep_update [OF assms(1) f]) (use set b o assms(2,4,7) find in \<open>auto simp: flushed_def wal_limits_def\<close>)
  show "wal_values env (wm_disk (wm_set_buffer i bd1 wm1)) = (wal_values env (wm_disk wm))(i := wal_values env (wm_disk wm) i @ ws)"
    "bd_pos bd1 = 0"
    using assms(2,3,4) find set(3) by (auto simp: flushed_def)
qed

lemma wm_values_find:
  "wm_find wm i = Some (Some bd) \<Longrightarrow> wm_values env wm i = wal_values env (wm_disk wm) i @ bd_values bd"
  "wm_find wm i = None \<Longrightarrow> wm_values env wm i = wal_values env (wm_disk wm) i"
  by (simp_all add: wm_values_def)

text \<open>The values after a change of one buffer and of the files of its id.\<close>

lemma wm_values_update:
  assumes "wm_find wm2 = (wm_find wm)(i \<mapsto> Some bd)"
    "wal_values env (wm_disk wm2) = (wal_values env (wm_disk wm))(i := wal_values env (wm_disk wm) i @ ws)"
  shows "wm_values env wm2 = (wm_values env wm)(i := wal_values env (wm_disk wm) i @ ws @ bd_values bd)"
  using assms by (auto simp: wm_values_def fun_eq_iff)

text \<open>A value into a buffer, without the flush.\<close>

definition bd_push :: "Meas \<Rightarrow> BufferDescription \<Rightarrow> BufferDescription" where
  "bd_push value bd = bd\<lparr>bd_buffer := (bd_buffer bd)[bd_pos bd := value], bd_pos := Suc (bd_pos bd)\<rparr>"

lemma bd_push_values: "bd_pos bd < length (bd_buffer bd) \<Longrightarrow> bd_values (bd_push v bd) = bd_values bd @ [v]"
  by (simp add: bd_push_def bd_values_def take_Suc_conv_app_nth)

lemma bd_push_rep:
  assumes "buffer_rep env (m_id v) bd d" "bd_pos bd < we_wal_cache_size env"
  shows "buffer_rep env (m_id v) (bd_push v bd) d"
  using assms bd_push_values [of bd v] by (auto simp: buffer_rep_def) (auto simp: bd_push_def writes_to_def)

text \<open>The append of a value whose id has no buffer, and of one whose id has.\<close>

lemma WALManager_append_new:
  assumes ok: "sm_ok jenkins_one_hash (wm_buffers wm)" and find: "wm_find wm (m_id v) = None" and cache: "we_wal_cache_size env \<noteq> 0"
  defines "bd \<equiv> (BufferDescription_new None (we_wal_cache_size env))\<lparr>bd_buffer := (replicate (we_wal_cache_size env) Meas_empty)[0 := v], bd_pos := 1\<rparr>"
  obtains m1 where "WALManager_append env v wm = Some (Status_writed 1, wm\<lparr>wm_buffers := m1\<rparr>)"
    "wm_find (wm\<lparr>wm_buffers := m1\<rparr>) = (wm_find wm)(m_id v \<mapsto> Some bd)" "sm_ok jenkins_one_hash m1"
proof -
  let ?i = "m_id v" and ?h = "jenkins_one_hash :: Id \<Rightarrow> nat"
  obtain m1 it where fb: "sm_find_bucket ?h None (wm_buffers wm) ?i = (m1, it)"
    by (cases "sm_find_bucket ?h None (wm_buffers wm) ?i")
  note f1 = sm_find_bucket_ok [OF ok fb]
  have ok1: "sm_ok ?h m1" and pl: "sm_place ?h m1 it ?i" using f1 by simp_all
  have "sm_at m1 it = None" using sm_place_at [OF ok1 pl] f1 find by (simp add: wm_find_def)
  then show ?thesis using that [of "sm_put m1 it (Some bd)"] sm_put_ok [OF ok1 pl, of "Some bd"] f1 fb cache
    by (simp add: WALManager_append_def bd_def wm_find_def fun_eq_iff)
qed

lemma WALManager_append_known:
  assumes ok: "sm_ok jenkins_one_hash (wm_buffers wm)" and find: "wm_find wm (m_id v) = Some (Some bd)" and pos: "bd_pos bd < length (bd_buffer bd)"
  obtains m1 where "WALManager_append env v wm = do {
      (bd2, wm2) \<leftarrow> (if we_wal_cache_size env \<le> bd_pos (bd_push v bd) then flush_buffer_logic env (bd_push v bd) (wm\<lparr>wm_buffers := m1\<rparr>)
        else Some (bd_push v bd, wm\<lparr>wm_buffers := m1\<rparr>));
      Some (Status_writed 1, wm_set_buffer (m_id v) bd2 wm2) }"
    "wm_find (wm\<lparr>wm_buffers := m1\<rparr>) = wm_find wm" "sm_ok jenkins_one_hash m1"
proof -
  let ?i = "m_id v" and ?h = "jenkins_one_hash :: Id \<Rightarrow> nat"
  obtain m1 it where fb: "sm_find_bucket ?h None (wm_buffers wm) ?i = (m1, it)"
    by (cases "sm_find_bucket ?h None (wm_buffers wm) ?i")
  note f1 = sm_find_bucket_ok [OF ok fb]
  have ok1: "sm_ok ?h m1" and pl: "sm_place ?h m1 it ?i" using f1 by simp_all
  have "sm_at m1 it = Some bd" using sm_place_at [OF ok1 pl] f1 find by (simp add: wm_find_def)
  then show ?thesis using that [of m1] ok1 f1 fb pos find
    by (simp add: WALManager_append_def bd_push_def Let_def wm_find_def fun_eq_iff)
qed

lemma WALManager_append_rep:
  assumes rep: "wm_rep env wm" and lim: "wal_limits env"
  shows "\<exists>wm1. WALManager_append env v wm = Some (Status_writed 1, wm1) \<and> wm_rep env wm1 \<and>
    wm_values env wm1 = (wm_values env wm)(m_id v := wm_values env wm (m_id v) @ [v])"
proof (cases "wm_find wm (m_id v)")
  let ?i = "m_id v"
  have ok: "sm_ok jenkins_one_hash (wm_buffers wm)" using rep by (simp add: wm_rep_def)
  case None
  let ?bd = "(BufferDescription_new None (we_wal_cache_size env))\<lparr>bd_buffer := (replicate (we_wal_cache_size env) Meas_empty)[0 := v], bd_pos := 1\<rparr>"
  obtain m1 where a: "WALManager_append env v wm = Some (Status_writed 1, wm\<lparr>wm_buffers := m1\<rparr>)"
    "wm_find (wm\<lparr>wm_buffers := m1\<rparr>) = (wm_find wm)(?i \<mapsto> Some ?bd)" "sm_ok jenkins_one_hash m1"
    by (rule WALManager_append_new [OF ok None]) (use lim in \<open>auto simp: wal_limits_def\<close>)
  let ?wm = "wm\<lparr>wm_buffers := m1\<rparr>"
  have bv: "bd_values ?bd = [v]" using lim by (cases "we_wal_cache_size env") (auto simp: bd_values_def wal_limits_def)
  have "wm_rep env ?wm"
    by (rule wm_rep_update [OF rep a(2)]) (use a(3) rep lim bv in \<open>auto simp: wm_rep_def wal_limits_def buffer_rep_def BufferDescription_new_def\<close>)
  moreover have "wm_values env ?wm = (wm_values env wm)(?i := wal_values env (wm_disk wm) ?i @ [] @ bd_values ?bd)"
    by (rule wm_values_update [OF a(2)]) simp
  ultimately show ?thesis using a(1) bv None by (simp add: wm_values_find)
next
  let ?i = "m_id v"
  have ok: "sm_ok jenkins_one_hash (wm_buffers wm)" using rep by (simp add: wm_rep_def)
  case (Some out)
  then obtain bd where bd: "out = Some bd" "bd_pos bd < we_wal_cache_size env" "buffer_rep env ?i bd (wm_disk wm)"
    using rep unfolding wm_rep_def by blast
  let ?bd = "bd_push v bd"
  have len: "length (bd_buffer bd) = we_wal_cache_size env" using bd(3) by (simp add: buffer_rep_def)
  have bv: "bd_values ?bd = bd_values bd @ [v]" using bd_push_values len bd(2) by simp
  have br: "buffer_rep env ?i ?bd (wm_disk wm)" using bd_push_rep bd by blast
  obtain m1 where a: "WALManager_append env v wm = do {
      (bd2, wm2) \<leftarrow> (if we_wal_cache_size env \<le> bd_pos ?bd then flush_buffer_logic env ?bd (wm\<lparr>wm_buffers := m1\<rparr>) else Some (?bd, wm\<lparr>wm_buffers := m1\<rparr>));
      Some (Status_writed 1, wm_set_buffer ?i bd2 wm2) }" and m1: "wm_find (wm\<lparr>wm_buffers := m1\<rparr>) = wm_find wm" "sm_ok jenkins_one_hash m1"
    by (rule WALManager_append_known [OF ok, of v bd env]) (use Some bd len in auto)
  let ?wm = "wm\<lparr>wm_buffers := m1\<rparr>"
  have w0: "wm_disk ?wm = wm_disk wm" "wm_find ?wm = (wm_find wm)(?i \<mapsto> Some bd)" "sm_ok jenkins_one_hash (wm_buffers ?wm)"
    using m1 Some bd(1) by (auto simp: fun_eq_iff)
  show ?thesis
  proof (cases "we_wal_cache_size env \<le> bd_pos ?bd")
    case True
    obtain bd1 wm1 where r: "flush_buffer_logic env ?bd ?wm = Some (bd1, wm1)" "flushed env ?i (bd_values ?bd) ?bd ?wm bd1 wm1"
      using flush_buffer_rep [of env ?wm ?i ?bd] lim rep br by (auto simp: wm_rep_def bd_push_def)
    have "length (bd_buffer ?bd) = we_wal_cache_size env" using len by (simp add: bd_push_def)
    note fl = flushed_rep [OF rep r(2) w0 this lim]
    have "bd_values bd1 = []" using fl(4) by (simp add: bd_values_def)
    then show ?thesis using a True r(1) fl(1) wm_values_update [OF fl(2,3)] bv Some bd(1) by (simp add: wm_values_find)
  next
    case False
    have s: "wm_find (wm_set_buffer ?i ?bd ?wm) = (wm_find wm)(?i \<mapsto> Some ?bd)" "sm_ok jenkins_one_hash (wm_buffers (wm_set_buffer ?i ?bd ?wm))"
      "wm_disk (wm_set_buffer ?i ?bd ?wm) = wm_disk wm"
      using wm_set_buffer_find [OF w0(3), of ?i ?bd] w0(2) by auto
    have "wm_rep env (wm_set_buffer ?i ?bd ?wm)"
      by (rule wm_rep_update [OF rep s(1) _ s(2)]) (use s(3) rep br False in \<open>auto simp: wm_rep_def\<close>)
    moreover have "wm_values env (wm_set_buffer ?i ?bd ?wm) = (wm_values env wm)(?i := wal_values env (wm_disk wm) ?i @ [] @ bd_values ?bd)"
      by (rule wm_values_update [OF s(1)]) (simp add: s(3))
    ultimately show ?thesis using a False bv Some bd(1) by (simp add: wm_values_find)
  qed
qed

end
