(* ===== verification/WalLog.thy ===== *)
theory WalLog
  imports WalCorrect
begin

text \<open>
  Properties of the write-ahead log: a flush ends and moves every buffered value to the files, a restart
  reads back what the files hold, and what the manager does at the limits of its settings.
\<close>

section \<open>Flushing all buffers\<close>

definition pending :: "WALManager \<Rightarrow> Id \<Rightarrow> Meas list" where
  "pending wm i = (case wm_find wm i of Some (Some bd) \<Rightarrow> bd_values bd | _ \<Rightarrow> [])"

lemma wm_values_pending: "wm_values env wm i = wal_values env (wm_disk wm) i @ pending wm i"
  by (simp add: wm_values_def pending_def)

lemma flush_id_rep:
  assumes "wm_rep env wm" "wal_limits env"
  shows "\<exists>wm1. flush_id env i wm = Some wm1 \<and> wm_rep env wm1 \<and> wm_values env wm1 = wm_values env wm \<and>
    pending wm1 = (pending wm)(i := [])"
proof (cases "wm_find wm i")
  case None
  then show ?thesis using assms(1) by (auto simp: flush_id_def pending_def fun_eq_iff)
next
  case (Some out)
  then obtain bd where bd: "out = Some bd" "buffer_rep env i bd (wm_disk wm)"
    using assms(1) unfolding wm_rep_def by blast
  show ?thesis
  proof (cases "bd_pos bd = 0")
    case True
    then show ?thesis using assms(1) Some bd(1) by (auto simp: flush_id_def pending_def fun_eq_iff bd_values_def)
  next
    case False
    obtain bd1 wm1 where r: "flush_buffer_logic env bd wm = Some (bd1, wm1)" "flushed env i (bd_values bd) bd wm bd1 wm1"
      using flush_buffer_rep [OF assms(2) _ bd(2) False] assms(1) by (auto simp: wm_rep_def)
    have w: "wm_find wm = (wm_find wm)(i \<mapsto> Some bd)" "sm_ok jenkins_one_hash (wm_buffers wm)"
      "length (bd_buffer bd) = we_wal_cache_size env"
      using Some bd assms(1) by (auto simp: wm_rep_def buffer_rep_def)
    note fl = flushed_rep [OF assms(1) r(2) refl w assms(2)]
    have bv: "bd_values bd1 = []" using fl(4) by (simp add: bd_values_def)
    have "wm_values env (wm_set_buffer i bd1 wm1) = wm_values env wm"
      using wm_values_update [OF fl(2,3)] bv Some bd(1) by (auto simp: wm_values_find fun_eq_iff)
    moreover have "pending (wm_set_buffer i bd1 wm1) = (pending wm)(i := [])"
      using fl(2) bv by (auto simp: pending_def fun_eq_iff)
    ultimately show ?thesis using Some bd(1) False r(1) fl(1) by (auto simp: flush_id_def)
  qed
qed

lemma flush_ids_rep:
  assumes "wm_rep env wm" "wal_limits env"
  shows "\<exists>wm1. fold (\<lambda>i acc. do { w \<leftarrow> acc; flush_id env i w }) ids (Some wm) = Some wm1 \<and> wm_rep env wm1 \<and>
    wm_values env wm1 = wm_values env wm \<and> pending wm1 = (\<lambda>i. if i \<in> set ids then [] else pending wm i)"
  using assms
proof (induction ids arbitrary: wm)
  case (Cons i ids)
  obtain wm1 where 1: "flush_id env i wm = Some wm1" "wm_rep env wm1" "wm_values env wm1 = wm_values env wm"
    "pending wm1 = (pending wm)(i := [])" using flush_id_rep [OF Cons.prems] by blast
  obtain wm2 where 2: "fold (\<lambda>i acc. do { w \<leftarrow> acc; flush_id env i w }) ids (Some wm1) = Some wm2" "wm_rep env wm2"
    "wm_values env wm2 = wm_values env wm1" "pending wm2 = (\<lambda>i. if i \<in> set ids then [] else pending wm1 i)"
    using Cons.IH [OF 1(2) Cons.prems(2)] by blast
  show ?case by (rule exI [of _ wm2]) (use 1 2 in \<open>auto simp: fun_eq_iff\<close>)
qed auto

lemma WALManager_flush_rep:
  assumes "wm_rep env wm" "wal_limits env"
  shows "\<exists>wm1. WALManager_flush env wm = Some wm1 \<and> wm_rep env wm1 \<and>
    wm_values env wm1 = wm_values env wm \<and> pending wm1 = (\<lambda>_. [])"
proof -
  have m: "map_of (sm_items (wm_buffers wm)) = wm_find wm"
    using assms(1) sm_items_map(2) by (auto simp: wm_rep_def wm_find_def fun_eq_iff)
  have "pending wm i = []" if "i \<notin> set (map fst (sm_items (wm_buffers wm)))" for i
  proof -
    have "map_of (sm_items (wm_buffers wm)) i = None" using that by (simp add: map_of_eq_None_iff)
    then show ?thesis by (simp add: m pending_def)
  qed
  then show ?thesis using flush_ids_rep [OF assms, of "map fst (sm_items (wm_buffers wm))"]
    unfolding WALManager_flush_def by (auto simp: fun_eq_iff)
qed

section \<open>Start\<close>

lemma disk_rep_readable:
  assumes "disk_rep env {} d" "f \<in> set (mf_wal (dk_manifest d))"
  obtains vs where "dk_files d (wal_path env f) = Some (fwrite_meas vs)" "vs \<noteq> []" "length vs < 2 ^ 64"
    "disk_values d (wal_path env f) = vs"
proof -
  obtain bs where bs: "dk_files d (wal_path env f) = Some bs" "file_content env bs"
    using assms by (auto simp: disk_rep_def split: option.splits)
  then obtain vs where "bs = fwrite_meas vs" "length vs \<le> unat (we_wal_file_size env)" "vs \<noteq> []"
    by (auto simp: file_content_def)
  then show ?thesis using that [of vs] bs unsigned_less [where w = "we_wal_file_size env" and ?'a = nat] by simp
qed

lemma wm_open_files_rep:
  assumes "disk_rep env {} d" "set fds \<subseteq> set (mf_wal (dk_manifest d))" "wm_disk wm = d"
    "sm_ok jenkins_one_hash (wm_buffers wm)" "\<forall>i. pending wm i = []"
  shows "\<exists>wm1. wm_open_files env fds wm = Some wm1 \<and> wm_disk wm1 = d \<and> (\<forall>i. pending wm1 i = [])"
  using assms(2-)
proof (induction fds arbitrary: wm)
  case (Cons fd fds)
  obtain vs where vs: "dk_files d (wal_path env fd) = Some (fwrite_meas vs)" "vs \<noteq> []" "length vs < 2 ^ 64"
    using disk_rep_readable [OF assms(1), of fd] Cons.prems(1) by auto
  let ?p = "WALFile_open (wal_path env fd) False d"
  have rep: "file_rep ?p d vs" by (rule WALFile_open_rep [OF vs(1,3)])
  obtain mm p1 where mm: "file_minmax ?p d = Some (mm, p1)" by (rule file_minmax_rep [OF rep])
  have nz: "wf_writed ?p \<noteq> 0" using rep vs(2,3) unat_of_nat_u64 [OF vs(3)] by (auto simp: file_rep_def)
  let ?wm = "wm\<lparr>wm_file2minmax := (wm_file2minmax wm)(wal_path env fd \<mapsto> mm)\<rparr>"
  have p1: "wf_filename p1 = wf_filename ?p" "wf_writed p1 = wf_writed ?p"
    using mm readAll_rep [OF rep]
    by (cases "wf_idBloom ?p = 0"; auto simp: file_minmax_def WALFile_minTime_def WALFile_maxTime_def id_bloom_def updateBloom_def)+
  then have r1: "readAll p1 d = Some vs" using readAll_rep [of p1 d vs] rep by (simp add: file_rep_def)
  show ?case
  proof (cases "WALFile_writed (wal_path env fd) d \<noteq> we_wal_file_size env")
    case True
    obtain i where i: "id_from_first p1 d = Some i" using r1 by (simp add: id_from_first_def)
    let ?bd = "BufferDescription_new (Some p1) (we_wal_cache_size env)"
    let ?w = "?wm\<lparr>wm_buffers := sm_insert jenkins_one_hash None (wm_buffers wm) i (Some ?bd)\<rparr>"
    have ok: "sm_ok jenkins_one_hash (wm_buffers ?w)" "wm_find ?w = (wm_find wm)(i \<mapsto> Some ?bd)"
      using sm_insert_ok [OF Cons.prems(3)] by (auto simp: wm_find_def fun_eq_iff)
    then have "\<forall>j. pending ?w j = []"
      using Cons.prems(4) by (auto simp: pending_def BufferDescription_new_def bd_values_def split: option.splits)
    then show ?thesis using Cons.IH [of ?w] Cons.prems(1,2) ok mm nz True i by (simp add: wal_path_def Let_def)
  next
    case False
    have "\<forall>j. pending ?wm j = []" using Cons.prems(4) by (simp add: pending_def wm_find_def)
    then show ?thesis using Cons.IH [of ?wm] Cons.prems(1,2,3) mm nz False by (simp add: wal_path_def Let_def)
  qed
qed simp

lemma WALManager_new_rep:
  assumes "disk_rep env {} d"
  shows "\<exists>wm. WALManager_new env True d = Some wm \<and> wm_values env wm = wal_values env d"
proof -
  let ?wm = "\<lparr>wm_down = None, wm_buffers = sm_new sm_default_n, wm_files_send_to_drop = [], wm_file2minmax = Map.empty, wm_disk = d\<rparr>"
  have n: "0 < sm_default_n" by (simp add: sm_default_n_def)
  have "sm_ok jenkins_one_hash (wm_buffers ?wm)" "\<forall>i. pending ?wm i = []"
    by (simp_all add: pending_def wm_find_def sm_new_ok [OF n])
  then show ?thesis
    using wm_open_files_rep [OF assms, of "wal_list (dk_manifest d)" ?wm]
    by (auto simp: WALManager_new_def wal_list_def wm_values_pending fun_eq_iff)
qed

section \<open>Appends\<close>

fun WALManager_append_list :: "WalEnv \<Rightarrow> Meas list \<Rightarrow> WALManager \<Rightarrow> WALManager option" where
  "WALManager_append_list env [] wm = Some wm"
| "WALManager_append_list env (v # vs) wm = do { (st, wm1) \<leftarrow> WALManager_append env v wm; WALManager_append_list env vs wm1 }"

lemma WALManager_append_list_rep:
  assumes "wm_rep env wm" "wal_limits env"
  shows "\<exists>wm1. WALManager_append_list env vs wm = Some wm1 \<and> wm_rep env wm1 \<and>
    (\<forall>i. wm_values env wm1 i = wm_values env wm i @ of_id i vs)"
  using assms
proof (induction vs arbitrary: wm)
  case (Cons v vs)
  obtain wm1 where 1: "WALManager_append env v wm = Some (Status_writed 1, wm1)" "wm_rep env wm1"
    "wm_values env wm1 = (wm_values env wm)(m_id v := wm_values env wm (m_id v) @ [v])"
    using WALManager_append_rep [OF Cons.prems] by blast
  show ?case using Cons.IH [OF 1(2) Cons.prems(2)] 1 by (auto simp: of_id_def)
qed (simp add: of_id_def)

lemma WALManager_new_empty:
  assumes "names_fresh env d" "mf_wal (dk_manifest d) = []" "WALManager_new env True d = Some wm"
  shows "wm_rep env wm" "wm_values env wm i = []"
proof -
  have n: "0 < sm_default_n" by (simp add: sm_default_n_def)
  have w: "wm_disk wm = d" "wm_buffers wm = sm_new sm_default_n" using assms(2,3) by (auto simp: WALManager_new_def wal_list_def)
  have f: "wm_find wm = Map.empty" by (simp add: wm_find_def w sm_new_ok [OF n] fun_eq_iff)
  show "wm_rep env wm" using assms(1,2) by (simp add: wm_rep_def disk_rep_def f w sm_new_ok [OF n])
  show "wm_values env wm i = []" using assms(2) by (simp add: wm_values_def f w wal_values_def wal_list_id_def)
qed

lemma WALManager_run:
  assumes "wal_limits env" "names_fresh env d" "mf_wal (dk_manifest d) = []"
  obtains wm0 wm where "WALManager_new env True d = Some wm0" "WALManager_append_list env vs wm0 = Some wm" "wm_rep env wm"
    "\<And>i. wm_values env wm i = of_id i vs"
proof -
  have "disk_rep env {} d" using assms(2,3) by (simp add: disk_rep_def)
  then obtain wm0 where 0: "WALManager_new env True d = Some wm0" using WALManager_new_rep by blast
  note e = WALManager_new_empty [OF assms(2,3) 0]
  show ?thesis using WALManager_append_list_rep [OF e(1) assms(1), of vs] e(2) that [OF 0] by auto
qed

text \<open>C6: The write-ahead log refines a map from ids to lists of values: on an empty storage with a cache of at least two
  values and files of at least one, all appends succeed, the values of an id are in its files and its buffer in the
  order they were appended, and a flush ends and leaves all of them in the files.\<close>

theorem wal_append_then_flush:
  assumes "wal_limits env" "names_fresh env d" "mf_wal (dk_manifest d) = []"
  shows "\<exists>wm0 wm wm1. WALManager_new env True d = Some wm0 \<and> WALManager_append_list env vs wm0 = Some wm \<and>
    (\<forall>i. wm_values env wm i = of_id i vs) \<and> WALManager_flush env wm = Some wm1 \<and>
    (\<forall>i. wal_values env (wm_disk wm1) i = of_id i vs)"
proof -
  obtain wm0 wm where r: "WALManager_new env True d = Some wm0" "WALManager_append_list env vs wm0 = Some wm" "wm_rep env wm"
    "\<And>i. wm_values env wm i = of_id i vs" using WALManager_run [OF assms] by metis
  obtain wm1 where f: "WALManager_flush env wm = Some wm1" "wm_values env wm1 = wm_values env wm" "pending wm1 = (\<lambda>_. [])"
    using WALManager_flush_rep [OF r(3) assms(1)] by blast
  have "wal_values env (wm_disk wm1) i = of_id i vs" for i
    using f(2,3) r(4) wm_values_pending [of env wm1 i] by (simp add: fun_eq_iff)
  then show ?thesis using r f(1) by blast
qed

text \<open>An environment whose names are words of one letter, and a disk without files.\<close>

definition example_env :: WalEnv where
  "example_env = \<lparr>we_path = (\<lambda>f. CHR ''/'' # f), we_name = tl, we_random_file_name = (\<lambda>n. replicate n (CHR ''a'')),
     we_wal_file_size = 3, we_wal_cache_size = 2, we_strategy_is_wal = True\<rparr>"

definition example_disk :: Disk where
  "example_disk = \<lparr>dk_files = Map.empty, dk_clock = 1, dk_manifest = Manifest_tables\<rparr>"

definition wal_meas :: "Id \<Rightarrow> Time \<Rightarrow> Meas" where
  "wal_meas i t = \<lparr>m_id = i, m_time = t, m_value = 0, m_flag = 0\<rparr>"

lemma example_ok: "wal_limits example_env" "names_fresh example_env example_disk" "mf_wal (dk_manifest example_disk) = []"
  by (auto simp: wal_limits_def names_fresh_def example_env_def example_disk_def Manifest_tables_def)

theorem wal_append_then_flush_witness:
  "\<exists>wm0 wm wm1. WALManager_new example_env True example_disk = Some wm0 \<and>
    WALManager_append_list example_env [wal_meas 1 5, wal_meas 2 6, wal_meas 1 7, wal_meas 1 8, wal_meas 1 9] wm0 = Some wm \<and>
    WALManager_flush example_env wm = Some wm1 \<and>
    map m_time (wal_values example_env (wm_disk wm1) 1) = [5, 7, 8, 9] \<and> map m_time (wal_values example_env (wm_disk wm1) 2) = [6]"
  using wal_append_then_flush [OF example_ok, of "[wal_meas 1 5, wal_meas 2 6, wal_meas 1 7, wal_meas 1 8, wal_meas 1 9]"]
  by (auto simp: of_id_def wal_meas_def)

text \<open>C7: A manager that is opened on the files another one left has the values the files hold: a stop without a flush loses
  the buffered values only, which are fewer for every id than the cache size, and a stop after a flush loses nothing.\<close>

theorem wal_restart:
  assumes "wal_limits env" "names_fresh env d" "mf_wal (dk_manifest d) = []"
  shows "\<exists>wm0 wm wm1 wm2 wm3. WALManager_new env True d = Some wm0 \<and> WALManager_append_list env vs wm0 = Some wm \<and>
    WALManager_new env True (wm_disk wm) = Some wm1 \<and>
    (\<forall>i. \<exists>lost. wm_values env wm1 i @ lost = of_id i vs \<and> length lost < we_wal_cache_size env) \<and>
    WALManager_flush env wm = Some wm2 \<and> WALManager_new env True (wm_disk wm2) = Some wm3 \<and>
    (\<forall>i. wm_values env wm3 i = of_id i vs)"
proof -
  obtain wm0 wm where r: "WALManager_new env True d = Some wm0" "WALManager_append_list env vs wm0 = Some wm" "wm_rep env wm"
    "\<And>i. wm_values env wm i = of_id i vs" using WALManager_run [OF assms] by metis
  obtain wm2 where f: "WALManager_flush env wm = Some wm2" "wm_rep env wm2" "wm_values env wm2 = wm_values env wm" "pending wm2 = (\<lambda>_. [])"
    using WALManager_flush_rep [OF r(3) assms(1)] by blast
  obtain wm1 where 1: "WALManager_new env True (wm_disk wm) = Some wm1" "wm_values env wm1 = wal_values env (wm_disk wm)"
    using WALManager_new_rep r(3) unfolding wm_rep_def by blast
  obtain wm3 where 3: "WALManager_new env True (wm_disk wm2) = Some wm3" "wm_values env wm3 = wal_values env (wm_disk wm2)"
    using WALManager_new_rep f(2) unfolding wm_rep_def by blast
  have p: "length (pending wm i) < we_wal_cache_size env" for i
  proof (cases "wm_find wm i")
    case None
    then show ?thesis using assms(1) by (simp add: pending_def wal_limits_def)
  next
    case (Some out)
    then obtain bd where "out = Some bd" "bd_pos bd < we_wal_cache_size env" using r(3) unfolding wm_rep_def by blast
    then show ?thesis using Some by (simp add: pending_def bd_values_def)
  qed
  have v: "wm_values env wm1 i @ pending wm i = of_id i vs" "wm_values env wm3 i = of_id i vs" for i
    using r(4) 1(2) 3(2) f(3,4) wm_values_pending [of env wm i] wm_values_pending [of env wm2 i] by (simp_all add: fun_eq_iff)
  show ?thesis by (rule exI [of _ wm0], rule exI [of _ wm], rule exI [of _ wm1], rule exI [of _ wm2], rule exI [of _ wm3])
    (use r(1,2) 1(1) f(1) 3(1) v p in blast)
qed

theorem wal_restart_witness:
  "\<exists>wm0 wm wm2 wm3. WALManager_new example_env True example_disk = Some wm0 \<and>
    WALManager_append_list example_env [wal_meas 1 5, wal_meas 1 7, wal_meas 1 8] wm0 = Some wm \<and>
    WALManager_flush example_env wm = Some wm2 \<and> WALManager_new example_env True (wm_disk wm2) = Some wm3 \<and>
    map m_time (wm_values example_env wm3 1) = [5, 7, 8]"
  using wal_restart [OF example_ok, of "[wal_meas 1 5, wal_meas 1 7, wal_meas 1 8]"] by (auto simp: of_id_def wal_meas_def)

text \<open>C18: The state of the log is well formed after every sequence of appends: every file of the manifest is on the disk and holds a
  whole number of values, at least one and not more than the limit, no name is used twice, and every buffer has the size of the
  cache and room for another value.\<close>

theorem wal_well_formed:
  assumes "wal_limits env" "names_fresh env d" "mf_wal (dk_manifest d) = []"
  shows "\<exists>wm0 wm. WALManager_new env True d = Some wm0 \<and> WALManager_append_list env vs wm0 = Some wm \<and>
    distinct (map (\<lambda>f. we_path env (wd_fname f)) (wal_list (dk_manifest (wm_disk wm)))) \<and>
    (\<forall>f \<in> set (wal_list (dk_manifest (wm_disk wm))). \<exists>bs. dk_files (wm_disk wm) (we_path env (wd_fname f)) = Some bs \<and>
       length bs mod 24 = 0 \<and> 0 < length bs \<and> length bs \<le> 24 * unat (we_wal_file_size env)) \<and>
    (\<forall>i out. wm_find wm i = Some out \<longrightarrow>
       (\<exists>bd. out = Some bd \<and> length (bd_buffer bd) = we_wal_cache_size env \<and> bd_pos bd < length (bd_buffer bd)))"
proof -
  obtain wm0 wm where r: "WALManager_new env True d = Some wm0" "WALManager_append_list env vs wm0 = Some wm" "wm_rep env wm"
    using WALManager_run [OF assms] by metis
  have p: "we_path env (wd_fname f) = wal_path env f" for f by (simp add: wal_path_def)
  have b: "file_content env bs \<Longrightarrow> length bs mod 24 = 0 \<and> 0 < length bs \<and> length bs \<le> 24 * unat (we_wal_file_size env)" for bs
  proof -
    assume "file_content env bs"
    then obtain vs where vs: "bs = fwrite_meas vs" "length vs \<le> unat (we_wal_file_size env)" "0 < length vs" by (auto simp: file_content_def)
    then have "length bs = 24 * length vs" by simp
    moreover have "0 < 24 * length vs" using vs(3) by (rule mult_pos_pos [OF zero_less_numeral])
    ultimately show ?thesis using vs(2) by (metis mod_mult_self1_is_0 mult_le_mono2)
  qed
  have "\<forall>f \<in> set (mf_wal (dk_manifest (wm_disk wm))). \<exists>bs. dk_files (wm_disk wm) (wal_path env f) = Some bs \<and> file_content env bs"
    using r(3) by (fastforce simp: wm_rep_def disk_rep_def split: option.splits)
  moreover have "distinct (map (wal_path env) (mf_wal (dk_manifest (wm_disk wm))))" using r(3) by (simp add: wm_rep_def disk_rep_def)
  moreover have "\<forall>i out. wm_find wm i = Some out \<longrightarrow>
       (\<exists>bd. out = Some bd \<and> length (bd_buffer bd) = we_wal_cache_size env \<and> bd_pos bd < length (bd_buffer bd))"
    using r(3) unfolding wm_rep_def buffer_rep_def by metis
  ultimately show ?thesis unfolding p wal_list_def using r(1,2) b by blast
qed

theorem wal_well_formed_witness:
  "\<exists>wm0 wm. WALManager_new example_env True example_disk = Some wm0 \<and>
    WALManager_append_list example_env [wal_meas 1 5, wal_meas 1 7, wal_meas 1 8, wal_meas 1 9] wm0 = Some wm \<and>
    distinct (map (\<lambda>f. we_path example_env (wd_fname f)) (wal_list (dk_manifest (wm_disk wm))))"
  using wal_well_formed [OF example_ok, of "[wal_meas 1 5, wal_meas 1 7, wal_meas 1 8, wal_meas 1 9]"] by blast

end
