(* ===== verification/WalLimits.thy ===== *)
theory WalLimits
  imports WalLog
begin

text \<open>
  The write-ahead log outside the limits of its settings: files of no value, a cache of one value, empty
  files on the disk and files that are longer than the limit.
\<close>

section \<open>Files of no value\<close>

lemma wal_write_size_zero: "we_wal_file_size env = 0 \<Longrightarrow> wf_writed f = 0 \<Longrightarrow> wal_write_size env f sz = 0"
  by (cases "(of_nat sz :: u64) = 0") (auto simp: wal_write_size_def word_gt_0)

lemma append_range_zero:
  assumes "we_wal_file_size env = 0" "wf_writed f = 0"
  shows "WALFile_append_range env f vs d =
    Some (Status_empty\<lparr>st_ignored := of_nat (length vs), st_error := wal_file_limit\<rparr>, f, open_to_append f d)"
  using wal_write_size_zero [OF assms, of "length vs"] by (simp add: WALFile_append_range_def)

lemma create_new_result:
  assumes "create_new env bd i wm = Some (bd1, wm1)"
  shows "\<exists>f. bd1 = bd\<lparr>bd_walfile := Some f\<rparr> \<and> wf_writed f = 0"
  using assms by (auto simp: create_new_def WALFile_create_def Let_def bind_eq_Some_conv)

lemma flush_loop_zero:
  assumes "flush_loop env i pos tot bd wm = Some r"
  shows "we_wal_file_size env = 0 \<longrightarrow> (\<exists>f. bd_walfile bd = Some f \<and> wf_writed f = 0) \<longrightarrow> tot = bd_pos bd"
proof (rule flush_loop.raw_induct [where P = "\<lambda>env i pos tot bd wm r. we_wal_file_size env = 0 \<longrightarrow>
    (\<exists>f. bd_walfile bd = Some f \<and> wf_writed f = 0) \<longrightarrow> tot = bd_pos bd", OF _ assms], goal_cases)
  case (1 loop env i pos tot bd wm r)
  show ?case
  proof (intro impI, elim exE conjE, rule ccontr)
    fix f assume z: "we_wal_file_size env = 0" "bd_walfile bd = Some f" "wf_writed f = 0" and ne: "tot \<noteq> bd_pos bd"
    let ?wm = "wm\<lparr>wm_disk := open_to_append f (wm_disk wm)\<rparr>"
    have b: "create_new env (bd\<lparr>bd_walfile := Some f\<rparr>) i ?wm \<bind>
        (\<lambda>(bd2, wm2). if tot \<noteq> bd_pos bd2 then loop env i pos tot bd2 wm2 else Some (bd2\<lparr>bd_pos := 0\<rparr>, wm2)) = Some r"
      using 1(2) by (simp add: z append_range_zero [OF z(1,3)] Status_empty_def cong: if_cong)
    obtain bd2 wm2 where c: "create_new env (bd\<lparr>bd_walfile := Some f\<rparr>) i ?wm = Some (bd2, wm2)"
      using b by (cases "create_new env (bd\<lparr>bd_walfile := Some f\<rparr>) i ?wm") auto
    obtain g where g: "bd2 = bd\<lparr>bd_walfile := Some g\<rparr>" "wf_writed g = 0" using create_new_result [OF c] by auto
    have "loop env i pos tot bd2 wm2 = Some r" using b c g(1) ne by simp
    from 1(1) [OF this] show False using z(1) g ne by simp
  qed
qed

text \<open>A buffer with a new file.\<close>

definition empty_writer :: "WalEnv \<Rightarrow> BufferDescription \<Rightarrow> Disk \<Rightarrow> bool" where
  "empty_writer env bd d \<longleftrightarrow> names_fresh env d \<and> (\<exists>f. bd_walfile bd = Some f \<and> wf_writed f = 0 \<and>
     wf_filename f \<in> wal_path env ` set (mf_wal (dk_manifest d)) \<and> writer_rep env f d [])"

lemma create_new_zero:
  assumes "names_fresh env (wm_disk wm)" "\<forall>f. bd_walfile bd = Some f \<longrightarrow> file_rep f (wm_disk wm) []"
  shows "\<exists>bd1 wm1. create_new env bd i wm = Some (bd1, wm1) \<and> empty_writer env bd1 (wm_disk wm1) \<and>
    bd_pos bd1 = bd_pos bd \<and> bd_buffer bd1 = bd_buffer bd \<and> filesCount env wm1 = Suc (filesCount env wm)"
proof -
  obtain w where w: "(case bd_walfile bd of None \<Rightarrow> Some wm
      | Some walfile_ptr \<Rightarrow> do {
          (mm, p1) \<leftarrow> file_minmax walfile_ptr (wm_disk wm);
          let f = wf_filename walfile_ptr; w = wm\<lparr>wm_file2minmax := (wm_file2minmax wm)(f \<mapsto> mm)\<rparr> in
          Some (if we_strategy_is_wal env then w else dropFile env f w) }) = Some w" and wd: "wm_disk w = wm_disk wm"
    by (rule create_new_note [OF assms(2), of env])
  let ?n = "we_random_file_name env (dk_clock (wm_disk wm))" and ?d = "snd (WALFile_create env i (wm_disk wm))"
  have f: "fst (WALFile_create env i (wm_disk wm)) = \<lparr>wf_filename = we_path env ?n, wf_is_readonly = False, wf_writed = 0, wf_idBloom = ucast bloom_empty,
       wf_minTime = MAX_TIME, wf_maxTime = MIN_TIME\<rparr>"
    and d: "?d = (wm_disk wm)\<lparr>dk_clock := Suc (dk_clock (wm_disk wm)), dk_manifest := wal_append ?n i (dk_manifest (wm_disk wm))\<rparr>"
    by (simp_all add: WALFile_create_def Let_def)
  have "dk_files (wm_disk wm) (we_path env ?n) = None" using assms(1) by (auto simp: names_fresh_def)
  moreover have "names_fresh env ?d" using assms(1) by (auto simp: d names_fresh_def wal_append_def wal_path_def)
  ultimately have "empty_writer env (bd\<lparr>bd_walfile := Some (fst (WALFile_create env i (wm_disk wm)))\<rparr>) ?d"
    by (auto simp: empty_writer_def f d wal_append_def writer_rep_def wal_path_def)
  then show ?thesis using w wd
    by (auto simp: create_new_def case_prod_unfold filesCount_def wal_files_all_def wal_list_def d wal_append_def)
qed

lemma flush_loop_zero_step:
  assumes "we_wal_file_size env = 0" "empty_writer env bd (wm_disk wm)" "tot \<noteq> bd_pos bd"
  shows "\<exists>bd1 wm1. flush_loop env i pos tot bd wm = flush_loop env i pos tot bd1 wm1 \<and> empty_writer env bd1 (wm_disk wm1) \<and>
    bd_pos bd1 = bd_pos bd \<and> filesCount env wm1 = Suc (filesCount env wm)"
proof -
  obtain f where f: "bd_walfile bd = Some f" "wf_writed f = 0" "wf_filename f \<in> wal_path env ` set (mf_wal (dk_manifest (wm_disk wm)))"
    "writer_rep env f (wm_disk wm) []" and fresh: "names_fresh env (wm_disk wm)"
    using assms(2) by (auto simp: empty_writer_def)
  let ?d = "open_to_append f (wm_disk wm)"
  have n: "names_fresh env ?d" using fresh f(3) open_to_append_rep [OF f(4)] by (auto simp: names_fresh_def)
  obtain bd1 wm1 where c: "create_new env (bd\<lparr>bd_walfile := Some f\<rparr>) i (wm\<lparr>wm_disk := ?d\<rparr>) = Some (bd1, wm1)"
    "empty_writer env bd1 (wm_disk wm1)" "bd_pos bd1 = bd_pos bd" "filesCount env wm1 = Suc (filesCount env (wm\<lparr>wm_disk := ?d\<rparr>))"
    using create_new_zero [of env "wm\<lparr>wm_disk := ?d\<rparr>" "bd\<lparr>bd_walfile := Some f\<rparr>" i] n writer_file_rep [OF f(4)] by auto
  have "flush_loop env i pos tot bd wm = flush_loop env i pos tot bd1 wm1"
    by (rule flush_loop_step(2) [OF f(1) append_range_zero [OF assms(1) f(2)] _ _ _ c(1)])
      (use assms(3) c(3) in \<open>simp_all add: Status_empty_def\<close>)
  moreover have "filesCount env wm1 = Suc (filesCount env wm)"
    using c(4) open_to_append_rep(2) [OF f(4)] by (simp add: filesCount_def wal_files_all_def)
  ultimately show ?thesis using c by blast
qed

lemma flush_loop_zero_steps:
  assumes "we_wal_file_size env = 0" "empty_writer env bd (wm_disk wm)" "tot \<noteq> bd_pos bd"
  shows "\<exists>bd1 wm1. flush_loop env i pos tot bd wm = flush_loop env i pos tot bd1 wm1 \<and> filesCount env wm1 = filesCount env wm + n"
  using assms(2,3)
proof (induction n arbitrary: bd wm)
  case (Suc n)
  obtain bd1 wm1 where 1: "flush_loop env i pos tot bd wm = flush_loop env i pos tot bd1 wm1" "empty_writer env bd1 (wm_disk wm1)"
    "bd_pos bd1 = bd_pos bd" "filesCount env wm1 = Suc (filesCount env wm)"
    using flush_loop_zero_step [OF assms(1) Suc.prems] by blast
  show ?case using Suc.IH [OF 1(2)] 1 Suc.prems(2) by auto
qed auto



section \<open>A cache of one value\<close>

text \<open>C15: With a cache of one value the first append of an id fills the buffer without a flush and the second append writes
  past the end of the buffer.\<close>

theorem wal_cache_size_one:
  assumes "we_wal_cache_size env = 1" "sm_ok jenkins_one_hash (wm_buffers wm)" "wm_find wm (m_id v) = None" "m_id w = m_id v"
  shows "\<exists>wm1. WALManager_append env v wm = Some (Status_writed 1, wm1) \<and> WALManager_append env w wm1 = None"
proof -
  let ?h = "jenkins_one_hash :: Id \<Rightarrow> nat"
  let ?bd = "(BufferDescription_new None 1)\<lparr>bd_buffer := [v], bd_pos := 1\<rparr>"
  obtain m where a: "WALManager_append env v wm = Some (Status_writed 1, wm\<lparr>wm_buffers := m\<rparr>)"
    "wm_find (wm\<lparr>wm_buffers := m\<rparr>) = (wm_find wm)(m_id v \<mapsto> Some ?bd)" "sm_ok ?h m"
    using WALManager_append_new [OF assms(2,3), of env] assms(1) by auto
  obtain m2 it2 where fb2: "sm_find_bucket ?h None m (m_id v) = (m2, it2)" by (cases "sm_find_bucket ?h None m (m_id v)")
  have "sm_find ?h m (m_id v) = Some (Some ?bd)" using fun_cong [OF a(2), of "m_id v"] by (simp add: wm_find_def)
  then have "sm_at m2 it2 = Some ?bd"
    using sm_find_bucket_ok [OF a(3) fb2] sm_place_at [of ?h m2 it2 "m_id v"] by simp
  then have "WALManager_append env w (wm\<lparr>wm_buffers := m\<rparr>) = None"
    using fb2 assms(4) by (simp add: WALManager_append_def)
  then show ?thesis using a(1) by blast
qed

theorem wal_cache_size_one_witness:
  "\<exists>wm wm1. WALManager_new (example_env\<lparr>we_wal_cache_size := 1\<rparr>) True example_disk = Some wm \<and>
    WALManager_append (example_env\<lparr>we_wal_cache_size := 1\<rparr>) (wal_meas 1 5) wm = Some (Status_writed 1, wm1) \<and>
    WALManager_append (example_env\<lparr>we_wal_cache_size := 1\<rparr>) (wal_meas 1 6) wm1 = None"
proof -
  let ?wm = "\<lparr>wm_down = None, wm_buffers = sm_new sm_default_n, wm_files_send_to_drop = [], wm_file2minmax = Map.empty, wm_disk = example_disk\<rparr>"
  have n: "0 < sm_default_n" by (simp add: sm_default_n_def)
  have "WALManager_new (example_env\<lparr>we_wal_cache_size := 1\<rparr>) True example_disk = Some ?wm"
    using example_ok(3) by (simp add: WALManager_new_def wal_list_def)
  moreover have "wm_find ?wm (m_id (wal_meas 1 5)) = None" "sm_ok jenkins_one_hash (wm_buffers ?wm)"
    by (simp_all add: wm_find_def sm_new_ok [OF n])
  ultimately show ?thesis
    using wal_cache_size_one [of "example_env\<lparr>we_wal_cache_size := 1\<rparr>" ?wm "wal_meas 1 5" "wal_meas 1 6"]
    by (simp add: wal_meas_def)
qed

section \<open>Files without values\<close>

lemma wm_open_files_empty:
  "fd \<in> set fds \<Longrightarrow> dk_files (wm_disk wm) (we_path env (wd_fname fd)) = Some bs \<Longrightarrow> length bs < 24 \<Longrightarrow> wm_open_files env fds wm = None"
proof (induction fds arbitrary: wm)
  case (Cons f fds)
  show ?case
  proof (cases "f = fd")
    case True
    then show ?thesis using Cons.prems by (simp add: WALFile_open_def WALFile_writed_def)
  next
    case False
    then have IH: "wm_disk w = wm_disk wm \<Longrightarrow> wm_open_files env fds w = None" for w using Cons.prems Cons.IH by auto
    let ?p = "WALFile_open (we_path env (wd_fname f)) False (wm_disk wm)"
    show ?thesis
    proof (cases "file_minmax ?p (wm_disk wm)")
      case (Some r)
      then show ?thesis using IH by (cases r; cases "id_from_first (snd r) (wm_disk wm)") (auto simp: Let_def)
    qed (simp add: Let_def)
  qed
qed simp

text \<open>C16: The manager cannot be opened when a file of the manifest holds no whole value, as after a crash between the
  creation of the file and the first write: the pointer to the file is dereferenced after it was set to null.\<close>

theorem wal_restart_empty_file:
  assumes "fd \<in> set (wal_list (dk_manifest d))" "dk_files d (we_path env (wd_fname fd)) = Some bs" "length bs < 24"
  shows "WALManager_new env True d = None"
  using wm_open_files_empty [of fd "wal_list (dk_manifest d)" _ env bs] assms by (simp add: WALManager_new_def)

theorem wal_restart_empty_file_witness:
  "WALManager_new example_env True (example_disk\<lparr>dk_manifest := wal_append ''a'' 1 Manifest_tables, dk_files := [''/a'' \<mapsto> []]\<rparr>) = None"
  using wal_restart_empty_file [of "\<lparr>wd_fname = ''a'', wd_id = 1\<rparr>"
      "example_disk\<lparr>dk_manifest := wal_append ''a'' 1 Manifest_tables, dk_files := [''/a'' \<mapsto> []]\<rparr>" example_env "[]"]
  by (simp add: wal_append_def wal_list_def Manifest_tables_def example_env_def)

section \<open>The limit of a file\<close>

text \<open>C17: A single append takes one value more than the limit of a file, and after it the append of a range computes a size that
  wraps around, so that it writes from behind the end of the range.\<close>

theorem wal_file_over_limit:
  assumes "wf_writed f = we_wal_file_size env" "ws \<noteq> []" "length ws < 2 ^ 63" "we_wal_file_size env < 2 ^ 63"
  shows "\<exists>f1 d1. WALFile_append env f v 0 d = (Status_writed 1, f1, d1) \<and> wf_writed f1 = we_wal_file_size env + 1 \<and>
    WALFile_append_range env f1 ws d1 = None"
proof -
  let ?f = "(wal_note v f)\<lparr>wf_writed := wf_writed f + 1\<rparr>" and ?d = "fwrite (wf_filename f) [v] (open_to_append f d)"
  have a: "WALFile_append env f v 0 d = (Status_writed 1, ?f, ?d)" using assms(1) by (simp add: WALFile_append_def)
  let ?s = "we_wal_file_size env"
  have s: "unat ?s < 2 ^ 63" using assms(4) by (simp add: word_less_nat_alt)
  have u1: "unat (?s + 1) = unat ?s + 1" using s by (simp add: unat_plus_simple unat_word_ariths)
  have u2: "unat (of_nat (length ws) + (?s + 1) :: u64) = length ws + (unat ?s + 1)"
    using s assms(3) u1 unat_of_nat_u64 [of "length ws"] by (simp add: unat_word_ariths)
  have "of_nat (length ws) + (?s + 1) > ?s" using u2 by (simp add: word_less_nat_alt)
  then have w: "wal_write_size env ?f (length ws) = - 1" using assms(1) by (simp add: wal_write_size_def)
  have "unat (- 1 :: u64) = 2 ^ 64 - 1" by (simp add: unsigned_minus_1_eq_mask mask_eq_exp_minus_1)
  then have "WALFile_append_range env ?f ws ?d = None" using w assms(3) by (simp add: WALFile_append_range_def)
  then show ?thesis using a assms(1) by auto
qed

theorem wal_file_over_limit_witness:
  "\<exists>f1 d1. WALFile_append example_env (WALFile_open ''/a'' False (example_disk\<lparr>dk_files := [''/a'' \<mapsto> fwrite_meas [wal_meas 1 1, wal_meas 1 2, wal_meas 1 3]]\<rparr>))
      (wal_meas 1 5) 0 example_disk = (Status_writed 1, f1, d1) \<and> wf_writed f1 = 4 \<and> WALFile_append_range example_env f1 [wal_meas 1 6] d1 = None"
  using wal_file_over_limit [of "WALFile_open ''/a'' False (example_disk\<lparr>dk_files := [''/a'' \<mapsto> fwrite_meas [wal_meas 1 1, wal_meas 1 2, wal_meas 1 3]]\<rparr>)"
      example_env "[wal_meas 1 6]" "wal_meas 1 5" example_disk]
  by (simp add: WALFile_open_def WALFile_writed_def example_env_def)

end
