(* ===== verification/WalQueries.thy ===== *)
theory WalQueries
  imports WalLimits
begin

text \<open>
  Queries of the write-ahead log: the filter over the bounds and the ids of closed files, the bounds of an id, and
  values that queries do not see.
\<close>

section \<open>Bounds of a file\<close>

lemma fold_min_start: "fold (\<lambda>v r. min (m_time v) r) vs t \<le> t"
proof (induction vs arbitrary: t)
  case (Cons v vs)
  show ?case using Cons [of "min (m_time v) t"] by simp
qed simp

lemma fold_min_le: "v \<in> set vs \<Longrightarrow> fold (\<lambda>v r. min (m_time v) r) vs t \<le> m_time v"
proof (induction vs arbitrary: t)
  case (Cons w vs)
  show ?case using Cons fold_min_start [of vs "min (m_time w) t"] by auto
qed simp

lemma fold_max_start: "t \<le> fold (\<lambda>v r. max (m_time v) r) vs t"
proof (induction vs arbitrary: t)
  case (Cons v vs)
  show ?case using Cons [of "max (m_time v) t"] by simp
qed simp

lemma fold_max_ge: "v \<in> set vs \<Longrightarrow> m_time v \<le> fold (\<lambda>v r. max (m_time v) r) vs t"
proof (induction vs arbitrary: t)
  case (Cons w vs)
  show ?case using Cons fold_max_start [of "max (m_time w) t" vs] by auto
qed simp

lemma fold_max_less: "t < b \<Longrightarrow> \<forall>v \<in> set vs. m_time v < b \<Longrightarrow> fold (\<lambda>v r. max (m_time v) r) vs t < b"
  by (induction vs arbitrary: t) auto

definition bloom_ids :: "Meas list \<Rightarrow> Id \<Rightarrow> Id" where
  "bloom_ids vs b = fold (\<lambda>v b. ucast (bloom_add (ucast b) (m_id v))) vs b"

lemma bloom_id_add: "bloom_check (ucast b) i \<Longrightarrow> bloom_check (ucast (ucast (bloom_add (ucast b) j) :: Id)) i"
  "bloom_check (ucast (ucast (bloom_add (ucast (b :: Id)) j) :: Id)) j" for b :: Id and i j :: Id
  unfolding bloom_check_bits bloom_add_def by (auto simp: bit_simps dest: bit_imp_le_length)

lemma bloom_ids_mono: "bloom_check (ucast b) i \<Longrightarrow> bloom_check (ucast (bloom_ids vs b)) i" for i :: Id
  unfolding bloom_ids_def by (induction vs arbitrary: b) (auto intro: bloom_id_add)

lemma bloom_ids_check: "v \<in> set vs \<Longrightarrow> bloom_check (ucast (bloom_ids vs b)) (m_id v)"
proof (induction vs arbitrary: b)
  case (Cons w vs)
  show ?case using Cons.IH Cons.prems bloom_ids_mono [OF bloom_id_add(2)] by (auto simp: bloom_ids_def)
qed simp

text \<open>The filter of a file object was not computed yet or has the ids of all values.\<close>

definition bloom_rep :: "WALFile \<Rightarrow> Meas list \<Rightarrow> bool" where
  "bloom_rep f vs \<longleftrightarrow> wf_idBloom f = 0 \<or> (\<forall>v \<in> set vs. bloom_check (ucast (wf_idBloom f)) (m_id v))"

lemma file_minmax_values:
  assumes "file_rep f d vs" "file_minmax f d = Some (mm, f1)" "bloom_rep f vs"
  shows "tm_minTime mm = fold (\<lambda>v r. min (m_time v) r) vs MAX_TIME" "tm_maxTime mm = fold (\<lambda>v r. max (m_time v) r) vs MIN_TIME"
    "v \<in> set vs \<Longrightarrow> bloom_check (ucast (tm_bloom_id mm)) (m_id v)"
    "wf_filename f1 = wf_filename f" "wf_writed f1 = wf_writed f"
  using assms readAll_rep [OF assms(1)] bloom_ids_check [of v vs "ucast bloom_empty"]
  by (cases "wf_idBloom f = 0"; auto simp: file_minmax_def WALFile_minTime_def WALFile_maxTime_def id_bloom_def updateBloom_def
      bloom_ids_def bloom_rep_def)+

text \<open>C8: The filter of closed files is safe: a file whose bounds and ids were recorded from its contents is visited by every
  interval query and by every time point query that asks for the id of one of its values and reaches the time of that value.\<close>

theorem wal_file_in_query_safe:
  assumes "file_rep f d vs" "bloom_rep f vs" "file_minmax f d = Some (mm, f1)" "wm_file2minmax wm (wf_filename f) = Some mm"
    "v \<in> set vs"
  shows "(inInterval (q_from q) (q_to q) (m_time v) \<and> m_id v \<in> set (q_ids q) \<longrightarrow> file_in_query wm (wf_filename f) q) \<and>
    (m_time v \<le> q_time_point p \<and> m_id v \<in> set (q_ids p) \<longrightarrow> file_in_query_point wm (wf_filename f) p)"
proof -
  note mm = file_minmax_values [OF assms(1,3,2)]
  have b: "tm_minTime mm \<le> m_time v" "m_time v \<le> tm_maxTime mm"
    using mm(1,2) fold_min_le [OF assms(5)] fold_max_ge [OF assms(5)] by auto
  show ?thesis using b mm(3) [OF assms(5)] assms(4)
    by (auto simp: file_in_query_def file_in_query_point_def inInterval_def list_ex_iff)
qed

theorem wal_file_in_query_safe_witness:
  "let d = example_disk\<lparr>dk_files := [''/a'' \<mapsto> fwrite_meas [wal_meas 1 5, wal_meas 1 9]]\<rparr>; f = WALFile_open ''/a'' False d in
   \<exists>mm f1. file_minmax f d = Some (mm, f1) \<and>
     file_in_query \<lparr>wm_down = None, wm_buffers = sm_new 1, wm_files_send_to_drop = [], wm_file2minmax = [''/a'' \<mapsto> mm], wm_disk = d\<rparr> ''/a''
       \<lparr>q_ids = [1], q_flag = 0, q_from = 8, q_to = 20, q_step = 0\<rparr>"
proof -
  let ?vs = "[wal_meas 1 5, wal_meas 1 9]" and ?d = "example_disk\<lparr>dk_files := [''/a'' \<mapsto> fwrite_meas [wal_meas 1 5, wal_meas 1 9]]\<rparr>"
  let ?f = "WALFile_open ''/a'' False ?d"
  have rep: "file_rep ?f ?d ?vs" by (rule WALFile_open_rep) simp_all
  obtain mm f1 where mm: "file_minmax ?f ?d = Some (mm, f1)" by (rule file_minmax_rep [OF rep])
  let ?wm = "\<lparr>wm_down = None, wm_buffers = sm_new 1, wm_files_send_to_drop = [], wm_file2minmax = [''/a'' \<mapsto> mm], wm_disk = ?d\<rparr>"
  have "bloom_rep ?f ?vs" by (simp add: bloom_rep_def WALFile_open_def)
  then show ?thesis
    using wal_file_in_query_safe [OF rep _ mm, of ?wm "wal_meas 1 9" "\<lparr>q_ids = [1], q_flag = 0, q_from = 8, q_to = 20, q_step = 0\<rparr>"] mm
    by (auto simp: WALFile_open_def Let_def inInterval_def wal_meas_def)
qed

section \<open>A file that is written to after a restart\<close>

lemma wm_open_one:
  assumes "wal_list (dk_manifest d) = [fd]" "dk_files d (wal_path env fd) = Some (fwrite_meas vs)" "vs \<noteq> []"
    "length vs < unat (we_wal_file_size env)"
  obtains wm mm p1 where "WALManager_new env True d = Some wm" "wm_disk wm = d" "sm_ok jenkins_one_hash (wm_buffers wm)"
    "wm_find wm (m_id (hd vs)) = Some (Some (BufferDescription_new (Some p1) (we_wal_cache_size env)))"
    "wm_file2minmax wm (wal_path env fd) = Some mm" "writer_rep env p1 d vs" "wf_filename p1 = wal_path env fd"
    "tm_minTime mm = fold (\<lambda>v r. min (m_time v) r) vs MAX_TIME" "tm_maxTime mm = fold (\<lambda>v r. max (m_time v) r) vs MIN_TIME"
proof -
  let ?p = "WALFile_open (wal_path env fd) False d"
  have l: "length vs < 2 ^ 64" using assms(4) unsigned_less [where w = "we_wal_file_size env" and ?'a = nat] by simp
  have rep: "file_rep ?p d vs" by (rule WALFile_open_rep [OF assms(2) l])
  obtain mm p1 where mm: "file_minmax ?p d = Some (mm, p1)" by (rule file_minmax_rep [OF rep])
  have "bloom_rep ?p vs" by (simp add: bloom_rep_def WALFile_open_def)
  note v = file_minmax_values [OF rep mm this]
  have w: "wf_filename p1 = wal_path env fd" using v(4) by (simp add: WALFile_open_def)
  have p1: "writer_rep env p1 d vs" using w v(5) rep assms(2,4) by (simp add: writer_rep_def file_rep_def)
  have rd: "readAll p1 d = Some vs" using v(5) w rep by (intro readAll_rep) (simp add: file_rep_def WALFile_open_def)
  let ?bd = "BufferDescription_new (Some p1) (we_wal_cache_size env)"
  let ?wm = "\<lparr>wm_down = None, wm_buffers = sm_insert jenkins_one_hash None (sm_new sm_default_n) (m_id (hd vs)) (Some ?bd),
    wm_files_send_to_drop = [], wm_file2minmax = [wal_path env fd \<mapsto> mm], wm_disk = d\<rparr>"
  have nz: "wf_writed ?p \<noteq> 0" "WALFile_writed (wal_path env fd) d \<noteq> we_wal_file_size env"
    using rep assms(2,3,4) unat_of_nat_u64 [OF l] by (auto simp: file_rep_def WALFile_writed_def)
  have i: "id_from_first p1 d = Some (m_id (hd vs))" using rd assms(3) by (cases vs) (auto simp: id_from_first_def)
  have new: "WALManager_new env True d = Some ?wm"
    using assms(1) mm nz i by (simp add: WALManager_new_def wal_path_def Let_def)
  have n: "sm_ok jenkins_one_hash (sm_new sm_default_n :: (Id, BufferDescription option) stripped_map)"
    by (simp add: sm_new_ok sm_default_n_def)
  show ?thesis using that [of ?wm p1 mm] new sm_insert_ok [OF n] p1 w v(1,2) by (simp add: wm_find_def)
qed

lemma flush_one:
  assumes "writer_rep env f (wm_disk wm) vs" "bd_walfile bd = Some f" "bd_values bd = [w]" "bd_pos bd = 1"
    "length vs < unat (we_wal_file_size env)"
  obtains bd1 d1 where "flush_buffer_logic env bd wm = Some (bd1, wm\<lparr>wm_disk := d1\<rparr>)" "bd_pos bd1 = 0" "dk_manifest d1 = dk_manifest (wm_disk wm)"
    "dk_files d1 = (dk_files (wm_disk wm))(wf_filename f \<mapsto> fwrite_meas (vs @ [w]))"
proof -
  have n: "room env (length vs) 1 = 1" using assms(5) by (simp add: room_def)
  have l: "length vs + length [w] < 2 ^ 64" using assms(5) unsigned_less [where w = "we_wal_file_size env" and ?'a = nat] by simp
  obtain st f1 d1 where ap: "WALFile_append_range env f (drop 0 (bd_values bd)) (wm_disk wm) = Some (st, f1, d1)" "st_writed st = of_nat 1"
    "st_error st = APPEND_OK" "dk_files d1 = (dk_files (wm_disk wm))(wf_filename f \<mapsto> fwrite_meas (vs @ [w]))"
    "dk_manifest d1 = dk_manifest (wm_disk wm)"
    by (rule append_range_rep [OF assms(1) l]) (use n assms(3) in simp_all)
  obtain front rest where fr: "bd_buffer bd = front # rest" using assms(3) by (cases "bd_buffer bd") (auto simp: bd_values_def)
  have "flush_loop env (m_id front) 0 0 bd wm = Some (bd\<lparr>bd_walfile := Some f1, bd_pos := 0\<rparr>, wm\<lparr>wm_disk := d1\<rparr>)"
    using flush_loop_step(1) [OF assms(2) ap(1), of "m_id front" 0] ap(2,3) assms(4) by (simp add: Let_def)
  then show ?thesis using that [of "bd\<lparr>bd_walfile := Some f1, bd_pos := 0\<rparr>" d1] ap(4,5) fr assms(2,4)
    by (simp add: flush_buffer_logic_def)
qed

lemma intervalReader_nothing:
  assumes "q_ids q = [i]" "\<forall>f \<in> set (wal_files env i wm). \<not> file_in_query wm f q" "wm_buffered_id wm i = Some []"
  shows "WALManager_intervalReader env q wm = Some []"
proof -
  have e: "q\<lparr>q_ids := [i]\<rparr> = q" using assms(1) by (cases q) simp
  have "filter (\<lambda>f. file_in_query wm f q) (wal_files env i wm) = []" using assms(2) by (simp add: filter_empty_conv)
  then show ?thesis using assms(3)
    by (simp add: WALManager_intervalReader_def intervalReader_async_logic_def mset_readers_def assms(1) e)
qed

text \<open>C13: The bounds of a file that was not full at a restart are recorded when it is opened and stay as they are while the file
  is written to: a value that comes after the restart and is later than those of the file is appended and flushed to the
  file, and a query for exactly this value returns nothing.\<close>

theorem wal_reopen_misses:
  assumes "wal_list (dk_manifest d) = [fd]" "dk_files d (we_path env (wd_fname fd)) = Some (fwrite_meas vs)" "vs \<noteq> []"
    "length vs < unat (we_wal_file_size env)" "2 \<le> we_wal_cache_size env" "m_id w = m_id (hd vs)" "wd_id fd = m_id w"
    "\<forall>v \<in> set vs. m_time v < m_time w" "m_time w \<le> t"
  shows "\<exists>wm wm1 wm2. WALManager_new env True d = Some wm \<and> WALManager_append env w wm = Some (Status_writed 1, wm1) \<and>
    flush_id env (m_id w) wm1 = Some wm2 \<and> wm_values env wm2 (m_id w) = vs @ [w] \<and>
    WALManager_intervalReader env \<lparr>q_ids = [m_id w], q_flag = 0, q_from = m_time w, q_to = t, q_step = 0\<rparr> wm2 = Some []"
proof -
  have path: "wal_path env fd = we_path env (wd_fname fd)" by (simp add: wal_path_def)
  obtain wm mm p1 where n: "WALManager_new env True d = Some wm" "wm_disk wm = d" "sm_ok jenkins_one_hash (wm_buffers wm)"
    "wm_find wm (m_id (hd vs)) = Some (Some (BufferDescription_new (Some p1) (we_wal_cache_size env)))"
    "wm_file2minmax wm (wal_path env fd) = Some mm" "writer_rep env p1 d vs" "wf_filename p1 = wal_path env fd"
    "tm_minTime mm = fold (\<lambda>v r. min (m_time v) r) vs MAX_TIME" "tm_maxTime mm = fold (\<lambda>v r. max (m_time v) r) vs MIN_TIME"
    by (rule wm_open_one [OF assms(1) _ assms(3,4)]) (use assms(2) path in simp_all)
  let ?bd = "BufferDescription_new (Some p1) (we_wal_cache_size env)"
  have bd: "bd_pos ?bd < length (bd_buffer ?bd)" "bd_values (bd_push w ?bd) = [w]" "bd_pos (bd_push w ?bd) = 1" "bd_walfile (bd_push w ?bd) = Some p1"
    using assms(5) bd_push_values [of ?bd w] by (auto simp: BufferDescription_new_def bd_push_def bd_values_def)
  obtain m1 where a: "WALManager_append env w wm = Some (Status_writed 1, wm_set_buffer (m_id w) (bd_push w ?bd) (wm\<lparr>wm_buffers := m1\<rparr>))"
    "wm_find (wm\<lparr>wm_buffers := m1\<rparr>) = wm_find wm" "sm_ok jenkins_one_hash m1"
    by (rule WALManager_append_known [OF n(3), of w ?bd env]) (use n(4) bd(1,3) assms(5,6) in simp_all)
  let ?wm1 = "wm_set_buffer (m_id w) (bd_push w ?bd) (wm\<lparr>wm_buffers := m1\<rparr>)"
  have s1: "wm_find ?wm1 = (wm_find wm)(m_id w \<mapsto> Some (bd_push w ?bd))" "sm_ok jenkins_one_hash (wm_buffers ?wm1)" "wm_disk ?wm1 = d"
    using wm_set_buffer_find [of "wm\<lparr>wm_buffers := m1\<rparr>" "m_id w" "bd_push w ?bd"] a(2,3) n(2,4) assms(6) by auto
  obtain bd1 d1 where f: "flush_buffer_logic env (bd_push w ?bd) ?wm1 = Some (bd1, ?wm1\<lparr>wm_disk := d1\<rparr>)" "bd_pos bd1 = 0" "dk_manifest d1 = dk_manifest d"
    "dk_files d1 = (dk_files d)(wal_path env fd \<mapsto> fwrite_meas (vs @ [w]))"
    by (rule flush_one [of env p1 ?wm1 vs "bd_push w ?bd" w]) (use s1(3) n(6,7) bd assms(4) in simp_all)
  let ?wm2 = "wm_set_buffer (m_id w) bd1 (?wm1\<lparr>wm_disk := d1\<rparr>)"
  have s2: "wm_find ?wm2 (m_id w) = Some (Some bd1)" "wm_disk ?wm2 = d1"
    using wm_set_buffer_find [of "?wm1\<lparr>wm_disk := d1\<rparr>" "m_id w" bd1] s1 by (auto simp: wm_find_def fun_eq_iff)
  have fl: "flush_id env (m_id w) ?wm1 = Some ?wm2" using s1(1) f(1) bd(3) by (simp add: flush_id_def)
  have files: "wal_list_id (m_id w) (dk_manifest d1) = [fd]" using f(3) assms(1,7) by (simp add: wal_list_id_def wal_list_def)
  have "bd_values bd1 = []" using f(2) by (simp add: bd_values_def)
  then have v: "wm_values env ?wm2 (m_id w) = vs @ [w]" "wm_buffered_id ?wm2 (m_id w) = Some []"
    using s2 files f(4) by (simp_all add: wm_values_def wal_values_def wm_buffered_id_def)
  have mm2: "wm_file2minmax ?wm2 (wal_path env fd) = Some mm" using n(5) by (simp add: wm_set_buffer_def)
  have h: "m_time (hd vs) < m_time w" using assms(3,8) by (cases vs) auto
  have "MIN_TIME < m_time w" using le_less_trans [OF word_zero_le h] by (simp add: MIN_TIME_def)
  then have "tm_maxTime mm < m_time w" using n(9) fold_max_less [OF _ assms(8)] by simp
  moreover have "tm_minTime mm < m_time w" using n(8) fold_min_le [of "hd vs" vs MAX_TIME] h assms(3) by auto
  ultimately have "\<not> file_in_query ?wm2 (wal_path env fd) \<lparr>q_ids = [m_id w], q_flag = 0, q_from = m_time w, q_to = t, q_step = 0\<rparr>"
    using mm2 assms(9) by (auto simp: file_in_query_def inInterval_def)
  then have "WALManager_intervalReader env \<lparr>q_ids = [m_id w], q_flag = 0, q_from = m_time w, q_to = t, q_step = 0\<rparr> ?wm2 = Some []"
    using files s2(2) v(2) by (intro intervalReader_nothing) (auto simp: wal_files_def wal_path_def)
  then show ?thesis using n(1) a(1) fl v(1) by blast
qed

theorem wal_reopen_misses_witness:
  "\<exists>wm wm1 wm2. WALManager_new example_env True (example_disk\<lparr>dk_manifest := wal_append ''a'' 1 Manifest_tables, dk_files := [''/a'' \<mapsto> fwrite_meas [wal_meas 1 5]]\<rparr>) = Some wm \<and>
    WALManager_append example_env (wal_meas 1 8) wm = Some (Status_writed 1, wm1) \<and> flush_id example_env 1 wm1 = Some wm2 \<and>
    map m_time (wm_values example_env wm2 1) = [5, 8] \<and>
    WALManager_intervalReader example_env \<lparr>q_ids = [1], q_flag = 0, q_from = 8, q_to = 10, q_step = 0\<rparr> wm2 = Some []"
  using wal_reopen_misses [of "example_disk\<lparr>dk_manifest := wal_append ''a'' 1 Manifest_tables, dk_files := [''/a'' \<mapsto> fwrite_meas [wal_meas 1 5]]\<rparr>"
      "\<lparr>wd_fname = ''a'', wd_id = 1\<rparr>" example_env "[wal_meas 1 5]" "wal_meas 1 8" 10]
  by (auto simp: wal_list_def wal_append_def Manifest_tables_def example_env_def wal_meas_def)

end
