(* ===== verification/WalTimes.thy ===== *)
theory WalTimes
  imports WalQueries
begin

text \<open>Time bounds and points of the write-ahead log.\<close>

section \<open>Bounds of an id\<close>

abbreviation least_time :: "Meas list \<Rightarrow> Time \<Rightarrow> Time" where
  "least_time vs t \<equiv> fold (\<lambda>v r. min (m_time v) r) vs t"

abbreviation greatest_time :: "Meas list \<Rightarrow> Time \<Rightarrow> Time" where
  "greatest_time vs t \<equiv> fold (\<lambda>v r. max (m_time v) r) vs t"

lemma least_time_min: "least_time vs (min a b) = min (least_time vs a) b"
  by (induction vs arbitrary: a) (simp_all flip: min.assoc)

lemma greatest_time_max: "greatest_time vs (max a b) = max (greatest_time vs a) b"
  by (induction vs arbitrary: a) (simp_all flip: max.assoc)

lemma least_time_start: "min (least_time vs MAX_TIME) a = least_time vs a"
  using least_time_min [of vs MAX_TIME a] by (simp add: min_absorb2)

lemma greatest_time_start: "max (greatest_time vs MIN_TIME) a = greatest_time vs a"
proof -
  have "MIN_TIME \<le> a" by (simp add: MIN_TIME_def)
  then show ?thesis using greatest_time_max [of vs MIN_TIME a] by (simp add: max_absorb2)
qed

lemma minMaxTime_fold:
  assumes "\<forall>v \<in> set vs. m_id v = i"
  shows "fold (\<lambda>v (r, mn, mx). if m_id v = i then (True, min mn (m_time v), max mx (m_time v)) else (r, mn, mx)) vs (r, mn, mx) =
    (r \<or> vs \<noteq> [], least_time vs mn, greatest_time vs mx)"
  using assms by (induction vs arbitrary: r mn mx) (auto simp: min.commute max.commute)

lemma buffer_minMax_fold:
  "fold (\<lambda>v (res, mn, mx). (True, min (m_time v) mn, max (m_time v) mx)) vs (r, mn, mx) =
    (r \<or> vs \<noteq> [], least_time vs mn, greatest_time vs mx)"
  by (induction vs arbitrary: r mn mx) auto

lemma WALFile_minMaxTime_rep:
  assumes "file_rep f d vs" "\<forall>v \<in> set vs. m_id v = i"
  shows "WALFile_minMaxTime f i d = Some (vs \<noteq> [], least_time vs MAX_TIME, greatest_time vs MIN_TIME)"
  using readAll_rep [OF assms(1)] minMaxTime_fold [OF assms(2), of False MAX_TIME MIN_TIME] by (simp add: WALFile_minMaxTime_def)

lemma wal_files_minMax:
  assumes "disk_rep env {} d" "set fs \<subseteq> set (mf_wal (dk_manifest d))" "\<forall>f \<in> set fs. \<forall>v \<in> set (disk_values d (wal_path env f)). m_id v = i"
  shows "wal_files_loop (\<lambda>wal (res, mn, mx). do {
         (r, lmin, lmax) \<leftarrow> WALFile_minMaxTime wal i d;
         Some (if r then (True, min lmin mn, max lmax mx) else (res, mn, mx)) }) d (map (wal_path env) fs) (r, mn, mx) =
    (let vs = concat (map (\<lambda>f. disk_values d (wal_path env f)) fs) in Some (r \<or> vs \<noteq> [], least_time vs mn, greatest_time vs mx))"
  using assms(2,3)
proof (induction fs arbitrary: r mn mx)
  case (Cons f fs)
  obtain vs where vs: "dk_files d (wal_path env f) = Some (fwrite_meas vs)" "vs \<noteq> []" "length vs < 2 ^ 64" "disk_values d (wal_path env f) = vs"
    using disk_rep_readable [OF assms(1), of f] Cons.prems(1) by auto
  have rep: "file_rep (WALFile_open (wal_path env f) True d) d vs" by (rule WALFile_open_rep [OF vs(1,3)])
  have "WALFile_minMaxTime (WALFile_open (wal_path env f) True d) i d = Some (True, least_time vs MAX_TIME, greatest_time vs MIN_TIME)"
    using WALFile_minMaxTime_rep [OF rep] Cons.prems(2) vs(2,4) by simp
  then show ?case using Cons.IH [of True "least_time vs mn" "greatest_time vs mx"] Cons.prems vs(2,4)
    by (simp add: least_time_start greatest_time_start Let_def)
qed simp

text \<open>C9: The time bounds of an id are the least and the greatest time of the values that were appended for it, be they in
  closed files, in the file that is written to or in the buffer; an id without values is reported as such.\<close>

theorem wal_min_max_time:
  assumes "wal_limits env" "names_fresh env d" "mf_wal (dk_manifest d) = []"
  shows "\<exists>wm0 wm. WALManager_new env True d = Some wm0 \<and> WALManager_append_list env vs wm0 = Some wm \<and>
    WALManager_minMaxTime env i wm = Some (of_id i vs \<noteq> [], least_time (of_id i vs) MAX_TIME, greatest_time (of_id i vs) MIN_TIME)"
proof -
  obtain wm0 wm where r: "WALManager_new env True d = Some wm0" "WALManager_append_list env vs wm0 = Some wm" "wm_rep env wm"
    "\<And>i. wm_values env wm i = of_id i vs" using WALManager_run [OF assms] by metis
  let ?fs = "wal_list_id i (dk_manifest (wm_disk wm))" and ?d = "wm_disk wm"
  have v: "wal_values env ?d i @ pending wm i = of_id i vs" using r(4) [of i] by (simp add: wm_values_pending)
  have "\<forall>v \<in> set (wal_values env ?d i). m_id v = i" using arg_cong [OF v, of set] by (auto simp: of_id_def)
  then have ids: "\<forall>f \<in> set ?fs. \<forall>v \<in> set (disk_values ?d (wal_path env f)). m_id v = i" by (auto simp: wal_values_def)
  have b: "wm_buffered_id wm i = Some (pending wm i)"
  proof (cases "wm_find wm i")
    case (Some out)
    then obtain bd where "out = Some bd" using r(3) unfolding wm_rep_def by blast
    then show ?thesis using Some by (simp add: wm_buffered_id_def pending_def)
  qed (simp add: wm_buffered_id_def pending_def)
  have "set ?fs \<subseteq> set (mf_wal (dk_manifest ?d))" "disk_rep env {} ?d" using r(3) by (auto simp: wal_list_id_def wm_rep_def)
  from wal_files_minMax [OF this(2,1) ids, of False MAX_TIME MIN_TIME]
  have f: "wal_files_loop (\<lambda>wal (res, mn, mx). do {
         (r, lmin, lmax) \<leftarrow> WALFile_minMaxTime wal i ?d;
         Some (if r then (True, min lmin mn, max lmax mx) else (res, mn, mx)) }) ?d (wal_files env i wm) (False, MAX_TIME, MIN_TIME) =
    Some (wal_values env ?d i \<noteq> [], least_time (wal_values env ?d i) MAX_TIME, greatest_time (wal_values env ?d i) MIN_TIME)"
    by (simp add: wal_files_def wal_values_def Let_def comp_def flip: wal_path_def)
  have "WALManager_minMaxTime env i wm = Some (of_id i vs \<noteq> [], least_time (of_id i vs) MAX_TIME, greatest_time (of_id i vs) MIN_TIME)"
    unfolding WALManager_minMaxTime_def f b v [symmetric] by (simp add: buffer_minMax_fold)
  then show ?thesis using r(1,2) by blast
qed

theorem wal_min_max_time_witness:
  "\<exists>wm0 wm. WALManager_new example_env True example_disk = Some wm0 \<and>
    WALManager_append_list example_env [wal_meas 1 5, wal_meas 2 6, wal_meas 1 3, wal_meas 1 9] wm0 = Some wm \<and>
    WALManager_minMaxTime example_env 1 wm = Some (True, 3, 9)"
  using wal_min_max_time [OF example_ok, of "[wal_meas 1 5, wal_meas 2 6, wal_meas 1 3, wal_meas 1 9]" 1]
  by (simp add: of_id_def wal_meas_def MAX_TIME_def MIN_TIME_def)

section \<open>Time points\<close>

lemma replace_if_older_keeps: "replace_if_older m s = (if s (m_id m) = None then s(m_id m \<mapsto> m) else s)"
  by (auto simp: replace_if_older_def umap_emplace_def split: option.splits)

lemma fold_replace_if_older: "fold replace_if_older ms s j = (if s j = None then find (\<lambda>m. m_id m = j) ms else s j)"
  by (induction ms arbitrary: s) (auto simp: replace_if_older_keeps)

lemma remdups_same: "\<forall>x \<in> set xs. x = i \<Longrightarrow> xs \<noteq> [] \<Longrightarrow> remdups xs = [i]"
proof (induction xs)
  case (Cons x xs)
  then show ?case by (cases xs) auto
qed simp

lemma first_hit:
  assumes "\<forall>m \<in> set ms. m_id m = i"
  shows "add_missing [i] t (remdups (map m_id ms)) (fold replace_if_older ms Map.empty) i =
    Some (case ms of [] \<Rightarrow> no_data i t | m # _ \<Rightarrow> m)"
proof (cases ms)
  case (Cons m ms')
  have "remdups (map m_id ms) = [i]" by (rule remdups_same) (use assms Cons in auto)
  then show ?thesis using assms Cons by (simp add: add_missing_def fold_replace_if_older replace_if_older_keeps)
qed (simp add: add_missing_def)

text \<open>C12: The value of a file at a time point and its current value are the first value of the file that matches, not the
  latest: the comparison of the times has no effect, because an entry that is there is not replaced.\<close>

theorem wal_file_point_first:
  assumes "file_rep f d vs" "q_ids q = [i]"
  shows "(\<exists>r. WALFile_readTimePoint f q d = Some r \<and> r i = Some (case filter (\<lambda>v. inQuery v [i] (q_flag q) \<and> m_time v \<le> q_time_point q) vs of
      [] \<Rightarrow> no_data i (q_time_point q) | v # _ \<Rightarrow> v)) \<and>
    (\<exists>r. WALFile_currentValue f [i] flag d = Some r \<and> r i = Some (case filter (\<lambda>v. inFlag v flag \<and> m_id v = i) vs of
      [] \<Rightarrow> no_data i 0 | v # _ \<Rightarrow> v))"
proof -
  have 1: "\<forall>m \<in> set (filter (\<lambda>v. inQuery v [i] (q_flag q) \<and> m_time v \<le> q_time_point q) vs). m_id m = i"
    by (auto simp: inQuery_def inIds_def)
  have 2: "\<forall>m \<in> set (filter (\<lambda>v. inFlag v flag \<and> m_id v = i) vs). m_id m = i" by auto
  have e: "filter (\<lambda>v. inFlag v flag \<and> inIds v [i]) vs = filter (\<lambda>v. inFlag v flag \<and> m_id v = i) vs"
    by (rule filter_cong) (auto simp: inIds_def)
  show ?thesis using readAll_rep [OF assms(1)] first_hit [OF 1] first_hit [OF 2] assms(2)
    by (simp add: WALFile_readTimePoint_def WALFile_currentValue_def Let_def e)
qed

theorem wal_file_point_first_witness:
  "let d = example_disk\<lparr>dk_files := [''/a'' \<mapsto> fwrite_meas [wal_meas 1 5, wal_meas 1 9]]\<rparr>; f = WALFile_open ''/a'' True d in
   \<exists>r s. WALFile_readTimePoint f \<lparr>q_ids = [1], q_flag = 0, q_time_point = 10\<rparr> d = Some r \<and> r 1 = Some (wal_meas 1 5) \<and>
     WALFile_currentValue f [1] 0 d = Some s \<and> s 1 = Some (wal_meas 1 5)"
proof -
  let ?d = "example_disk\<lparr>dk_files := [''/a'' \<mapsto> fwrite_meas [wal_meas 1 5, wal_meas 1 9]]\<rparr>"
  have "file_rep (WALFile_open ''/a'' True ?d) ?d [wal_meas 1 5, wal_meas 1 9]" by (rule WALFile_open_rep) simp_all
  from wal_file_point_first [OF this, of "\<lparr>q_ids = [1], q_flag = 0, q_time_point = 10\<rparr>" 1 0] show ?thesis
    by (auto simp: Let_def inQuery_def inIds_def inFlag_def wal_meas_def)
qed



end
