(* ===== verification/StorageLive.thy ===== *)
theory StorageLive
  imports StorageCorrect
begin

text \<open>
  When an append to the memory storage returns: the loop of \<^verbatim>\<open>append\<close> and the dropping thread as steps, a state
  they never leave, and how the drop lets a waiting append return.  What a stop writes down.
\<close>

section \<open>A state without progress\<close>

definition no_index :: "MemStorage \<Rightarrow> bool" where
  "no_index ms \<longleftrightarrow> sm_ok jenkins_one_hash (ms_id2track ms) \<and>
     (\<forall>i out. ms_find ms i = Some out \<longrightarrow> (\<exists>tr. out = Some tr \<and> tt_index tr = []))"

text \<open>All memory is in the current chunks of other tracks: no track has a chunk to drop, and the track of the
  value has none at all.\<close>

definition stuck :: "Meas \<Rightarrow> MemStorage \<Rightarrow> bool" where
  "stuck v ms \<longleftrightarrow> no_index ms \<and> (\<exists>tr. ms_find ms (m_id v) = Some (Some tr) \<and> tt_cur_chunk tr = None) \<and>
     (\<exists>a. mp_allocator (ms_pool ms) = Region a \<and> ra_free_list a = []) \<and>
     \<not> ms_drop_stop ms \<and> \<not> set_is_memory_only_mode (ms_settings ms)"

lemma Status_error_neq [simp]: "\<not> Status_eq (Status_error s 1 e) (Status_writed 1)"
  by (simp add: Status_eq_def Status_error_def Status_writed_def)

lemma track_append_no_memory:
  assumes "tt_cur_chunk tr = None" "mp_allocator w = Region a" "ra_free_list a = []"
  shows "TimeTrack_append tr v w = Some (Returned (Status_error (mp_stack w) 1 bad_alloc), tr, w)"
  using assms by (simp add: TimeTrack_append_def create_new_chunk_def RegionChunkAllocator_allocate_def)

lemma append_attempt_stuck:
  assumes "stuck v ms"
  shows "\<exists>ms'. append_attempt v ms = Some (None, ms') \<and> stuck v ms'"
proof -
  obtain tr a where s: "ms_find ms (m_id v) = Some (Some tr)" "tt_cur_chunk tr = None" "mp_allocator (ms_pool ms) = Region a" "ra_free_list a = []"
    "\<not> ms_drop_stop ms" "\<not> set_is_memory_only_mode (ms_settings ms)" and n: "no_index ms" using assms by (auto simp: stuck_def)
  have t: "TimeTrack_append tr v (ms_pool ms) = Some (Returned (Status_error (mp_stack (ms_pool ms)) 1 bad_alloc), tr, ms_pool ms)"
    by (rule track_append_no_memory [OF s(2,3,4)])
  let ?ms = "ms_set_track (m_id v) tr ms"
  have ok: "sm_ok jenkins_one_hash (ms_id2track ms)" using n by (simp add: no_index_def)
  have f: "ms_find ?ms = ms_find ms" using ms_find_set_track [OF ok, of "m_id v" tr] s(1) by (auto simp: fun_eq_iff)
  have ok2: "sm_ok jenkins_one_hash (ms_id2track ?ms)" using sm_write_ok [OF ok] by (simp add: ms_set_track_def)
  have g: "ms_pool ?ms = ms_pool ms" "ms_drop_stop ?ms = ms_drop_stop ms" "ms_settings ?ms = ms_settings ms" by (simp_all add: ms_set_track_def)
  have "no_index ?ms" using n ok2 unfolding no_index_def f by blast
  then have "stuck v ?ms" using s unfolding stuck_def f g by auto
  then show ?thesis using t s by (simp add: append_attempt_def ms_track_def)
qed

lemma drop_tracks_none:
  assumes "no_index ms" "\<forall>i \<in> set ids. ms_find ms i \<noteq> None"
  shows "drop_tracks n cur ids ms = Some ([], ms)"
  using assms(2)
proof (induction ids)
  case (Cons i ids)
  obtain tr where "ms_find ms i = Some (Some tr)" "tt_index tr = []" using Cons.prems assms(1) unfolding no_index_def by (metis list.set_intros(1) not_None_eq)
  then show ?case using Cons by (simp add: ms_track_def)
qed simp

lemma track_keys:
  assumes "sm_ok jenkins_one_hash (ms_id2track ms)"
  shows "sm_apply (\<lambda>v ts. ts @ [fst v]) (ms_id2track ms) [] = map fst (sm_items (ms_id2track ms))"
    "i \<in> set (map fst (sm_items (ms_id2track ms))) \<longleftrightarrow> ms_find ms i \<noteq> None"
proof -
  have "fold (\<lambda>v ts. ts @ [fst v]) xs ys = ys @ map fst xs" for xs :: "(Id \<times> TimeTrack option) list" and ys by (induction xs arbitrary: ys) auto
  then show "sm_apply (\<lambda>v ts. ts @ [fst v]) (ms_id2track ms) [] = map fst (sm_items (ms_id2track ms))" by (simp add: sm_apply_items)
  show "i \<in> set (map fst (sm_items (ms_id2track ms))) \<longleftrightarrow> ms_find ms i \<noteq> None"
    using sm_items_map(2) [OF assms] map_of_eq_None_iff [of "sm_items (ms_id2track ms)" i] by (simp add: ms_find_def)
qed

lemma drop_by_limit_none:
  assumes "no_index ms" "drop_by_limit ord p ms = Some ms'"
  shows "ms' = ms"
proof -
  have ok: "sm_ok jenkins_one_hash (ms_id2track ms)" using assms(1) by (simp add: no_index_def)
  have "drop_tracks n cur (map fst (sm_items (ms_id2track ms))) ms = Some ([], ms)" for n cur
    by (rule drop_tracks_none [OF assms(1)]) (use track_keys(2) [OF ok] in blast)
  then show ?thesis using assms(2) by (auto simp: drop_by_limit_def Let_def track_keys(1) [OF ok] bind_eq_Some_conv)
qed

lemma stuck_step:
  assumes "stuck v ms" "ms_step ord (InLoop v, ms) s"
  shows "\<exists>ms'. s = (InLoop v, ms') \<and> stuck v ms'"
  using assms(2)
proof cases
  case (step_wake ms')
  have "ms' = ms" using step_wake assms(1) drop_by_limit_none [of ms ord] by (auto simp: drop_thread_wake_def stuck_def split: if_splits)
  then show ?thesis using step_wake assms(1) by simp
qed (use append_attempt_stuck [OF assms(1)] in auto)

text \<open>C20: An append can wait for ever: when the memory is used up by current chunks of other series and no track has a chunk in
  its index, the dropping thread has nothing to drop, so no sequence of passes of the loop and of wake-ups
  of the thread lets the append of a new series return, and each pass is followed by another.\<close>

theorem storage_append_livelock:
  assumes "stuck v ms" "(ms_step ord)\<^sup>*\<^sup>* (InLoop v, ms) s"
  shows "(\<exists>ms'. s = (InLoop v, ms') \<and> stuck v ms') \<and> (\<exists>s'. ms_step ord s s')"
proof -
  have *: "\<exists>ms'. s = (InLoop v, ms') \<and> stuck v ms'"
    using assms(2)
  proof induction
    case base
    then show ?case using assms(1) by blast
  next
    case (step y z)
    then show ?case using stuck_step by blast
  qed
  then obtain ms' where "s = (InLoop v, ms')" "stuck v ms'" by blast
  moreover obtain ms2 where "append_attempt v ms' = Some (None, ms2)" using append_attempt_stuck [OF calculation(2)] by blast
  ultimately show ?thesis using * step_again by blast
qed

text \<open>A storage with memory for one chunk, which is the current chunk of the series 1, and the series 2 without a chunk.\<close>

definition full_pool :: MemPool where
  "full_pool = \<lparr>mp_allocator = Region \<lparr>ra_chunkSize = 64, ra_allocated = 1, ra_capacity = 1, ra_free_list = []\<rparr>, mp_chunks_count = 1,
     mp_junk = mp_junk example_pool, mp_stack = 0\<rparr>"

definition full_storage :: "Chunk \<Rightarrow> MemStorage" where
  "full_storage c = \<lparr>ms_id2track = sm_insert jenkins_one_hash None
       (sm_insert jenkins_one_hash None (sm_new 2) 1 (Some ((TimeTrack_new 0 1)\<lparr>tt_cur_chunk := Some \<lparr>mc_chunk = c, mc_is_from_pool = True, mc_position = 0\<rparr>\<rparr>)))
       2 (Some (TimeTrack_new 0 2)),
     ms_settings = example_settings\<lparr>set_is_memory_only_mode := False\<rparr>, ms_pool = full_pool, ms_down_level_storage = Some [],
     ms_disk_storage = None, ms_stoped = False, ms_drop_stop = False, ms_drop_is_stoped = False\<rparr>"

lemma full_storage_find:
  "ms_find (full_storage c) = [1 \<mapsto> Some ((TimeTrack_new 0 1)\<lparr>tt_cur_chunk := Some \<lparr>mc_chunk = c, mc_is_from_pool = True, mc_position = 0\<rparr>\<rparr>),
      2 \<mapsto> Some (TimeTrack_new 0 2)]" "sm_ok jenkins_one_hash (ms_id2track (full_storage c))"
proof -
  let ?m1 = "sm_insert jenkins_one_hash None (sm_new 2) 1 (Some ((TimeTrack_new 0 1)\<lparr>tt_cur_chunk := Some \<lparr>mc_chunk = c, mc_is_from_pool = True, mc_position = 0\<rparr>\<rparr>)) :: (Id, TimeTrack option) stripped_map"
  have n: "sm_ok jenkins_one_hash (sm_new 2 :: (Id, TimeTrack option) stripped_map)" by (simp add: sm_new_ok)
  have m: "sm_ok jenkins_one_hash ?m1" using sm_insert_ok [OF n] by simp
  show "ms_find (full_storage c) = [1 \<mapsto> Some ((TimeTrack_new 0 1)\<lparr>tt_cur_chunk := Some \<lparr>mc_chunk = c, mc_is_from_pool = True, mc_position = 0\<rparr>\<rparr>),
      2 \<mapsto> Some (TimeTrack_new 0 2)]"
    using sm_insert_ok [OF m] sm_insert_ok [OF n] by (auto simp: ms_find_def full_storage_def fun_eq_iff sm_new_ok)
  show "sm_ok jenkins_one_hash (ms_id2track (full_storage c))" using sm_insert_ok [OF m] by (simp add: full_storage_def)
qed

lemma full_storage_stuck: "stuck (late_meas\<lparr>m_id := 2\<rparr>) (full_storage c)"
proof -
  have "no_index (full_storage c)" unfolding no_index_def full_storage_find(1)
    using full_storage_find(2) by (auto simp: TimeTrack_new_def split: if_splits)
  then show ?thesis unfolding stuck_def full_storage_find(1) by (auto simp: full_storage_def full_pool_def TimeTrack_new_def)
qed

theorem storage_append_livelock_witness:
  "\<forall>c. stuck (late_meas\<lparr>m_id := 2\<rparr>) (full_storage c) \<and>
   (\<exists>s'. ms_step rev (InLoop (late_meas\<lparr>m_id := 2\<rparr>), full_storage c) s')"
  using storage_append_livelock [OF full_storage_stuck rtranclp.rtrancl_refl] full_storage_stuck by blast

section \<open>Progress\<close>

text \<open>Every track is there, and the chunks of the indexes are of the pool.\<close>

definition pool_index :: "MemStorage \<Rightarrow> bool" where
  "pool_index ms \<longleftrightarrow> sm_ok jenkins_one_hash (ms_id2track ms) \<and>
     (\<forall>i out. ms_find ms i = Some out \<longrightarrow> (\<exists>tr. out = Some tr \<and> (\<forall>e \<in> set (tt_index tr). mc_is_from_pool (snd e))))"

lemma drop_loop_parts: "drop_loop n xs = (ys, zs) \<Longrightarrow> map snd xs = ys @ map snd zs \<and> set zs \<subseteq> set xs \<and> (xs \<noteq> [] \<longrightarrow> ys \<noteq> [])"
  by (induction n xs arbitrary: ys zs rule: drop_loop.induct) (auto split: if_splits prod.splits)

lemma drop_N_parts:
  assumes "drop_N tr n = (cs, tr1)"
  shows "set cs \<subseteq> snd ` set (tt_index tr)" "set (tt_index tr1) \<subseteq> set (tt_index tr)" "tt_cur_chunk tr1 = tt_cur_chunk tr"
    "tt_index tr \<noteq> [] \<Longrightarrow> cs \<noteq> []"
proof -
  obtain zs where d: "drop_loop n (tt_index tr) = (cs, zs)" "tr1 = rereadMinMax (tr\<lparr>tt_index := zs\<rparr>)"
    using assms by (auto simp: drop_N_def split: prod.splits)
  note p = drop_loop_parts [OF d(1)]
  have "set (map snd (tt_index tr)) = set cs \<union> set (map snd zs)" using p by (metis set_append)
  then show "set cs \<subseteq> snd ` set (tt_index tr)" by auto
  show "set (tt_index tr1) \<subseteq> set (tt_index tr)" "tt_cur_chunk tr1 = tt_cur_chunk tr" "tt_index tr \<noteq> [] \<Longrightarrow> cs \<noteq> []"
    using p d(2) by (auto simp: rereadMinMax_def Let_def)
qed

lemma drop_tracks_parts:
  assumes "pool_index ms" "drop_tracks n cur ids ms = Some (cs, ms1)" "\<forall>i \<in> set ids. ms_find ms i \<noteq> None"
    "ms_find ms j = Some (Some tr)"
  shows "pool_index ms1 \<and> (\<forall>c \<in> set cs. mc_is_from_pool c) \<and> ms_pool ms1 = ms_pool ms \<and> ms_settings ms1 = ms_settings ms \<and>
    ms_drop_stop ms1 = ms_drop_stop ms \<and> ms_down_level_storage ms1 = ms_down_level_storage ms \<and>
    (\<exists>tr1. ms_find ms1 j = Some (Some tr1) \<and> tt_cur_chunk tr1 = tt_cur_chunk tr) \<and>
    (j \<in> set ids \<and> of_nat (length (tt_index tr)) \<noteq> (0 :: u64) \<longrightarrow> cs \<noteq> [])"
  using assms
proof (induction ids arbitrary: ms cs tr)
  case (Cons i ids)
  obtain ti where ti: "ms_find ms i = Some (Some ti)" "\<forall>e \<in> set (tt_index ti). mc_is_from_pool (snd e)"
    using Cons.prems(1,3) unfolding pool_index_def by (metis list.set_intros(1) not_None_eq)
  show ?case
  proof (cases "of_nat (length (tt_index ti)) = (0 :: u64)")
    case True
    then show ?thesis using Cons.IH [of ms cs tr] Cons.prems ti(1) by (auto simp: ms_track_def)
  next
    case False
    obtain k where k0: "drop_count n (of_nat (length (tt_index ti))) cur = Some k"
      using Cons.prems(2) ti(1) False by (cases "drop_count n (of_nat (length (tt_index ti))) cur") (auto simp: ms_track_def)
    obtain dr t1 where k: "drop_count n (of_nat (length (tt_index ti))) cur = Some k" "drop_N ti k = (dr, t1)"
      using k0 by (cases "drop_N ti k") auto
    obtain rest where r: "drop_tracks n cur ids (ms_set_track i t1 ms) = Some (rest, ms1)" "cs = dr @ rest"
      using Cons.prems(2) ti(1) False k by (auto simp: ms_track_def Let_def bind_eq_Some_conv)
    note p = drop_N_parts [OF k(2)]
    have ok: "sm_ok jenkins_one_hash (ms_id2track ms)" using Cons.prems(1) by (simp add: pool_index_def)
    let ?ms = "ms_set_track i t1 ms"
    have f: "ms_find ?ms = (ms_find ms)(i \<mapsto> Some t1)" by (rule ms_find_set_track [OF ok]) (use ti in simp)
    have ok2: "sm_ok jenkins_one_hash (ms_id2track ?ms)" using sm_write_ok [OF ok] by (simp add: ms_set_track_def)
    have "\<exists>tr. out = Some tr \<and> (\<forall>e \<in> set (tt_index tr). mc_is_from_pool (snd e))" if "ms_find ?ms l = Some out" for l out
    proof (cases "l = i")
      case True
      then show ?thesis using that f p(2) ti(2) by auto
    next
      case False
      then have "ms_find ms l = Some out" using that f by simp
      then show ?thesis using Cons.prems(1) unfolding pool_index_def by blast
    qed
    then have pi: "pool_index ?ms" using ok2 unfolding pool_index_def by blast
    obtain tj where tj: "ms_find ?ms j = Some (Some tj)" "tt_cur_chunk tj = tt_cur_chunk tr" "j \<noteq> i \<Longrightarrow> tj = tr"
      using f Cons.prems(4) ti(1) p(3) by (cases "j = i") auto
    have fi: "\<forall>l \<in> set ids. ms_find ?ms l \<noteq> None" using Cons.prems(3) f by auto
    have "tt_index ti \<noteq> []" using False by auto
    then have dr: "dr \<noteq> []" "\<forall>c \<in> set dr. mc_is_from_pool c" using p(1,4) ti(2) by auto
    have g: "ms_pool ?ms = ms_pool ms" "ms_drop_stop ?ms = ms_drop_stop ms" "ms_settings ?ms = ms_settings ms"
      "ms_down_level_storage ?ms = ms_down_level_storage ms" by (simp_all add: ms_set_track_def)
    show ?thesis using Cons.IH [OF pi r(1) fi tj(1)] r(2) dr g tj(2) by auto
  qed
qed simp

text \<open>The memory of a region, and a region with a free position.\<close>

definition region :: "u32 \<Rightarrow> MemPool \<Rightarrow> bool" where
  "region sz w \<longleftrightarrow> (\<exists>a. mp_allocator w = Region a \<and> ra_chunkSize a = sz)"

definition region_free :: "u32 \<Rightarrow> MemPool \<Rightarrow> bool" where
  "region_free sz w \<longleftrightarrow> (\<exists>a. mp_allocator w = Region a \<and> ra_chunkSize a = sz \<and> ra_free_list a \<noteq> [])"

lemma region_free_region: "region_free sz w \<Longrightarrow> region sz w"
  by (auto simp: region_free_def region_def)

lemma MemChunk_delete_region:
  "mc_is_from_pool c \<Longrightarrow> region sz w \<Longrightarrow> region_free sz (MemChunk_delete c w)"
  by (auto simp: region_def region_free_def MemChunk_delete_def RegionChunkAllocator_free_def)

lemma fold_delete_region:
  "\<forall>c \<in> set cs. mc_is_from_pool c \<Longrightarrow> cs \<noteq> [] \<Longrightarrow> region sz w \<Longrightarrow> region_free sz (fold MemChunk_delete cs w)"
proof (induction cs arbitrary: w)
  case (Cons c cs)
  have "region_free sz (MemChunk_delete c w)" using Cons.prems by (simp add: MemChunk_delete_region)
  then show ?case using Cons by (cases "cs = []") (auto intro: region_free_region)
qed simp

lemma fold_freeChunk_region: "region sz (fold (\<lambda>_. freeChunk) cs w) = region sz w"
  by (induction cs arbitrary: w) (auto simp: region_def freeChunk_def)

lemma drop_batch_region:
  assumes "\<forall>c \<in> set all. mc_is_from_pool c" "i \<in> (\<lambda>mc. ch_meas_id (mc_header mc)) ` set all" "region sz (ms_pool ms)"
  shows "region_free sz (ms_pool (drop_batch all i ms))"
proof -
  have "chunk_batch i all \<noteq> []" using assms(2) by (auto simp: chunk_batch_def filter_empty_conv)
  then show ?thesis using assms(1,3) unfolding drop_batch_def Let_def
    by (simp add: fold_delete_region fold_freeChunk_region chunk_batch_def)
qed

lemma drop_logic_region:
  assumes "\<forall>c \<in> set all. mc_is_from_pool c" "all \<noteq> []" "\<And>xs. set (ord xs) = set xs" "region sz (ms_pool ms)"
  shows "region_free sz (ms_pool (drop_logic ord all ms))"
proof -
  have *: "set ids \<subseteq> (\<lambda>mc. ch_meas_id (mc_header mc)) ` set all \<Longrightarrow> ids \<noteq> [] \<Longrightarrow> region sz (ms_pool ms) \<Longrightarrow>
      region_free sz (ms_pool (fold (drop_batch all) ids ms))" for ids ms
  proof (induction ids arbitrary: ms)
    case (Cons i ids)
    have "region_free sz (ms_pool (drop_batch all i ms))" using drop_batch_region [OF assms(1)] Cons.prems by auto
    then show ?case using Cons by (cases "ids = []") (auto intro: region_free_region)
  qed simp
  let ?ids = "remdups (map (\<lambda>mc. ch_meas_id (mc_header mc)) all)"
  have "set (ord ?ids) = set ?ids" by (rule assms(3))
  moreover have "?ids \<noteq> []" using assms(2) by (cases all) (auto split: if_splits)
  ultimately show ?thesis unfolding drop_logic_def using assms(4) by (intro *) (auto dest: sym)
qed

lemma drop_batch_fields [simp]:
  "ms_id2track (drop_batch all i ms) = ms_id2track ms" "ms_settings (drop_batch all i ms) = ms_settings ms"
  "ms_drop_stop (drop_batch all i ms) = ms_drop_stop ms"
  by (simp_all add: drop_batch_def Let_def)

lemma drop_logic_fields [simp]:
  "ms_id2track (drop_logic ord all ms) = ms_id2track ms" "ms_drop_stop (drop_logic ord all ms) = ms_drop_stop ms"
proof -
  have "ms_id2track (fold (drop_batch all) ids ms) = ms_id2track ms \<and> ms_drop_stop (fold (drop_batch all) ids ms) = ms_drop_stop ms" for ids
    by (induction ids arbitrary: ms) auto
  then show "ms_id2track (drop_logic ord all ms) = ms_id2track ms" "ms_drop_stop (drop_logic ord all ms) = ms_drop_stop ms"
    by (simp_all add: drop_logic_def)
qed

text \<open>A track without a current chunk takes a value when a position is free.\<close>

lemma append_attempt_free:
  assumes "ms_find ms (m_id v) = Some (Some tr)" "tt_cur_chunk tr = None" "region_free sz (ms_pool ms)" "0 < sz"
  shows "\<exists>ms'. append_attempt v ms = Some (Some (Returned (Status_writed 1)), ms')"
proof -
  obtain a pos rest where a: "mp_allocator (ms_pool ms) = Region a" "ra_chunkSize a = sz" "ra_free_list a = pos # rest"
    using assms(3) by (auto simp: region_free_def neq_Nil_conv)
  obtain c where c: "Chunk_create (mp_junk (ms_pool ms)) sz v = Some c" using chunk_create_writes [OF assms(4)] by blast
  have "\<exists>tr1 w1. TimeTrack_append tr v (ms_pool ms) = Some (Returned (Status_writed 1), tr1, w1)"
    using assms(2) a c by (simp add: TimeTrack_append_def create_new_chunk_def RegionChunkAllocator_allocate_def MemChunk_new_def)
  then show ?thesis using assms(1) by (auto simp: append_attempt_def ms_track_def Let_def Status_eq_def)
qed


text \<open>A storage with memory for one chunk, which is in the index of the series 1; a drop starts when half of the memory is used.\<close>

definition waiting_storage :: "Chunk \<Rightarrow> MemStorage" where
  "waiting_storage c = \<lparr>ms_id2track = sm_insert jenkins_one_hash None (sm_new 1) 1
       (Some ((TimeTrack_new 0 1)\<lparr>tt_index := [(20, \<lparr>mc_chunk = c, mc_is_from_pool = True, mc_position = 0\<rparr>)]\<rparr>)),
     ms_settings = \<lparr>set_is_memory_only_mode = False, set_memory_limit = 200, set_chunk_size = 64,
       set_percent_when_start_droping = 0x3F000000, set_percent_to_drop = 0x3F000000\<rparr>,
     ms_pool = full_pool, ms_down_level_storage = Some [],
     ms_disk_storage = None, ms_stoped = False, ms_drop_stop = False, ms_drop_is_stoped = False\<rparr>"

lemma waiting_storage_find:
  "sm_ok jenkins_one_hash (ms_id2track (waiting_storage c))"
  "ms_find (waiting_storage c) = [1 \<mapsto> Some ((TimeTrack_new 0 1)\<lparr>tt_index := [(20, \<lparr>mc_chunk = c, mc_is_from_pool = True, mc_position = 0\<rparr>)]\<rparr>)]"
  "map fst (sm_items (ms_id2track (waiting_storage c))) = [1]"
proof -
  have n: "sm_ok jenkins_one_hash (sm_new 1 :: (Id, TimeTrack option) stripped_map)" by (simp add: sm_new_ok)
  show "sm_ok jenkins_one_hash (ms_id2track (waiting_storage c))" using sm_insert_ok [OF n] by (simp add: waiting_storage_def)
  show "ms_find (waiting_storage c) = [1 \<mapsto> Some ((TimeTrack_new 0 1)\<lparr>tt_index := [(20, \<lparr>mc_chunk = c, mc_is_from_pool = True, mc_position = 0\<rparr>)]\<rparr>)]"
    using sm_insert_ok [OF n] by (auto simp: ms_find_def waiting_storage_def fun_eq_iff sm_new_ok)
  show "map fst (sm_items (ms_id2track (waiting_storage c))) = [1]"
    by (simp add: waiting_storage_def sm_insert_def sm_find_bucket_def sm_rehash_def sm_overloaded_def sm_new_def sm_reserve_def sm_clear_def
        sm_put_def sm_items_def Let_def)
qed

lemma waiting_storage_wake: "\<exists>ms1. drop_thread_wake rev (waiting_storage c) = Some ms1"
proof -
  have t: "is_time_to_drop (waiting_storage c)" unfolding is_time_to_drop_def waiting_storage_def full_pool_def by simp code_simp
  have n: "dy_size_t (dy_mul 24 (dy_of_int 24 (uint (1 :: u64))) (f32_bits 0x3F000000)) = Some 0" by code_simp
  have k: "drop_count 0 1 1 = Some 1" by code_simp
  have "\<exists>cs ms1. drop_tracks 0 1 [1] (waiting_storage c) = Some (cs, ms1)"
    using waiting_storage_find(2) [of c] k by (auto simp: ms_track_def split: prod.splits)
  then obtain cs ms1 where d: "drop_tracks 0 1 [1] (waiting_storage c) = Some (cs, ms1)" by blast
  have p: "mp_chunks_count (ms_pool (waiting_storage c)) = 1" "set_percent_to_drop (ms_settings (waiting_storage c)) = 0x3F000000"
    "\<not> ms_drop_stop (waiting_storage c)" by (simp_all add: waiting_storage_def full_pool_def)
  have "\<exists>ms1. drop_by_limit rev 0x3F000000 (waiting_storage c) = Some ms1"
    unfolding drop_by_limit_def Let_def track_keys(1) [OF waiting_storage_find(1)] waiting_storage_find(3) p n
    by (simp add: d del: drop_tracks.simps)
  then show ?thesis using t p by (simp add: drop_thread_wake_def)
qed


section \<open>Stop\<close>

lemma sm_find_clear: "sm_ok hasher m \<Longrightarrow> sm_find hasher (sm_clear m) k = None"
proof -
  assume ok: "sm_ok hasher m"
  have "hasher k mod sm_N m < length (sm_buckets m)" using ok by (auto simp: sm_ok_def buckets_ok_def)
  then show ?thesis by (simp add: sm_find_def sm_clear_def)
qed



end
