(* ===== verification/Spec2Isabelle.thy ===== *)
theory Spec2Isabelle
  imports WalTimes StorageLive
begin

text \<open>
  A verification development for dariadb, the time-series database under \<^verbatim>\<open>src/libdariadb\<close>.

  \<^bold>\<open>The program.\<close>  A measurement is an id, a time, a value and a flag.  The memory storage keeps one track for each
  id; a track compresses its measurements into chunks, the last of which is the current one, and keeps the full ones in an index
  by their greatest time.  Chunks come from an allocator that the tracks share; when the memory is used up a thread drops chunks of the
  indexes to the storage below.  The write-ahead log keeps a buffer for each id and flushes it to files, whose names and ids are
  rows of the manifest.  Queries build cursors over chunks or files; cursors of one id are collapsed into one.

  \<^bold>\<open>Conventions.\<close>  The default build is modelled, in which \<^verbatim>\<open>ENSURE\<close> is empty.  Times and counters are words of their
  width, a \<^verbatim>\<open>double\<close> is its bit pattern, \<^verbatim>\<open>size_t\<close> that counts objects in memory is \<^typ>\<open>nat\<close>.  A result \<^term>\<open>None\<close> is a call
  without a defined result, or one that throws where nothing is said of the state it leaves; tracks and the storage
  return exceptions as values of \<open>outcome\<close>.  An operation is one step: the locks it holds are not part of the state, and
  tasks posted to other threads are done where the caller waits for them.  The loop of \<open>MemStorage::append\<close> and the dropping
  thread interleave, and are a step relation, \<open>ms_step\<close>.

  \<^bold>\<open>Theories.\<close>
  \<^item> \<^verbatim>\<open>Prelude\<close>, \<^verbatim>\<open>Double\<close>, \<^verbatim>\<open>Ratio\<close>: words, bytes and options; comparison, minimum, maximum and sum of doubles as bit
    patterns; products, quotients and truncation of floating point numbers as the drop computes them.
  \<^item> \<^verbatim>\<open>Measurement\<close>: \<^verbatim>\<open>meas.h\<close>, \<^verbatim>\<open>meas.cpp\<close>, \<^verbatim>\<open>query.h\<close>, \<^verbatim>\<open>status.h\<close>, \<^verbatim>\<open>utils/in_interval.h\<close>.
  \<^item> \<^verbatim>\<open>Stat\<close>: \<^verbatim>\<open>stat.h\<close>, \<^verbatim>\<open>storage/bloom_filter.h\<close>, \<^verbatim>\<open>utils/jenkins_hash.h\<close>; statistics of sequences, their merge, and that the
    filter has no false negatives.
  \<^item> \<^verbatim>\<open>ByteBuffer\<close>, \<^verbatim>\<open>Delta\<close>, \<^verbatim>\<open>Xor\<close>, \<^verbatim>\<open>FlagCodec\<close>, \<^verbatim>\<open>Compression\<close>: the directory \<^verbatim>\<open>compression\<close>; what is written is read
    back, and where it is not.  The locale \<open>codec\<close> is the contract of a stream codec; it is interpreted on the three codecs and on
    their product.
  \<^item> \<^verbatim>\<open>Chunk\<close>, \<^verbatim>\<open>ChunkAccess\<close>: \<^verbatim>\<open>storage/chunk.cpp\<close>; append, compaction, readers and statistics of a chunk.
  \<^item> \<^verbatim>\<open>Cursors\<close>, \<^verbatim>\<open>MergeSpec\<close>, \<^verbatim>\<open>CursorContract\<close>, \<^verbatim>\<open>Collapse\<close>, \<^verbatim>\<open>CollapseCorrect\<close>: \<^verbatim>\<open>storage/cursors.cpp\<close> and
    \<^verbatim>\<open>interfaces/icursor.cpp\<close>; \<open>MergeSpec\<close> is the merge of sequences that the collapsed cursor is proved to return.  The locale
    \<open>icursor\<close> is the contract of a cursor.  A cursor is read with fuel, which \<open>readNext\<close> takes from the depth of the cursor.
  \<^item> \<^verbatim>\<open>ReadPath\<close>: chunks and cursors together: round trip of a chunk, reads of collapsed readers, interval and time point queries.
  \<^item> \<^verbatim>\<open>StripedMap\<close>: \<^verbatim>\<open>utils/striped_map.h\<close> and \<^verbatim>\<open>minmax_append\<close>; the locale \<open>assoc_map\<close> is the contract of a map.
  \<^item> \<^verbatim>\<open>Memory\<close>, \<^verbatim>\<open>TrackCorrect\<close>, \<^verbatim>\<open>TrackReads\<close>, \<^verbatim>\<open>TrackPast\<close>: allocators, chunks in memory and tracks of
    \<^verbatim>\<open>storage/memstorage\<close>; \<open>tt_rep\<close> relates a track to the values of its chunks.  Appends in the order of time and queries, late appends,
    and the cases where values are lost or not seen.
  \<^item> \<^verbatim>\<open>MemStorage\<close>, \<^verbatim>\<open>StorageCorrect\<close>, \<^verbatim>\<open>StorageLive\<close>: \<^verbatim>\<open>storage/memstorage/memstorage.cpp\<close>; the storage without a limit refines a map from ids to
    values (\<open>ms_rep\<close>), when a waiting append returns and when it never does, and what a stop writes down.
  \<^item> \<^verbatim>\<open>Manifest\<close>: \<^verbatim>\<open>storage/manifest.cpp\<close>; the three tables as lists of rows.
  \<^item> \<^verbatim>\<open>WalFile\<close>, \<^verbatim>\<open>WalManager\<close>: \<^verbatim>\<open>storage/wal/walfile.cpp\<close> and \<^verbatim>\<open>storage/wal/wal_manager.cpp\<close> over a disk that maps names to bytes.
  \<^item> \<^verbatim>\<open>WalCorrect\<close>, \<^verbatim>\<open>WalLog\<close>: \<open>wm_values\<close> is what the log holds for an id, \<open>wm_rep\<close> the invariant of the manager; appends, flushes and restarts
    keep the values.  The loop of a flush is a partial function, so that a flush that does not end is \<^term>\<open>None\<close>; it is proved to
    end if files hold at least one value.
  \<^item> \<^verbatim>\<open>WalLimits\<close>, \<^verbatim>\<open>WalQueries\<close>, \<^verbatim>\<open>WalTimes\<close>: settings at which the log fails, the filter over closed files, time bounds and time points.

  \<^bold>\<open>Parameters.\<close>  The checksum routine of chunks, the order in which an unordered map is visited, the paths and names of files and
  whether a file exists are arguments.  New names of files are assumed to be new and distinct (\<open>names_fresh\<close>); the cache of the log is
  assumed to hold two values and its files one (\<open>wal_limits\<close>), and both assumptions are shown to be needed.

  \<^bold>\<open>Not modelled.\<close>  The pages and their indexes (\<^verbatim>\<open>storage/pages\<close>), which are files mapped into memory; the engines, the dropper and
  the environment, which start threads and forward to the storages; settings as a file; scheme, aggregation, statistic
  functions and time formatting; the thread manager, logging and file system calls; the database library below the manifest; the
  network server, its clients, examples, benchmarks and tests.
\<close>

end
